(* ===== verification/Prelude.thy ===== *)
theory Prelude
  imports Main "HOL-Library.Word" "HOL-Library.Char_ord" "HOL-Library.List_Lexorder"
begin

text \<open>
  Shared ground of the development: the faults the C++ program can run into, programs that
  read and change a state and may throw (the member functions of the repository), the
  conversions of the C++ standard library between numbers and text that the sources call
  (\<^verbatim>\<open>std::to_string\<close>, \<^verbatim>\<open>std::stoi\<close>, \<^verbatim>\<open>std::stoul\<close>), and the frame calculus in which
  the components state what an operation leaves alone.
\<close>

named_theorems prog_simps "unfolding equations of the program combinators"
named_theorems runs "what a program did, given the value it returned"
named_theorems keeps_intros "frame rules: which programs move only along a relation"

section \<open>Faults\<close>

text \<open>
  What a call can end in other than a value. The first group are C++ exceptions (all of them
  derive from \<^verbatim>\<open>std::exception\<close>); \<open>Undefined_behaviour\<close> marks the calls to which the C++
  standard gives no meaning (a read past a buffer, a null or dangling dereference) and which
  no handler can catch; \<open>Terminated\<close> is a call of \<^verbatim>\<open>std::terminate\<close>.
\<close>

datatype fault =
    Invalid_argument
  | Out_of_range
  | Length_error
  | Bad_optional_access
  | Sql_exception int string
  | Json_exception nat
  | Toml_exception string
  | Network_exception
  | Terminated
  | Undefined_behaviour string

fun is_std_exception :: "fault \<Rightarrow> bool" where
  "is_std_exception (Undefined_behaviour _) = False"
| "is_std_exception Terminated = False"
| "is_std_exception _ = True"

fun is_sql_exception :: "fault \<Rightarrow> bool" where
  "is_sql_exception (Sql_exception _ _) = True"
| "is_sql_exception _ = False"

section \<open>Programs over a state\<close>

text \<open>
  A member function reads and changes a state and returns a value or a fault. The state it
  has reached is kept when it throws, as the effects before a C++ throw are.
\<close>

type_synonym ('s, 'a) prog = "'s \<Rightarrow> (fault + 'a) \<times> 's"

definition return_p :: "'a \<Rightarrow> ('s, 'a) prog" where
  "return_p x = (\<lambda>s. (Inr x, s))"

definition throw_p :: "fault \<Rightarrow> ('s, 'a) prog" where
  "throw_p e = (\<lambda>s. (Inl e, s))"

definition bind_p :: "('s, 'a) prog \<Rightarrow> ('a \<Rightarrow> ('s, 'b) prog) \<Rightarrow> ('s, 'b) prog" where
  "bind_p m f = (\<lambda>s. case m s of (Inl e, s') \<Rightarrow> (Inl e, s') | (Inr x, s') \<Rightarrow> f x s')"

definition then_p :: "('s, 'a) prog \<Rightarrow> ('s, 'b) prog \<Rightarrow> ('s, 'b) prog" where
  "then_p m k = bind_p m (\<lambda>_. k)"

definition modify_p :: "('s \<Rightarrow> 's) \<Rightarrow> ('s, unit) prog" where
  "modify_p f = (\<lambda>s. (Inr (), f s))"

definition gets_p :: "('s \<Rightarrow> 'a) \<Rightarrow> ('s, 'a) prog" where
  "gets_p f = (\<lambda>s. (Inr (f s), s))"

definition lift_p :: "fault + 'a \<Rightarrow> ('s, 'a) prog" where
  "lift_p r = (\<lambda>s. (r, s))"

text \<open>\<open>catch_p c m h\<close> is \<^verbatim>\<open>try { m } catch (T &e) { h e }\<close>, \<open>c\<close> telling which faults are a T.\<close>

definition catch_p :: "(fault \<Rightarrow> bool) \<Rightarrow> ('s, 'a) prog \<Rightarrow> (fault \<Rightarrow> ('s, 'a) prog) \<Rightarrow> ('s, 'a) prog" where
  "catch_p c m h = (\<lambda>s. case m s of
      (Inl e, s') \<Rightarrow> (if c e then h e s' else (Inl e, s'))
    | (Inr x, s') \<Rightarrow> (Inr x, s'))"

text \<open>Two objects side by side: a member function of the one, run in the pair.\<close>

definition on_fst :: "('s, 'a) prog \<Rightarrow> ('s \<times> 't, 'a) prog" where
  "on_fst m = (\<lambda>(s, t). case m s of (r, s') \<Rightarrow> (r, (s', t)))"

definition on_snd :: "('t, 'a) prog \<Rightarrow> ('s \<times> 't, 'a) prog" where
  "on_snd m = (\<lambda>(s, t). case m t of (r, t') \<Rightarrow> (r, (s, t')))"

lemmas prog_defs [prog_simps] =
  return_p_def throw_p_def bind_p_def then_p_def modify_p_def gets_p_def lift_p_def
  catch_p_def on_fst_def on_snd_def

lemma bind_p_Inr [runs]:
  "bind_p m f s = (Inr y, t) \<longleftrightarrow> (\<exists>x s'. m s = (Inr x, s') \<and> f x s' = (Inr y, t))"
  by (auto simp: bind_p_def split: prod.splits sum.splits)

lemma bind_p_Inl:
  "bind_p m f s = (Inl e, t) \<longleftrightarrow>
     m s = (Inl e, t) \<or> (\<exists>x s'. m s = (Inr x, s') \<and> f x s' = (Inl e, t))"
  by (auto simp: bind_p_def split: prod.splits sum.splits)

lemma simple_runs [runs]:
  "return_p x s = (Inr y, t) \<longleftrightarrow> y = x \<and> t = s"
  "throw_p e s = (Inr y, t) \<longleftrightarrow> False"
  "modify_p f s = (Inr u, t) \<longleftrightarrow> t = f s"
  "gets_p g s = (Inr y, t) \<longleftrightarrow> y = g s \<and> t = s"
  "lift_p r s = (Inr y, t) \<longleftrightarrow> r = Inr y \<and> t = s"
  by (auto simp: prog_simps)

lemma then_p_Inr [runs]:
  "then_p m k s = (Inr y, t) \<longleftrightarrow> (\<exists>x s'. m s = (Inr x, s') \<and> k s' = (Inr y, t))"
  by (simp add: then_p_def runs)

lemma on_fst_Inr [runs]:
  "on_fst m (s, t) = (Inr x, (s', t')) \<longleftrightarrow> m s = (Inr x, s') \<and> t' = t"
  by (auto simp: on_fst_def split: prod.splits)

lemma on_snd_Inr [runs]:
  "on_snd m (s, t) = (Inr x, (s', t')) \<longleftrightarrow> m t = (Inr x, t') \<and> s' = s"
  by (auto simp: on_snd_def split: prod.splits)

lemma bind_return_p [simp]: "bind_p (return_p x) f = f x"
  by (simp add: prog_simps)

lemma bind_p_return [simp]: "bind_p m return_p = m"
  by (auto simp: prog_simps fun_eq_iff split: prod.splits sum.splits)

lemma bind_p_assoc: "bind_p (bind_p m f) g = bind_p m (\<lambda>x. bind_p (f x) g)"
  by (auto simp: prog_simps fun_eq_iff split: prod.splits sum.splits)

section \<open>Frame rules\<close>

text \<open>
  \<open>keeps R m\<close>: wherever \<open>m\<close> ends, in a value or in a fault, it has moved the state along
  \<open>R\<close> only. With \<open>R\<close> reflexive and transitive the rule composes over every combinator, so
  a frame property of a long member function is one application of \<open>keeps_intros\<close>.
\<close>

definition keeps :: "('s \<Rightarrow> 's \<Rightarrow> bool) \<Rightarrow> ('s, 'a) prog \<Rightarrow> bool" where
  "keeps R m \<longleftrightarrow> (\<forall>s r s'. m s = (r, s') \<longrightarrow> R s s')"

lemma keepsI: "(\<And>s r s'. m s = (r, s') \<Longrightarrow> R s s') \<Longrightarrow> keeps R m"
  by (simp add: keeps_def)

lemma keepsD: "keeps R m \<Longrightarrow> m s = (r, s') \<Longrightarrow> R s s'"
  by (simp add: keeps_def)

lemma keeps_return [keeps_intros]: "reflp R \<Longrightarrow> keeps R (return_p x)"
  by (simp add: keeps_def return_p_def reflpD)

lemma keeps_throw [keeps_intros]: "reflp R \<Longrightarrow> keeps R (throw_p e)"
  by (simp add: keeps_def throw_p_def reflpD)

lemma keeps_gets [keeps_intros]: "reflp R \<Longrightarrow> keeps R (gets_p f)"
  by (simp add: keeps_def gets_p_def reflpD)

lemma keeps_lift [keeps_intros]: "reflp R \<Longrightarrow> keeps R (lift_p r)"
  by (simp add: keeps_def lift_p_def reflpD)

lemma keeps_modify: "(\<And>s. R s (f s)) \<Longrightarrow> keeps R (modify_p f)"
  by (simp add: keeps_def modify_p_def)

lemma keeps_bind [keeps_intros]:
  assumes "transp R" and "keeps R m" and "\<And>x. keeps R (f x)"
  shows "keeps R (bind_p m f)"
proof (rule keepsI)
  fix s r s'
  assume run: "bind_p m f s = (r, s')"
  obtain q t where m: "m s = (q, t)" by (cases "m s")
  with assms(2) have st: "R s t" by (rule keepsD)
  show "R s s'"
  proof (cases q)
    case (Inl e)
    with run m st show ?thesis by (simp add: bind_p_def)
  next
    case (Inr x)
    with run m have "f x t = (r, s')" by (simp add: bind_p_def)
    with assms(3) have "R t s'" by (rule keepsD)
    with st assms(1) show ?thesis by (blast dest: transpD)
  qed
qed

lemma keeps_then [keeps_intros]:
  "transp R \<Longrightarrow> keeps R m \<Longrightarrow> keeps R k \<Longrightarrow> keeps R (then_p m k)"
  by (simp add: then_p_def keeps_bind)

lemma keeps_catch [keeps_intros]:
  assumes "transp R" and "keeps R m" and "\<And>e. keeps R (h e)"
  shows "keeps R (catch_p c m h)"
proof (rule keepsI)
  fix s r s'
  assume run: "catch_p c m h s = (r, s')"
  obtain q t where m: "m s = (q, t)" by (cases "m s")
  with assms(2) have st: "R s t" by (rule keepsD)
  show "R s s'"
  proof (cases "\<exists>e. q = Inl e \<and> c e")
    case True
    then obtain e where "q = Inl e" and "c e" by blast
    with run m have "h e t = (r, s')" by (simp add: catch_p_def)
    with assms(3) have "R t s'" by (rule keepsD)
    with st assms(1) show ?thesis by (blast dest: transpD)
  next
    case False
    with run m st show ?thesis by (auto simp: catch_p_def split: sum.splits)
  qed
qed

lemma keeps_if [keeps_intros]:
  "keeps R m \<Longrightarrow> keeps R k \<Longrightarrow> keeps R (if b then m else k)"
  by simp

lemma keeps_on_fst [keeps_intros]:
  "keeps (\<lambda>s s'. \<forall>t. R (s, t) (s', t)) m \<Longrightarrow> keeps R (on_fst m)"
  by (auto simp: keeps_def on_fst_def split: prod.splits)

lemma keeps_on_snd [keeps_intros]:
  "keeps (\<lambda>t t'. \<forall>s. R (s, t) (s, t')) m \<Longrightarrow> keeps R (on_snd m)"
  by (auto simp: keeps_def on_snd_def split: prod.splits)

section \<open>Numbers and text\<close>

text \<open>\<^verbatim>\<open>std::to_string\<close> of an unsigned number: its decimal digits, no leading zero.\<close>

definition digit_char :: "nat \<Rightarrow> char" where
  "digit_char d = char_of (48 + d)"

fun decimal :: "nat \<Rightarrow> string" where
  "decimal n = (if n < 10 then [digit_char n] else decimal (n div 10) @ [digit_char (n mod 10)])"

declare decimal.simps [simp del]

definition to_string_u64 :: "64 word \<Rightarrow> string" where
  "to_string_u64 w = decimal (unat w)"

text \<open>
  \<^verbatim>\<open>std::stoi\<close> and \<^verbatim>\<open>std::stoul\<close>, base ten: leading white space, an optional sign, then the
  longest run of digits; no digit is \<^verbatim>\<open>std::invalid_argument\<close>, a value outside the type
  \<^verbatim>\<open>std::out_of_range\<close>, and whatever follows the digits is ignored.
\<close>

definition is_space_char :: "char \<Rightarrow> bool" where
  "is_space_char c \<longleftrightarrow> (let n = (of_char c :: nat) in n = 32 \<or> (9 \<le> n \<and> n \<le> 13))"

definition is_digit_char :: "char \<Rightarrow> bool" where
  "is_digit_char c \<longleftrightarrow> (let n = (of_char c :: nat) in 48 \<le> n \<and> n \<le> 57)"

definition digit_val :: "char \<Rightarrow> nat" where
  "digit_val c = (of_char c :: nat) - 48"

definition digits_val :: "string \<Rightarrow> nat" where
  "digits_val ds = foldl (\<lambda>n c. 10 * n + digit_val c) 0 ds"

definition split_sign :: "string \<Rightarrow> bool \<times> string" where
  "split_sign s = (case s of
      [] \<Rightarrow> (False, [])
    | c # cs \<Rightarrow> if c = CHR ''-'' then (True, cs) else if c = CHR ''+'' then (False, cs) else (False, s))"

definition stoi :: "string \<Rightarrow> fault + int" where
  "stoi s = (case split_sign (dropWhile is_space_char s) of (neg, u) \<Rightarrow>
     let ds = takeWhile is_digit_char u;
         v = (if neg then - int (digits_val ds) else int (digits_val ds))
     in if ds = [] then Inl Invalid_argument
        else if v < - (2 ^ 31) \<or> 2 ^ 31 \<le> v then Inl Out_of_range
        else Inr v)"

definition stoul :: "string \<Rightarrow> fault + 64 word" where
  "stoul s = (case split_sign (dropWhile is_space_char s) of (neg, u) \<Rightarrow>
     let ds = takeWhile is_digit_char u; n = digits_val ds
     in if ds = [] then Inl Invalid_argument
        else if 2 ^ 64 \<le> n then Inl Out_of_range
        else Inr (if neg then - of_nat n else of_nat n))"

lemma of_char_digit [simp]: "d < 10 \<Longrightarrow> (of_char (digit_char d) :: nat) = 48 + d"
  by (simp add: digit_char_def)

lemma digit_char_props:
  assumes "d < 10"
  shows "is_digit_char (digit_char d)" and "digit_val (digit_char d) = d"
    and "\<not> is_space_char (digit_char d)"
    and "digit_char d \<noteq> CHR ''-''" and "digit_char d \<noteq> CHR ''+''"
    and "digit_char d \<noteq> CHR 0x27" and "digit_char d \<noteq> CHR ''N''"
proof -
  have ne: "digit_char d \<noteq> c" if "(of_char c :: nat) < 48 \<or> 57 < (of_char c :: nat)" for c
    using that assms of_char_digit [OF assms] by auto
  show "is_digit_char (digit_char d)" "digit_val (digit_char d) = d"
    "\<not> is_space_char (digit_char d)"
    using assms by (simp_all add: is_digit_char_def digit_val_def is_space_char_def Let_def)
  show "digit_char d \<noteq> CHR ''-''" "digit_char d \<noteq> CHR ''+''"
    "digit_char d \<noteq> CHR 0x27" "digit_char d \<noteq> CHR ''N''"
    by (rule ne, simp)+
qed

lemma decimal_ne_Nil [simp]: "decimal n \<noteq> []"
  by (subst decimal.simps) simp

lemma decimal_digits: "c \<in> set (decimal n) \<Longrightarrow> \<exists>d<10. c = digit_char d"
proof (induction n rule: decimal.induct)
  case (1 n)
  then show ?case
    by (subst (asm) (2) decimal.simps) (auto split: if_splits intro: exI [of _ "n mod 10"])
qed

lemma decimal_all_digits: "list_all is_digit_char (decimal n)"
  by (auto simp: list_all_iff dest!: decimal_digits digit_char_props(1))

lemma digits_val_append:
  "digits_val (xs @ [c]) = 10 * digits_val xs + digit_val c"
  by (simp add: digits_val_def)

lemma digits_val_decimal [simp]: "digits_val (decimal n) = n"
proof (induction n rule: decimal.induct)
  case (1 n)
  show ?case
  proof (cases "n < 10")
    case True
    then show ?thesis
      by (subst decimal.simps) (simp add: digits_val_def digit_char_props)
  next
    case False
    with 1 have "digits_val (decimal (n div 10)) = n div 10" by simp
    with False show ?thesis
      by (subst decimal.simps) (simp add: digits_val_append digit_char_props)
  qed
qed

lemma decimal_inject [simp]: "decimal m = decimal n \<longleftrightarrow> m = n"
  by (metis digits_val_decimal)

lemma decimal_hd:
  obtains d ds where "decimal n = digit_char d # ds" and "d < 10"
proof -
  obtain c ds where c: "decimal n = c # ds" by (cases "decimal n") auto
  then obtain d where "d < 10" and "c = digit_char d"
    using decimal_digits [of c n] by auto
  with c that show ?thesis by blast
qed

lemma dropWhile_space_decimal [simp]: "dropWhile is_space_char (decimal n) = decimal n"
  by (rule decimal_hd [of n]) (simp add: digit_char_props)

lemma split_sign_decimal [simp]: "split_sign (decimal n) = (False, decimal n)"
  by (rule decimal_hd [of n]) (simp add: split_sign_def digit_char_props)

lemma takeWhile_digit_decimal [simp]: "takeWhile is_digit_char (decimal n) = decimal n"
  using decimal_all_digits [of n] by (simp add: list_all_iff takeWhile_eq_all_conv)

text \<open>The number a decimal text stands for comes back, as far as the type reaches.\<close>

lemma stoi_decimal:
  "stoi (decimal n) = (if n < 2 ^ 31 then Inr (int n) else Inl Out_of_range)"
  by (auto simp: stoi_def Let_def)

lemma stoul_decimal:
  "stoul (decimal n) = (if n < 2 ^ 64 then Inr (of_nat n) else Inl Out_of_range)"
  by (simp add: stoul_def Let_def)

lemma stoul_to_string_u64: "stoul (to_string_u64 w) = Inr w"
  using unsigned_less [of w, where 'a = nat] by (simp add: to_string_u64_def stoul_decimal)

lemma to_string_u64_ne_Nil [simp]: "to_string_u64 w \<noteq> []"
  by (simp add: to_string_u64_def)

lemma to_string_u64_inject [simp]: "to_string_u64 v = to_string_u64 w \<longleftrightarrow> v = w"
  by (simp add: to_string_u64_def word_unat_eq_iff)

end
