(* ===== verification/Wire.thy ===== *)
theory Wire
  imports Prelude
begin

text \<open>
  \<^verbatim>\<open>net/event.hpp\<close> and \<^verbatim>\<open>net/message.hpp\<close>: the structures that travel, the byte images
  \<^verbatim>\<open>memcpy\<close> moves them by, and the message with its two operators. The images are those of
  the platform the build files name (Linux on x86-64): little endian, \<^verbatim>\<open>wchar_t\<close> of four
  bytes, natural alignment.
\<close>

section \<open>Byte images of machine integers\<close>

type_synonym byte = "8 word"

fun nat_bytes :: "nat \<Rightarrow> nat \<Rightarrow> byte list" where
  "nat_bytes 0 x = []"
| "nat_bytes (Suc n) x = of_nat (x mod 256) # nat_bytes n (x div 256)"

fun bytes_nat :: "byte list \<Rightarrow> nat" where
  "bytes_nat [] = 0"
| "bytes_nat (b # bs) = unat b + 256 * bytes_nat bs"

definition u32_bytes :: "32 word \<Rightarrow> byte list" where
  "u32_bytes w = nat_bytes 4 (unat w)"

definition u64_bytes :: "64 word \<Rightarrow> byte list" where
  "u64_bytes w = nat_bytes 8 (unat w)"

definition bytes_u32 :: "byte list \<Rightarrow> 32 word" where
  "bytes_u32 bs = of_nat (bytes_nat (take 4 bs))"

definition bytes_u64 :: "byte list \<Rightarrow> 64 word" where
  "bytes_u64 bs = of_nat (bytes_nat (take 8 bs))"

fun wchars_bytes :: "32 word list \<Rightarrow> byte list" where
  "wchars_bytes [] = []"
| "wchars_bytes (w # ws) = u32_bytes w @ wchars_bytes ws"

fun bytes_wchars :: "nat \<Rightarrow> byte list \<Rightarrow> 32 word list" where
  "bytes_wchars 0 bs = []"
| "bytes_wchars (Suc n) bs = bytes_u32 bs # bytes_wchars n (drop 4 bs)"

lemma length_nat_bytes [simp]: "length (nat_bytes n x) = n"
  by (induction n arbitrary: x) auto

lemma unat_of_nat_byte: "unat (of_nat (x mod 256) :: byte) = x mod 256"
  by (simp add: unat_of_nat)

lemma bytes_nat_bytes: "bytes_nat (nat_bytes n x) = x mod 256 ^ n"
proof (induction n arbitrary: x)
  case (Suc n)
  have "x mod (256 * 256 ^ n) = x mod 256 + 256 * (x div 256 mod 256 ^ n)"
    by (simp add: mod_mult2_eq)
  with Suc show ?case by (simp add: unat_of_nat_byte)
qed simp

lemma length_u32_bytes [simp]: "length (u32_bytes w) = 4"
  by (simp add: u32_bytes_def)

lemma length_u64_bytes [simp]: "length (u64_bytes w) = 8"
  by (simp add: u64_bytes_def)

lemma bytes_u32_bytes [simp]: "bytes_u32 (u32_bytes w @ bs) = w"
proof -
  have "unat w < 256 ^ 4" using unsigned_less [of w, where 'a = nat] by simp
  then show ?thesis by (simp add: bytes_u32_def u32_bytes_def bytes_nat_bytes)
qed

lemma bytes_u64_bytes [simp]: "bytes_u64 (u64_bytes w @ bs) = w"
proof -
  have "unat w < 256 ^ 8" using unsigned_less [of w, where 'a = nat] by simp
  then show ?thesis by (simp add: bytes_u64_def u64_bytes_def bytes_nat_bytes)
qed

lemma length_wchars_bytes [simp]: "length (wchars_bytes ws) = 4 * length ws"
  by (induction ws) auto

lemma bytes_wchars_bytes: "length ws = n \<Longrightarrow> bytes_wchars n (wchars_bytes ws @ bs) = ws"
  by (induction ws arbitrary: n) auto

lemma length_bytes_wchars [simp]: "length (bytes_wchars n bs) = n"
  by (induction n arbitrary: bs) auto

section \<open>Events\<close>

text \<open>
  \<^verbatim>\<open>enum class event_type : uint32_t\<close>. With a fixed underlying type an object read off the
  wire may hold any 32-bit value: \<open>Unlisted\<close> stands for those beyond the enumerators.
\<close>

datatype event_type =
    Ev_accept | Ev_ping | Ev_new_championship | Ev_new_club | Ev_new_season | Ev_new_season_club
  | Ev_new_game | Ev_game_start | Ev_game_ended | Ev_goal_scored | Ev_unknown
  | Unlisted "32 word"

fun event_code :: "event_type \<Rightarrow> 32 word" where
  "event_code Ev_accept = 0"
| "event_code Ev_ping = 1"
| "event_code Ev_new_championship = 2"
| "event_code Ev_new_club = 3"
| "event_code Ev_new_season = 4"
| "event_code Ev_new_season_club = 5"
| "event_code Ev_new_game = 6"
| "event_code Ev_game_start = 7"
| "event_code Ev_game_ended = 8"
| "event_code Ev_goal_scored = 9"
| "event_code Ev_unknown = 10"
| "event_code (Unlisted w) = w"

definition event_of :: "32 word \<Rightarrow> event_type" where
  "event_of w =
     (if w = 0 then Ev_accept else if w = 1 then Ev_ping else if w = 2 then Ev_new_championship
      else if w = 3 then Ev_new_club else if w = 4 then Ev_new_season
      else if w = 5 then Ev_new_season_club else if w = 6 then Ev_new_game
      else if w = 7 then Ev_game_start else if w = 8 then Ev_game_ended
      else if w = 9 then Ev_goal_scored else if w = 10 then Ev_unknown else Unlisted w)"

definition event_ok :: "event_type \<Rightarrow> bool" where
  "event_ok e \<longleftrightarrow> event_of (event_code e) = e"

lemma event_code_of [simp]: "event_code (event_of w) = w"
  by (simp add: event_of_def)

lemma event_ok_of [simp]: "event_ok (event_of w)"
  by (simp add: event_ok_def)

lemma event_of_code: "event_ok e \<Longrightarrow> event_of (event_code e) = e"
  by (simp add: event_ok_def)

lemma event_ok_listed [simp]:
  "event_ok Ev_accept" "event_ok Ev_ping" "event_ok Ev_new_championship" "event_ok Ev_new_club"
  "event_ok Ev_new_season" "event_ok Ev_new_season_club" "event_ok Ev_unknown"
  by (simp_all add: event_ok_def event_of_def)

record response =
  res_id :: "64 word"
  res_success :: bool

record new_championship =
  nch_name :: "32 word list"
  nch_country :: "32 word list"
  nch_type :: event_type

record new_club =
  ncl_name :: "32 word list"
  ncl_country :: "32 word list"
  ncl_type :: event_type

record new_season =
  nse_championship :: "64 word"
  nse_year :: "32 word list"
  nse_type :: event_type

record new_season_club =
  nsc_season :: "64 word"
  nsc_club :: "64 word"
  nsc_type :: event_type

section \<open>Messages\<close>

record message =
  msg_id :: event_type
  msg_size :: "32 word"
  msg_body :: "byte list"

definition message_new :: message where
  "message_new = \<lparr>msg_id = Ev_accept, msg_size = 0, msg_body = []\<rparr>"

text \<open>
  \<^verbatim>\<open>msg << data\<close> appends the image of \<open>data\<close>; \<^verbatim>\<open>msg >> data\<close> takes it from the end. Both
  write the body's length, cut to 32 bits, into the header. The offset \<^verbatim>\<open>body.size() -
  sizeof(Data)\<close> of a body that is too short wraps around, and \<^verbatim>\<open>memcpy\<close> reads from an address
  outside the vector.
\<close>

definition set_body :: "byte list \<Rightarrow> message \<Rightarrow> message" where
  "set_body bs m = m\<lparr>msg_body := bs, msg_size := of_nat (length bs)\<rparr>"

definition push_data :: "('d \<Rightarrow> byte list) \<Rightarrow> 'd \<Rightarrow> message \<Rightarrow> message" where
  "push_data enc d m = set_body (msg_body m @ enc d) m"

definition pull_data :: "nat \<Rightarrow> (byte list \<Rightarrow> 'd) \<Rightarrow> message \<Rightarrow> fault + 'd \<times> message" where
  "pull_data size_of dec m =
     (let n = length (msg_body m) in
      if n < size_of then Inl (Undefined_behaviour ''read past the message body'')
      else Inr (dec (drop (n - size_of) (msg_body m)), set_body (take (n - size_of) (msg_body m)) m))"

text \<open>A structure with a byte image: \<^verbatim>\<open>sizeof\<close>, writing, reading, and the values a field can hold.\<close>

locale wire_data =
  fixes size_of :: nat
    and enc :: "'d \<Rightarrow> byte list"
    and dec :: "byte list \<Rightarrow> 'd"
    and ok :: "'d \<Rightarrow> bool"
  assumes enc_size: "ok d \<Longrightarrow> length (enc d) = size_of"
    and dec_enc: "ok d \<Longrightarrow> dec (enc d) = d"
    and dec_ok: "length bs = size_of \<Longrightarrow> ok (dec bs)"
begin

lemma pull_push:
  assumes "ok d" and "msg_size m = of_nat (length (msg_body m))"
  shows "pull_data size_of dec (push_data enc d m) = Inr (d, m)"
  using assms by (simp add: pull_data_def push_data_def set_body_def enc_size dec_enc)

lemma pull_pushed:
  assumes "ok d"
  shows "pull_data size_of dec (push_data enc d m) = Inr (d, set_body (msg_body m) m)"
  using assms by (simp add: pull_data_def push_data_def set_body_def enc_size dec_enc)

lemma pull_short:
  "length (msg_body m) < size_of \<longleftrightarrow> (\<exists>w. pull_data size_of dec m = Inl w)"
  by (simp add: pull_data_def Let_def)

lemma pull_ok:
  assumes "pull_data size_of dec m = Inr (d, m')"
  shows "ok d" and "length (msg_body m) = length (msg_body m') + size_of"
    and "msg_id m' = msg_id m"
  using assms by (auto simp: pull_data_def Let_def set_body_def intro!: dec_ok split: if_splits)

lemma push_body: "ok d \<Longrightarrow> length (msg_body (push_data enc d m)) = length (msg_body m) + size_of"
  by (simp add: push_data_def set_body_def enc_size)

end

text \<open>The header agrees with the body: what both operators leave, below four gigabytes.\<close>

definition msg_ok :: "message \<Rightarrow> bool" where
  "msg_ok m \<longleftrightarrow> unat (msg_size m) = length (msg_body m) \<and> event_ok (msg_id m)"

lemma msg_ok_size: "msg_ok m \<Longrightarrow> msg_size m = of_nat (length (msg_body m))"
proof -
  assume "msg_ok m"
  then have "of_nat (unat (msg_size m)) = (of_nat (length (msg_body m)) :: 32 word)"
    by (simp add: msg_ok_def)
  then show ?thesis by simp
qed

lemma msg_ok_set_body:
  "event_ok (msg_id m) \<Longrightarrow> length bs < 2 ^ 32 \<Longrightarrow> msg_ok (set_body bs m)"
  by (simp add: msg_ok_def set_body_def unat_of_nat)

lemma msg_ok_new [simp]: "msg_ok message_new"
  by (simp add: msg_ok_def message_new_def)

section \<open>The structures of the protocol\<close>

text \<open>
  Padding bytes are written as zeros and ignored when read (\<^verbatim>\<open>memcpy\<close> copies whatever they
  hold). A \<^verbatim>\<open>bool\<close> is one byte; a byte other than 0 reads as true.
\<close>

definition response_size :: nat where "response_size = 16"

definition enc_response :: "response \<Rightarrow> byte list" where
  "enc_response r = u64_bytes (res_id r) @ (if res_success r then 1 else 0) # replicate 7 0"

definition dec_response :: "byte list \<Rightarrow> response" where
  "dec_response bs = \<lparr>res_id = bytes_u64 bs, res_success = (bs ! 8 \<noteq> 0)\<rparr>"

definition new_championship_size :: nat where "new_championship_size = 412"

definition enc_new_championship :: "new_championship \<Rightarrow> byte list" where
  "enc_new_championship c =
     wchars_bytes (nch_name c) @ wchars_bytes (nch_country c) @ u32_bytes (event_code (nch_type c))"

definition dec_new_championship :: "byte list \<Rightarrow> new_championship" where
  "dec_new_championship bs =
     \<lparr>nch_name = bytes_wchars 100 bs, nch_country = bytes_wchars 2 (drop 400 bs),
      nch_type = event_of (bytes_u32 (drop 408 bs))\<rparr>"

definition new_championship_ok :: "new_championship \<Rightarrow> bool" where
  "new_championship_ok c \<longleftrightarrow>
     length (nch_name c) = 100 \<and> length (nch_country c) = 2 \<and> event_ok (nch_type c)"

definition new_club_size :: nat where "new_club_size = 412"

definition enc_new_club :: "new_club \<Rightarrow> byte list" where
  "enc_new_club c =
     wchars_bytes (ncl_name c) @ wchars_bytes (ncl_country c) @ u32_bytes (event_code (ncl_type c))"

definition dec_new_club :: "byte list \<Rightarrow> new_club" where
  "dec_new_club bs =
     \<lparr>ncl_name = bytes_wchars 100 bs, ncl_country = bytes_wchars 2 (drop 400 bs),
      ncl_type = event_of (bytes_u32 (drop 408 bs))\<rparr>"

definition new_club_ok :: "new_club \<Rightarrow> bool" where
  "new_club_ok c \<longleftrightarrow>
     length (ncl_name c) = 100 \<and> length (ncl_country c) = 2 \<and> event_ok (ncl_type c)"

definition new_season_size :: nat where "new_season_size = 56"

definition enc_new_season :: "new_season \<Rightarrow> byte list" where
  "enc_new_season s =
     u64_bytes (nse_championship s) @ wchars_bytes (nse_year s)
     @ u32_bytes (event_code (nse_type s)) @ replicate 4 0"

definition dec_new_season :: "byte list \<Rightarrow> new_season" where
  "dec_new_season bs =
     \<lparr>nse_championship = bytes_u64 bs, nse_year = bytes_wchars 10 (drop 8 bs),
      nse_type = event_of (bytes_u32 (drop 48 bs))\<rparr>"

definition new_season_ok :: "new_season \<Rightarrow> bool" where
  "new_season_ok s \<longleftrightarrow> length (nse_year s) = 10 \<and> event_ok (nse_type s)"

definition new_season_club_size :: nat where "new_season_club_size = 24"

definition enc_new_season_club :: "new_season_club \<Rightarrow> byte list" where
  "enc_new_season_club s =
     u64_bytes (nsc_season s) @ u64_bytes (nsc_club s)
     @ u32_bytes (event_code (nsc_type s)) @ replicate 4 0"

definition dec_new_season_club :: "byte list \<Rightarrow> new_season_club" where
  "dec_new_season_club bs =
     \<lparr>nsc_season = bytes_u64 bs, nsc_club = bytes_u64 (drop 8 bs),
      nsc_type = event_of (bytes_u32 (drop 16 bs))\<rparr>"

definition new_season_club_ok :: "new_season_club \<Rightarrow> bool" where
  "new_season_club_ok s \<longleftrightarrow> event_ok (nsc_type s)"

lemmas wire_sizes =
  response_size_def new_championship_size_def new_club_size_def new_season_size_def
  new_season_club_size_def

lemma bytes_u32_bytes' [simp]: "bytes_u32 (u32_bytes w) = w"
  using bytes_u32_bytes [of w "[]"] by simp

lemma bytes_u64_bytes' [simp]: "bytes_u64 (u64_bytes w) = w"
  using bytes_u64_bytes [of w "[]"] by simp

interpretation response_wire: wire_data response_size enc_response dec_response "\<lambda>_. True"
  by unfold_locales
    (simp_all add: wire_sizes enc_response_def dec_response_def nth_append)

interpretation new_championship_wire:
  wire_data new_championship_size enc_new_championship dec_new_championship new_championship_ok
  by unfold_locales
    (auto simp: wire_sizes enc_new_championship_def dec_new_championship_def new_championship_ok_def
      bytes_wchars_bytes event_of_code)

interpretation new_club_wire: wire_data new_club_size enc_new_club dec_new_club new_club_ok
  by unfold_locales
    (auto simp: wire_sizes enc_new_club_def dec_new_club_def new_club_ok_def
      bytes_wchars_bytes event_of_code)

interpretation new_season_wire: wire_data new_season_size enc_new_season dec_new_season new_season_ok
  by unfold_locales
    (auto simp: wire_sizes enc_new_season_def dec_new_season_def new_season_ok_def
      bytes_wchars_bytes event_of_code)

interpretation new_season_club_wire:
  wire_data new_season_club_size enc_new_season_club dec_new_season_club new_season_club_ok
  by unfold_locales
    (auto simp: wire_sizes enc_new_season_club_def dec_new_season_club_def new_season_club_ok_def
      event_of_code)

section \<open>Text in wide characters\<close>

text \<open>
  A \<^verbatim>\<open>char\<close> copied into a \<^verbatim>\<open>wchar_t\<close> is sign-extended; a \<^verbatim>\<open>wchar_t\<close> copied into a \<^verbatim>\<open>char\<close>
  keeps its low eight bits. \<open>until_nul\<close> is the range up to \<^verbatim>\<open>std::find(begin, end, '\0')\<close>.
\<close>

definition widen :: "char \<Rightarrow> 32 word" where
  "widen c = (let n = (of_char c :: nat) in if n < 128 then of_nat n else of_nat n - 256)"

definition narrow :: "32 word \<Rightarrow> char" where
  "narrow w = char_of (unat w mod 256)"

definition until_nul :: "32 word list \<Rightarrow> 32 word list" where
  "until_nul ws = takeWhile (\<lambda>w. w \<noteq> 0) ws"

definition wide_text :: "32 word list \<Rightarrow> string" where
  "wide_text ws = map narrow (until_nul ws)"

lemma widen_nat:
  "widen c = of_nat (if (of_char c :: nat) < 128 then of_char c else of_char c + (2 ^ 32 - 256))"
proof (cases "(of_char c :: nat) < 128")
  case True
  then show ?thesis by (simp add: widen_def Let_def)
next
  case False
  have "(of_nat (2 ^ 32 - 256) :: 32 word) = - 256" by simp
  with False show ?thesis by (simp add: widen_def Let_def)
qed

lemma unat_widen:
  "unat (widen c) = (if (of_char c :: nat) < 128 then of_char c else of_char c + (2 ^ 32 - 256))"
proof -
  have "(of_char c :: nat) < 256" by simp
  then show ?thesis by (simp add: widen_nat unat_of_nat)
qed

lemma narrow_widen [simp]: "narrow (widen c) = c"
proof -
  have "(of_char c :: nat) < 256" by simp
  moreover have "(n + (2 ^ 32 - 256)) mod 256 = n mod 256" for n :: nat
  proof -
    have "(2 ^ 32 - 256 :: nat) = 256 * 16777215" by simp
    then show ?thesis by (simp only: mod_mult_self2)
  qed
  ultimately have "unat (widen c) mod 256 = of_char c" unfolding unat_widen by (auto simp only: mod_less split: if_splits)
  then show ?thesis by (simp add: narrow_def)
qed

lemma widen_zero: "widen c = 0 \<longleftrightarrow> c = CHR 0x00"
proof
  assume "widen c = 0"
  then have "narrow (widen c) = narrow 0" by simp
  then show "c = CHR 0x00" unfolding narrow_widen by (simp add: narrow_def char_of_def)
qed (simp add: widen_def)

text \<open>A text without NUL, padded with NULs to the size of its array, comes back whole.\<close>

lemma wide_text_length: "length (wide_text ws) \<le> length ws"
  by (simp add: wide_text_def until_nul_def length_takeWhile_le)

lemma wide_text_widen:
  assumes "CHR 0x00 \<notin> set s"
  shows "wide_text (map widen s @ replicate n 0) = s"
proof -
  have "until_nul (map widen s @ replicate n 0) = map widen s"
    using assms by (auto simp: until_nul_def takeWhile_append takeWhile_map widen_zero o_def
        takeWhile_eq_all_conv)
  then show ?thesis by (simp add: wide_text_def o_def)
qed

lemma wide_text_full:
  assumes "CHR 0x00 \<notin> set s"
  shows "wide_text (map widen s) = s"
  using wide_text_widen [OF assms, of 0] by simp

section \<open>Properties\<close>

text \<open>
  C26: What \<^verbatim>\<open><<\<close> appends to a message \<^verbatim>\<open>>>\<close> takes back: the value and the message as it was,
  for every structure of the protocol.
\<close>

theorem protocol_roundtrip:
  assumes "msg_size m = of_nat (length (msg_body m))"
    and "new_championship_ok c" and "new_club_ok l" and "new_season_ok s" and "new_season_club_ok t"
  shows "pull_data response_size dec_response (push_data enc_response r m) = Inr (r, m)
    \<and> pull_data new_championship_size dec_new_championship (push_data enc_new_championship c m) = Inr (c, m)
    \<and> pull_data new_club_size dec_new_club (push_data enc_new_club l m) = Inr (l, m)
    \<and> pull_data new_season_size dec_new_season (push_data enc_new_season s m) = Inr (s, m)
    \<and> pull_data new_season_club_size dec_new_season_club (push_data enc_new_season_club t m) = Inr (t, m)"
  using assms response_wire.pull_push new_championship_wire.pull_push new_club_wire.pull_push
    new_season_wire.pull_push new_season_club_wire.pull_push
  by blast

definition sample_championship :: new_championship where
  "sample_championship = \<lparr>nch_name = map widen ''Paulista'' @ replicate 92 0,
     nch_country = map widen ''BR'', nch_type = Ev_new_championship\<rparr>"

theorem protocol_roundtrip_witness:
  "pull_data new_championship_size dec_new_championship
     (push_data enc_new_championship sample_championship message_new) = Inr (sample_championship, message_new)"
  using protocol_roundtrip [of message_new sample_championship
      "\<lparr>ncl_name = replicate 100 0, ncl_country = [0, 0], ncl_type = Ev_new_club\<rparr>"
      "\<lparr>nse_championship = 1, nse_year = replicate 10 0, nse_type = Ev_new_season\<rparr>"
      "\<lparr>nsc_season = 1, nsc_club = 2, nsc_type = Ev_new_season_club\<rparr>"]
  by (simp add: message_new_def sample_championship_def new_championship_ok_def new_club_ok_def
      new_season_ok_def new_season_club_ok_def)

text \<open>
  \<^verbatim>\<open>>>\<close> has no guard: reading is undefined exactly when the body is shorter than the
  structure, a length the sender of the message chooses; otherwise it takes precisely the
  structure's bytes and keeps the header's size in step with the body.
\<close>

theorem pull_needs_body:
  "(length (msg_body m) < size_of \<longleftrightarrow> (\<exists>w. pull_data size_of dec m = Inl (Undefined_behaviour w)))
   \<and> (pull_data size_of dec m = Inr (d, m') \<longrightarrow>
        length (msg_body m) = length (msg_body m') + size_of
        \<and> msg_size m' = of_nat (length (msg_body m')) \<and> msg_id m' = msg_id m
        \<and> d = dec (drop (length (msg_body m')) (msg_body m)))"
  by (auto simp: pull_data_def Let_def set_body_def min_def)

theorem pull_needs_body_witness:
  "(\<exists>w. pull_data response_size dec_response message_new = Inl (Undefined_behaviour w))
   \<and> msg_size (snd (response_size, message_new)) = 0"
  using pull_needs_body [of message_new response_size dec_response]
  by (simp add: response_size_def message_new_def)

text \<open>
  A name of at most 100 characters, none of them NUL, written into the request's array of
  wide characters is read back whole by the server, also when it fills the array and when it
  holds bytes above 127.
\<close>

theorem name_roundtrip:
  assumes "CHR 0x00 \<notin> set s" and "length s \<le> n"
  shows "wide_text (map widen s @ replicate (n - length s) 0) = s"
  using wide_text_widen [OF assms(1)] .

theorem name_roundtrip_witness:
  "wide_text (map widen [CHR ''S'', CHR 0xC3, CHR 0xA3, CHR ''o''] @ replicate 96 0)
     = [CHR ''S'', CHR 0xC3, CHR 0xA3, CHR ''o'']"
  using name_roundtrip [of "[CHR ''S'', CHR 0xC3, CHR 0xA3, CHR ''o'']" 100] by simp

end
