(* ===== verification/Tsqueue.thy ===== *)
theory Tsqueue
  imports Prelude
begin

text \<open>
  \<^verbatim>\<open>net/tsqueue.hpp\<close>: the queue between the network thread and the thread that handles
  messages. First its operations, each a critical section of \<^verbatim>\<open>queue_mutex\<close> and so a step of
  its own on the deque; then the interface the other components use it by; then
  \<^verbatim>\<open>wait()\<close> against a concurrent \<^verbatim>\<open>push_back\<close>, down to the single lock operations.
\<close>

section \<open>Operations\<close>

record 'x tsqueue =
  ts_queue :: "'x list"

definition ts_new :: "'x tsqueue" where
  "ts_new = \<lparr>ts_queue = []\<rparr>"

definition ts_front :: "'x tsqueue \<Rightarrow> fault + 'x" where
  "ts_front q = (case ts_queue q of [] \<Rightarrow> Inl (Undefined_behaviour ''front of an empty queue'')
    | x # _ \<Rightarrow> Inr x)"

definition ts_back :: "'x tsqueue \<Rightarrow> fault + 'x" where
  "ts_back q = (if ts_queue q = [] then Inl (Undefined_behaviour ''back of an empty queue'')
    else Inr (last (ts_queue q)))"

definition ts_pop_front :: "'x tsqueue \<Rightarrow> fault + 'x \<times> 'x tsqueue" where
  "ts_pop_front q = (case ts_queue q of [] \<Rightarrow> Inl (Undefined_behaviour ''front of an empty queue'')
    | x # xs \<Rightarrow> Inr (x, q\<lparr>ts_queue := xs\<rparr>))"

definition ts_pop_back :: "'x tsqueue \<Rightarrow> fault + 'x \<times> 'x tsqueue" where
  "ts_pop_back q = (if ts_queue q = [] then Inl (Undefined_behaviour ''back of an empty queue'')
    else Inr (last (ts_queue q), q\<lparr>ts_queue := butlast (ts_queue q)\<rparr>))"

definition ts_push_back :: "'x \<Rightarrow> 'x tsqueue \<Rightarrow> 'x tsqueue" where
  "ts_push_back x q = q\<lparr>ts_queue := ts_queue q @ [x]\<rparr>"

definition ts_push_front :: "'x \<Rightarrow> 'x tsqueue \<Rightarrow> 'x tsqueue" where
  "ts_push_front x q = q\<lparr>ts_queue := x # ts_queue q\<rparr>"

definition ts_empty :: "'x tsqueue \<Rightarrow> bool" where
  "ts_empty q \<longleftrightarrow> ts_queue q = []"

definition ts_count :: "'x tsqueue \<Rightarrow> nat" where
  "ts_count q = length (ts_queue q)"

definition ts_clear :: "'x tsqueue \<Rightarrow> 'x tsqueue" where
  "ts_clear q = q\<lparr>ts_queue := []\<rparr>"

section \<open>The queue its clients see\<close>

text \<open>
  The loop both ends of the connection drain a queue with: while the counter is below the
  bound and the queue is not empty, take the front and handle it. \<open>n\<close> is how far the counter
  may still go; a handler that throws ends the loop with the rest still queued.
\<close>

fun drain ::
    "('q \<Rightarrow> fault + 'x \<times> 'q) \<Rightarrow> ('q \<Rightarrow> bool) \<Rightarrow> ('x \<Rightarrow> ('w, unit) prog) \<Rightarrow> nat \<Rightarrow> ('q \<times> 'w, unit) prog" where
  "drain pop emp handle 0 (q, w) = (Inr (), (q, w))"
| "drain pop emp handle (Suc n) (q, w) =
     (if emp q then (Inr (), (q, w))
      else case pop q of
        Inl e \<Rightarrow> (Inl e, (q, w))
      | Inr (x, q') \<Rightarrow>
          (case handle x w of
             (Inl e, w') \<Rightarrow> (Inl e, (q', w'))
           | (Inr _, w') \<Rightarrow> drain pop emp handle n (q', w')))"

text \<open>What handling a list of items in order does, and which items are left when one throws.\<close>

fun handle_list :: "('x \<Rightarrow> ('w, unit) prog) \<Rightarrow> 'x list \<Rightarrow> 'w \<Rightarrow> (fault + unit) \<times> 'x list \<times> 'w" where
  "handle_list handle [] w = (Inr (), [], w)"
| "handle_list handle (x # xs) w = (case handle x w of
      (Inl e, w') \<Rightarrow> (Inl e, xs, w')
    | (Inr _, w') \<Rightarrow> handle_list handle xs w')"

locale fifo =
  fixes q_push :: "'x \<Rightarrow> 'q \<Rightarrow> 'q"
    and q_pop :: "'q \<Rightarrow> fault + 'x \<times> 'q"
    and q_empty :: "'q \<Rightarrow> bool"
    and q_list :: "'q \<Rightarrow> 'x list"
  assumes list_push: "q_list (q_push x q) = q_list q @ [x]"
    and empty_iff: "q_empty q \<longleftrightarrow> q_list q = []"
    and pop_cons: "q_list q = x # xs \<Longrightarrow> \<exists>q'. q_pop q = Inr (x, q') \<and> q_list q' = xs"
    and pop_nil: "q_list q = [] \<Longrightarrow> \<exists>w. q_pop q = Inl (Undefined_behaviour w)"
begin

lemma pop_defined: "\<not> q_empty q \<longleftrightarrow> (\<exists>x q'. q_pop q = Inr (x, q'))"
proof (cases "q_list q")
  case Nil
  then show ?thesis using pop_nil [of q] by (auto simp: empty_iff)
next
  case (Cons x xs)
  then show ?thesis using pop_cons [of q x xs] by (auto simp: empty_iff)
qed

lemma pop_after_push:
  assumes "q_empty q"
  shows "\<exists>q'. q_pop (q_push x q) = Inr (x, q') \<and> q_empty q'"
  using assms pop_cons [of "q_push x q" x "[]"] by (auto simp: list_push empty_iff)

lemma list_pushes: "q_list (fold q_push xs q) = q_list q @ xs"
  by (induction xs arbitrary: q) (simp_all add: list_push)

text \<open>Draining handles exactly the first items, in the order they were pushed.\<close>

lemma drain_handles:
  "\<exists>q'. drain q_pop q_empty handle n (q, w) =
      (case handle_list handle (take n (q_list q)) w of (r, rest, w') \<Rightarrow> (r, (q', w')))
    \<and> (case handle_list handle (take n (q_list q)) w of
         (r, rest, w') \<Rightarrow> q_list q' = rest @ drop n (q_list q))"
proof (induction n arbitrary: q w)
  case 0
  show ?case by (rule exI [of _ q]) simp
next
  case (Suc n)
  show ?case
  proof (cases "q_list q")
    case Nil
    then show ?thesis by (intro exI [of _ q]) (simp add: empty_iff)
  next
    case (Cons x xs)
    then obtain q1 where q1: "q_pop q = Inr (x, q1)" "q_list q1 = xs"
      using pop_cons by blast
    obtain r w1 where h: "handle x w = (r, w1)" by (cases "handle x w")
    show ?thesis
    proof (cases r)
      case (Inl e)
      with q1 h Cons show ?thesis by (intro exI [of _ q1]) (simp add: empty_iff)
    next
      case (Inr u)
      with q1 h Cons Suc.IH [of q1 w1] show ?thesis by (simp add: empty_iff)
    qed
  qed
qed

end

interpretation tsq: fifo ts_push_back ts_pop_front ts_empty ts_queue
  by unfold_locales (auto simp: ts_push_back_def ts_pop_front_def ts_empty_def)

section \<open>Waiting for an item\<close>

text \<open>
  \<^verbatim>\<open>wait()\<close> in one thread and \<^verbatim>\<open>push_back\<close> in another, one step per lock operation.
  The consumer: \<^verbatim>\<open>empty()\<close> takes \<open>queue_mutex\<close>, reads, releases; if empty, the consumer takes
  \<open>blocking_mutex\<close>, and \<^verbatim>\<open>cv_wait.wait\<close> releases it and blocks in one step; a notified
  consumer takes \<open>blocking_mutex\<close> again, leaves the loop body (releasing it) and checks
  again. The producer: takes \<open>queue_mutex\<close>, inserts, takes \<open>blocking_mutex\<close>, notifies, and
  releases both. The standard lets a waiting thread wake up without a notification; that
  step carries its own label.
\<close>

datatype agent = Consumer | Producer

datatype consumer_pc =
    C_check | C_reading | C_decided bool | C_holding | C_waiting | C_notified | C_awake | C_done

datatype producer_pc = P_idle | P_locked | P_inserted | P_both | P_notified | P_releasing

datatype wait_label = Cons_step | Prod_step | Spurious

record wait_sys =
  w_items :: nat
  w_queue_mutex :: "agent option"
  w_blocking_mutex :: "agent option"
  w_consumer :: consumer_pc
  w_producer :: producer_pc
  w_pushes :: nat

definition wait_init :: "nat \<Rightarrow> wait_sys" where
  "wait_init pushes = \<lparr>w_items = 0, w_queue_mutex = None, w_blocking_mutex = None,
     w_consumer = C_check, w_producer = P_idle, w_pushes = pushes\<rparr>"

inductive wait_step :: "wait_sys \<Rightarrow> wait_label \<Rightarrow> wait_sys \<Rightarrow> bool" where
  c_lock: "w_consumer s = C_check \<Longrightarrow> w_queue_mutex s = None \<Longrightarrow>
     wait_step s Cons_step (s\<lparr>w_consumer := C_reading, w_queue_mutex := Some Consumer\<rparr>)"
| c_read: "w_consumer s = C_reading \<Longrightarrow>
     wait_step s Cons_step (s\<lparr>w_consumer := C_decided (w_items s = 0), w_queue_mutex := None\<rparr>)"
| c_leave: "w_consumer s = C_decided False \<Longrightarrow> wait_step s Cons_step (s\<lparr>w_consumer := C_done\<rparr>)"
| c_block: "w_consumer s = C_decided True \<Longrightarrow> w_blocking_mutex s = None \<Longrightarrow>
     wait_step s Cons_step (s\<lparr>w_consumer := C_holding, w_blocking_mutex := Some Consumer\<rparr>)"
| c_wait: "w_consumer s = C_holding \<Longrightarrow>
     wait_step s Cons_step (s\<lparr>w_consumer := C_waiting, w_blocking_mutex := None\<rparr>)"
| c_relock: "w_consumer s = C_notified \<Longrightarrow> w_blocking_mutex s = None \<Longrightarrow>
     wait_step s Cons_step (s\<lparr>w_consumer := C_awake, w_blocking_mutex := Some Consumer\<rparr>)"
| c_again: "w_consumer s = C_awake \<Longrightarrow>
     wait_step s Cons_step (s\<lparr>w_consumer := C_check, w_blocking_mutex := None\<rparr>)"
| c_spurious: "w_consumer s = C_waiting \<Longrightarrow> wait_step s Spurious (s\<lparr>w_consumer := C_notified\<rparr>)"
| p_lock: "w_producer s = P_idle \<Longrightarrow> w_pushes s = Suc n \<Longrightarrow> w_queue_mutex s = None \<Longrightarrow>
     wait_step s Prod_step (s\<lparr>w_producer := P_locked, w_pushes := n, w_queue_mutex := Some Producer\<rparr>)"
| p_insert: "w_producer s = P_locked \<Longrightarrow>
     wait_step s Prod_step (s\<lparr>w_producer := P_inserted, w_items := Suc (w_items s)\<rparr>)"
| p_block: "w_producer s = P_inserted \<Longrightarrow> w_blocking_mutex s = None \<Longrightarrow>
     wait_step s Prod_step (s\<lparr>w_producer := P_both, w_blocking_mutex := Some Producer\<rparr>)"
| p_notify: "w_producer s = P_both \<Longrightarrow>
     wait_step s Prod_step (s\<lparr>w_producer := P_notified,
       w_consumer := (if w_consumer s = C_waiting then C_notified else w_consumer s)\<rparr>)"
| p_unblock: "w_producer s = P_notified \<Longrightarrow>
     wait_step s Prod_step (s\<lparr>w_producer := P_releasing, w_blocking_mutex := None\<rparr>)"
| p_unlock: "w_producer s = P_releasing \<Longrightarrow>
     wait_step s Prod_step (s\<lparr>w_producer := P_idle, w_queue_mutex := None\<rparr>)"

inductive wait_reachable :: "nat \<Rightarrow> wait_sys \<Rightarrow> bool" for pushes where
  wait_start: "wait_reachable pushes (wait_init pushes)"
| wait_more: "wait_reachable pushes s \<Longrightarrow> wait_step s l t \<Longrightarrow> wait_reachable pushes t"

text \<open>
  The invariant ties each mutex to the program counters that hold it, keeps the two mutexes
  of the producer in one order, and says that a consumer that has seen an item is right.
\<close>

definition wait_inv :: "wait_sys \<Rightarrow> bool" where
  "wait_inv s \<longleftrightarrow>
     (w_queue_mutex s = Some Consumer \<longleftrightarrow> w_consumer s = C_reading)
     \<and> (w_queue_mutex s = Some Producer \<longleftrightarrow> w_producer s \<noteq> P_idle)
     \<and> (w_blocking_mutex s = Some Consumer \<longleftrightarrow> w_consumer s = C_holding \<or> w_consumer s = C_awake)
     \<and> (w_blocking_mutex s = Some Producer \<longleftrightarrow> w_producer s = P_both \<or> w_producer s = P_notified)
     \<and> (w_consumer s = C_done \<or> w_consumer s = C_decided False \<longrightarrow> 0 < w_items s)"

lemma wait_inv_init: "wait_inv (wait_init pushes)"
  by (simp add: wait_inv_def wait_init_def)

lemma wait_step_inv: "wait_step s l t \<Longrightarrow> wait_inv s \<Longrightarrow> wait_inv t"
  by (induction rule: wait_step.induct) (auto simp: wait_inv_def)

lemma wait_reachable_inv: "wait_reachable pushes s \<Longrightarrow> wait_inv s"
  by (induction rule: wait_reachable.induct) (auto intro: wait_inv_init wait_step_inv)

lemma wait_reachable_consI:
  "wait_reachable pushes s \<Longrightarrow> wait_step s l t \<Longrightarrow> t = u \<Longrightarrow> wait_reachable pushes u"
  using wait_more by blast

text \<open>Unless the consumer sleeps and the producer is done, some thread can take a step.\<close>

lemma wait_can_step:
  assumes inv: "wait_inv s" and "w_consumer s \<noteq> C_done"
    and "\<not> (w_consumer s = C_waiting \<and> w_producer s = P_idle \<and> w_pushes s = 0)"
  shows "\<exists>l t. l \<noteq> Spurious \<and> wait_step s l t"
proof (cases "w_producer s")
  case P_idle
  then have free: "w_queue_mutex s \<noteq> Some Producer" "w_blocking_mutex s \<noteq> Some Producer"
    using inv by (simp_all add: wait_inv_def)
  show ?thesis
  proof (cases "w_consumer s")
    case C_check
    with inv free have "w_queue_mutex s = None"
      by (cases "w_queue_mutex s"; cases "the (w_queue_mutex s)") (auto simp: wait_inv_def)
    with C_check show ?thesis using c_lock by blast
  next
    case C_waiting
    with assms(3) P_idle obtain n where "w_pushes s = Suc n" by (cases "w_pushes s") auto
    moreover from inv free C_waiting have "w_queue_mutex s = None"
      by (cases "w_queue_mutex s"; cases "the (w_queue_mutex s)") (auto simp: wait_inv_def)
    ultimately show ?thesis using P_idle p_lock by blast
  next
    case (C_decided b)
    from inv free C_decided have "w_blocking_mutex s = None"
      by (cases "w_blocking_mutex s"; cases "the (w_blocking_mutex s)") (auto simp: wait_inv_def)
    with C_decided have "\<exists>t. wait_step s Cons_step t"
      using c_leave [of s] c_block [of s] by (cases b) auto
    then show ?thesis by blast
  next
    case C_notified
    with inv free have "w_blocking_mutex s = None"
      by (cases "w_blocking_mutex s"; cases "the (w_blocking_mutex s)") (auto simp: wait_inv_def)
    with C_notified show ?thesis using c_relock by blast
  qed (use assms(2) c_read c_wait c_again in blast)+
next
  case P_inserted
  show ?thesis
  proof (cases "w_blocking_mutex s")
    case None
    with P_inserted show ?thesis using p_block by blast
  next
    case (Some a)
    with inv P_inserted have "w_consumer s = C_holding \<or> w_consumer s = C_awake"
      by (cases a) (auto simp: wait_inv_def)
    then show ?thesis using c_wait c_again by blast
  qed
qed (use p_insert p_notify p_unblock p_unlock in blast)+

text \<open>
  The run that loses the wakeup: the consumer has seen the queue empty when the producer inserts
  and notifies, and only then goes to sleep.
\<close>

lemma lost_wakeup_run:
  "wait_reachable 1 ((wait_init 1)\<lparr>w_items := 1, w_consumer := C_waiting, w_pushes := 0\<rparr>)"
proof -
  let ?at = "\<lambda>i q b c p n. \<lparr>w_items = i, w_queue_mutex = q, w_blocking_mutex = b, w_consumer = c,
    w_producer = p, w_pushes = n\<rparr> :: wait_sys"
  have "wait_reachable 1 (?at 0 None None C_check P_idle 1)"
    using wait_start [of 1] by (simp add: wait_init_def)
  note r = this
  have r: "wait_reachable 1 (?at 0 (Some Consumer) None C_reading P_idle 1)"
    by (rule wait_reachable_consI [OF r c_lock]) simp_all
  have r: "wait_reachable 1 (?at 0 None None (C_decided True) P_idle 1)"
    by (rule wait_reachable_consI [OF r c_read]) simp_all
  have r: "wait_reachable 1 (?at 0 (Some Producer) None (C_decided True) P_locked 0)"
    by (rule wait_reachable_consI [OF r p_lock [where n = 0]]) simp_all
  have r: "wait_reachable 1 (?at 1 (Some Producer) None (C_decided True) P_inserted 0)"
    by (rule wait_reachable_consI [OF r p_insert]) simp_all
  have r: "wait_reachable 1 (?at 1 (Some Producer) (Some Producer) (C_decided True) P_both 0)"
    by (rule wait_reachable_consI [OF r p_block]) simp_all
  have r: "wait_reachable 1 (?at 1 (Some Producer) (Some Producer) (C_decided True) P_notified 0)"
    by (rule wait_reachable_consI [OF r p_notify]) simp_all
  have r: "wait_reachable 1 (?at 1 (Some Producer) None (C_decided True) P_releasing 0)"
    by (rule wait_reachable_consI [OF r p_unblock]) simp_all
  have r: "wait_reachable 1 (?at 1 None None (C_decided True) P_idle 0)"
    by (rule wait_reachable_consI [OF r p_unlock]) simp_all
  have r: "wait_reachable 1 (?at 1 None (Some Consumer) C_holding P_idle 0)"
    by (rule wait_reachable_consI [OF r c_block]) simp_all
  have "wait_reachable 1 (?at 1 None None C_waiting P_idle 0)"
    by (rule wait_reachable_consI [OF r c_wait]) simp_all
  then show ?thesis by (simp add: wait_init_def)
qed

section \<open>Properties\<close>

text \<open>
  Draining the queue handles its first items, at most as many as the bound, in the order in
  which they were pushed, and leaves the others; a handler that throws stops it after the item
  it was given.
\<close>

theorem drain_fifo:
  "\<exists>q'. drain ts_pop_front ts_empty handle n (fold ts_push_back xs ts_new, w) =
      (case handle_list handle (take n xs) w of (r, rest, w') \<Rightarrow> (r, (q', w')))
    \<and> (case handle_list handle (take n xs) w of (r, rest, w') \<Rightarrow> ts_queue q' = rest @ drop n xs)"
  using tsq.drain_handles [of handle n "fold ts_push_back xs ts_new" w] tsq.list_pushes [of xs ts_new]
  by (simp add: ts_new_def)

text \<open>
  C14: \<^verbatim>\<open>wait()\<close> returns only when the queue holds an item, and short of that the two threads
  always go on, with one exception: the consumer asleep and the producer done. (The two mutexes
  of \<^verbatim>\<open>push_back\<close> and the one of \<^verbatim>\<open>wait\<close> never deadlock.)
\<close>

theorem wait_safe:
  assumes "wait_reachable pushes s"
  shows "(w_consumer s = C_done \<longrightarrow> 0 < w_items s)
    \<and> (w_consumer s = C_done
       \<or> (w_consumer s = C_waiting \<and> w_producer s = P_idle \<and> w_pushes s = 0)
       \<or> (\<exists>l t. l \<noteq> Spurious \<and> wait_step s l t))"
proof -
  have inv: "wait_inv s" using assms by (rule wait_reachable_inv)
  then have "w_consumer s = C_done \<longrightarrow> 0 < w_items s" by (simp add: wait_inv_def)
  then show ?thesis using wait_can_step [OF inv] by blast
qed

theorem wait_safe_witness: "\<exists>l t. l \<noteq> Spurious \<and> wait_step (wait_init 1) l t"
  using wait_safe [OF wait_start, of 1] by (simp add: wait_init_def)

text \<open>
  C15: The lost wakeup: there is a run in which the item has been pushed and notified, the
  producer is done, and the consumer sleeps, with nothing left that wakes it but a spurious
  wakeup. (\<^verbatim>\<open>wait\<close> checks the queue before it takes the mutex it sleeps on.)
\<close>

theorem wait_lost_wakeup:
  "\<exists>s. wait_reachable 1 s \<and> w_items s = 1 \<and> w_consumer s = C_waiting
     \<and> (\<forall>l t. wait_step s l t \<longrightarrow> l = Spurious)"
proof -
  let ?s = "(wait_init 1)\<lparr>w_items := 1, w_consumer := C_waiting, w_pushes := 0\<rparr>"
  have "wait_reachable 1 ?s" by (rule lost_wakeup_run)
  moreover have "l = Spurious" if "wait_step ?s l t" for l t
    using that by cases (simp_all add: wait_init_def)
  ultimately show ?thesis by (intro exI [of _ ?s]) (simp add: wait_init_def)
qed

theorem wait_lost_wakeup_witness:
  "\<exists>s. wait_reachable 1 s \<and> 0 < w_items s \<and> w_consumer s = C_waiting"
proof -
  from wait_lost_wakeup obtain s where "wait_reachable 1 s" "w_items s = 1" "w_consumer s = C_waiting"
    by blast
  then show ?thesis by (intro exI [of _ s]) simp
qed

end
