(* ===== verification/Connection.thy ===== *)
theory Connection
  imports Wire Tsqueue
begin

unbundle bit_operations_syntax

text \<open>
  \<^verbatim>\<open>net/connection.hpp\<close>: one end of a connection. The asynchronous operations of Boost.Asio
  are not in the repository; the class sees of them that an operation it has started later
  calls its completion handler, with an error or having moved all the bytes asked for. So the
  model keeps which operation is pending and has one function per completion handler, the
  lambda of the source. \<open>c_wire\<close> records the bytes the socket has accepted.
\<close>

section \<open>The object\<close>

datatype owner = Server_side | Client_side

datatype write_op = W_none | W_header | W_body | W_validation

datatype read_op = R_none | R_header | R_body | R_validation

datatype net_error = Eof | Net_error

record owned_message =
  om_remote :: "nat option"
  om_msg :: message

record connection =
  c_owner :: owner
  c_id :: "32 word"
  c_open :: bool
  c_out :: "message tsqueue"
  c_temp :: message
  c_handshake_out :: "64 word"
  c_handshake_in :: "64 word"
  c_handshake_check :: "64 word"
  c_write :: write_op
  c_read :: read_op
  c_wire :: "byte list"

section \<open>The handshake value\<close>

definition scramble :: "64 word \<Rightarrow> 64 word" where
  "scramble input =
     (let out = input XOR 0xC0DECAFEDEADBEEF;
          out = drop_bit 4 (out AND 0xF0F0F0F0F0F0F0) OR push_bit 4 (out AND 0x0F0F0F0F0F0F0F)
      in out XOR 0x12345678C0DEFACE)"

text \<open>The constructor; \<open>now\<close> is the clock's count and \<open>is_open\<close> the state of the socket it is given.\<close>

definition connection_new :: "owner \<Rightarrow> 64 word \<Rightarrow> bool \<Rightarrow> connection" where
  "connection_new parent now is_open =
     \<lparr>c_owner = parent, c_id = 0, c_open = is_open, c_out = ts_new, c_temp = message_new,
      c_handshake_out = (case parent of Server_side \<Rightarrow> now | Client_side \<Rightarrow> 0),
      c_handshake_in = 0,
      c_handshake_check = (case parent of Server_side \<Rightarrow> scramble now | Client_side \<Rightarrow> 0),
      c_write = W_none, c_read = R_none, c_wire = []\<rparr>"

definition is_connected :: "connection \<Rightarrow> bool" where
  "is_connected c = c_open c"

definition close_socket :: "connection \<Rightarrow> connection" where
  "close_socket c = c\<lparr>c_open := False\<rparr>"

text \<open>\<^verbatim>\<open>disconnect\<close> posts the closing of a connected socket; \<open>close_socket\<close> is what is posted.\<close>

definition disconnect :: "connection \<Rightarrow> (connection \<Rightarrow> connection) list" where
  "disconnect c = (if is_connected c then [close_socket] else [])"

section \<open>Starting operations\<close>

definition write_header :: "connection \<Rightarrow> connection" where
  "write_header c = c\<lparr>c_write := W_header\<rparr>"

definition write_body :: "connection \<Rightarrow> connection" where
  "write_body c = c\<lparr>c_write := W_body\<rparr>"

definition read_header :: "connection \<Rightarrow> connection" where
  "read_header c = c\<lparr>c_read := R_header\<rparr>"

definition read_body :: "connection \<Rightarrow> connection" where
  "read_body c = c\<lparr>c_read := R_body\<rparr>"

definition write_validation :: "connection \<Rightarrow> connection" where
  "write_validation c = c\<lparr>c_write := W_validation\<rparr>"

definition read_validation :: "connection \<Rightarrow> connection" where
  "read_validation c = c\<lparr>c_read := R_validation\<rparr>"

definition connect_to_client :: "32 word \<Rightarrow> connection \<Rightarrow> connection" where
  "connect_to_client uid c =
     (if c_owner c = Server_side then
        (if c_open c then read_header (c\<lparr>c_id := uid\<rparr>) else c)
      else c)"

text \<open>The completion of the \<^verbatim>\<open>async_connect\<close> that \<^verbatim>\<open>connect_to_server\<close> starts on a client.\<close>

definition on_connected :: "net_error option \<Rightarrow> connection \<Rightarrow> connection" where
  "on_connected ec c = (case ec of None \<Rightarrow> read_header (c\<lparr>c_open := True\<rparr>) | Some _ \<Rightarrow> c)"

text \<open>What \<^verbatim>\<open>send\<close> posts to the context: start writing only if nothing was queued.\<close>

definition send_posted :: "message \<Rightarrow> connection \<Rightarrow> connection" where
  "send_posted m c =
     (let bWritingMessage = \<not> ts_empty (c_out c);
          c' = c\<lparr>c_out := ts_push_back m (c_out c)\<rparr>
      in if \<not> bWritingMessage then write_header c' else c')"

section \<open>Completion handlers of the writer\<close>

definition header_bytes :: "message \<Rightarrow> byte list" where
  "header_bytes m = u32_bytes (event_code (msg_id m)) @ u32_bytes (msg_size m)"

definition frame :: "message \<Rightarrow> byte list" where
  "frame m = header_bytes m @ msg_body m"

definition pop_and_continue :: "connection \<Rightarrow> fault + connection" where
  "pop_and_continue c = (case ts_pop_front (c_out c) of
      Inl e \<Rightarrow> Inl e
    | Inr (_, out) \<Rightarrow>
        (let c' = c\<lparr>c_out := out, c_write := W_none\<rparr> in
         Inr (if \<not> ts_empty out then write_header c' else c')))"

text \<open>
  The buffers of the writes lie in the message at the front of the queue. \<open>Inl n\<close>: the write failed after
  \<open>n\<close> bytes; \<open>Inr ()\<close>: all bytes are written. After a failure the handlers do not touch the queue.
\<close>

definition header_buffer :: "connection \<Rightarrow> byte list" where
  "header_buffer c = (case ts_queue (c_out c) of [] \<Rightarrow> [] | m # _ \<Rightarrow> header_bytes m)"

definition body_buffer :: "connection \<Rightarrow> byte list" where
  "body_buffer c = (case ts_queue (c_out c) of [] \<Rightarrow> [] | m # _ \<Rightarrow> msg_body m)"

definition on_write_header :: "nat + unit \<Rightarrow> connection \<Rightarrow> fault + connection" where
  "on_write_header ec c = (case ec of
      Inr _ \<Rightarrow>
        (let c' = c\<lparr>c_wire := c_wire c @ header_buffer c\<rparr> in
         case ts_front (c_out c') of
           Inl e \<Rightarrow> Inl e
         | Inr m \<Rightarrow> if 0 < length (msg_body m) then Inr (write_body c') else pop_and_continue c')
    | Inl n \<Rightarrow> Inr (close_socket (c\<lparr>c_wire := c_wire c @ take n (header_buffer c), c_write := W_none\<rparr>)))"

definition on_write_body :: "nat + unit \<Rightarrow> connection \<Rightarrow> fault + connection" where
  "on_write_body ec c = (case ec of
      Inr _ \<Rightarrow> pop_and_continue (c\<lparr>c_wire := c_wire c @ body_buffer c\<rparr>)
    | Inl n \<Rightarrow> Inr (close_socket (c\<lparr>c_wire := c_wire c @ take n (body_buffer c), c_write := W_none\<rparr>)))"

section \<open>Completion handlers of the reader\<close>

definition add_to_incoming ::
    "nat \<Rightarrow> connection \<times> owned_message tsqueue \<Rightarrow> connection \<times> owned_message tsqueue" where
  "add_to_incoming self cq = (case cq of (c, q) \<Rightarrow>
     (read_header c,
      ts_push_back \<lparr>om_remote = (if c_owner c = Server_side then Some self else None),
                    om_msg = c_temp c\<rparr> q))"

definition resize_body :: "nat \<Rightarrow> byte list \<Rightarrow> byte list" where
  "resize_body n bs = take n bs @ replicate (n - length bs) 0"

definition on_read_header ::
    "nat \<Rightarrow> net_error + byte list \<Rightarrow> connection \<times> owned_message tsqueue \<Rightarrow> connection \<times> owned_message tsqueue" where
  "on_read_header self res cq = (case cq of (c, q) \<Rightarrow> (case res of
      Inr bs \<Rightarrow>
        (let c' = c\<lparr>c_temp := (c_temp c)\<lparr>msg_id := event_of (bytes_u32 bs),
                                          msg_size := bytes_u32 (drop 4 bs)\<rparr>\<rparr> in
         if 0 < msg_size (c_temp c') then
           (read_body (c'\<lparr>c_temp := (c_temp c')\<lparr>msg_body :=
              resize_body (unat (msg_size (c_temp c'))) (msg_body (c_temp c'))\<rparr>\<rparr>), q)
         else add_to_incoming self (c', q))
    | Inl ec \<Rightarrow> (if ec \<noteq> Eof then (close_socket (c\<lparr>c_read := R_none\<rparr>), q)
                else (c\<lparr>c_read := R_none\<rparr>, q))))"

definition on_read_body ::
    "nat \<Rightarrow> net_error + byte list \<Rightarrow> connection \<times> owned_message tsqueue \<Rightarrow> connection \<times> owned_message tsqueue" where
  "on_read_body self res cq = (case cq of (c, q) \<Rightarrow> (case res of
      Inr bs \<Rightarrow> add_to_incoming self (c\<lparr>c_temp := (c_temp c)\<lparr>msg_body := bs\<rparr>\<rparr>, q)
    | Inl ec \<Rightarrow> (close_socket (c\<lparr>c_read := R_none\<rparr>), q)))"

section \<open>Completion handlers of the handshake\<close>

definition on_write_validation :: "nat + unit \<Rightarrow> connection \<Rightarrow> connection" where
  "on_write_validation ec c =
     (let bs = u64_bytes (c_handshake_out c) in
      case ec of
        Inr _ \<Rightarrow>
          (let c' = c\<lparr>c_wire := c_wire c @ bs, c_write := W_none\<rparr> in
           if c_owner c' = Client_side then read_header c' else c')
      | Inl n \<Rightarrow> close_socket (c\<lparr>c_wire := c_wire c @ take n bs, c_write := W_none\<rparr>))"

text \<open>
  The flag tells whether \<^verbatim>\<open>server->on_client_validated\<close> is called (the football server leaves
  it at the empty default).
\<close>

definition on_read_validation :: "net_error + byte list \<Rightarrow> connection \<Rightarrow> connection \<times> bool" where
  "on_read_validation res c = (case res of
      Inr bs \<Rightarrow>
        (let c' = c\<lparr>c_handshake_in := bytes_u64 bs, c_read := R_none\<rparr> in
         if c_owner c' = Server_side then
           (if c_handshake_in c' = c_handshake_check c' then (read_header c', True)
            else (close_socket c', False))
         else (write_validation (c'\<lparr>c_handshake_out := scramble (c_handshake_in c')\<rparr>), False))
    | Inl _ \<Rightarrow> (close_socket (c\<lparr>c_read := R_none\<rparr>), False))"

section \<open>The writer at work\<close>

text \<open>
  The steps of the writing side: a posted \<^verbatim>\<open>send\<close>, a completion of the pending write, the
  closing of the socket. A write that was already done when the socket was closed may still complete with
  success. Two histories are kept beside the connection: the messages handed to
  \<^verbatim>\<open>send\<close> and those written to the end.
\<close>

record writer =
  w_conn :: connection
  w_sent :: "message list"
  w_done :: "message list"

definition writer_init :: "connection \<Rightarrow> writer" where
  "writer_init c = \<lparr>w_conn = c, w_sent = [], w_done = []\<rparr>"

datatype write_event = E_send message | E_header "nat + unit" | E_body "nat + unit" | E_close

definition popped :: "connection \<Rightarrow> connection \<Rightarrow> message list" where
  "popped c c' = take (length (ts_queue (c_out c)) - length (ts_queue (c_out c'))) (ts_queue (c_out c))"

inductive write_step :: "writer \<Rightarrow> write_event \<Rightarrow> writer \<Rightarrow> bool" where
  do_send: "write_step w (E_send m)
     (w\<lparr>w_conn := send_posted m (w_conn w), w_sent := w_sent w @ [m]\<rparr>)"
| do_header: "c_write (w_conn w) = W_header \<Longrightarrow>
     on_write_header ec (w_conn w) = Inr c' \<Longrightarrow>
     write_step w (E_header ec) (w\<lparr>w_conn := c', w_done := w_done w @ popped (w_conn w) c'\<rparr>)"
| do_body: "c_write (w_conn w) = W_body \<Longrightarrow>
     on_write_body ec (w_conn w) = Inr c' \<Longrightarrow>
     write_step w (E_body ec) (w\<lparr>w_conn := c', w_done := w_done w @ popped (w_conn w) c'\<rparr>)"
| do_close: "write_step w E_close (w\<lparr>w_conn := close_socket (w_conn w)\<rparr>)"

inductive write_reachable :: "connection \<Rightarrow> writer \<Rightarrow> bool" for c where
  write_start: "write_reachable c (writer_init c)"
| write_more: "write_reachable c w \<Longrightarrow> write_step w e v \<Longrightarrow> write_reachable c v"

inductive_cases write_stepE: "write_step w e v"

text \<open>
  The bytes of the message in progress that are on the wire: its header while the body is
  pending; an unknown part of its frame once a write has failed and the socket is closed.
\<close>

definition write_inv :: "writer \<Rightarrow> bool" where
  "write_inv w \<longleftrightarrow>
     (let c = w_conn w; out = ts_queue (c_out c) in
      w_sent w = w_done w @ out
      \<and> c_write c \<noteq> W_validation
      \<and> (c_write c \<noteq> W_none \<longrightarrow> out \<noteq> [])
      \<and> (c_open c \<and> out \<noteq> [] \<longrightarrow> c_write c \<noteq> W_none)
      \<and> (c_write c = W_body \<longrightarrow> msg_body (hd out) \<noteq> [])
      \<and> (c_write c = W_header \<longrightarrow> c_wire c = concat (map frame (w_done w)))
      \<and> (c_write c = W_body \<longrightarrow> c_wire c = concat (map frame (w_done w)) @ header_bytes (hd out))
      \<and> (c_write c = W_none \<and> out = [] \<longrightarrow> c_wire c = concat (map frame (w_done w)))
      \<and> (c_write c = W_none \<and> out \<noteq> [] \<longrightarrow>
           (\<exists>n. c_wire c = concat (map frame (w_done w)) @ take n (frame (hd out)))))"

definition fresh_writer :: "connection \<Rightarrow> bool" where
  "fresh_writer c \<longleftrightarrow> ts_queue (c_out c) = [] \<and> c_write c = W_none \<and> c_wire c = []"

lemma write_inv_init: "fresh_writer c \<Longrightarrow> write_inv (writer_init c)"
  by (simp add: write_inv_def writer_init_def fresh_writer_def)

lemma take_frame_header: "take n (header_bytes m) = take (min n 8) (frame m)"
  by (simp add: frame_def header_bytes_def min_def)

lemma take_frame_body: "header_bytes m @ take n (msg_body m) = take (n + 8) (frame m)"
  by (simp add: frame_def header_bytes_def)

lemma write_inv_send: "write_inv w \<Longrightarrow>
    write_inv (w\<lparr>w_conn := send_posted m (w_conn w), w_sent := w_sent w @ [m]\<rparr>)"
  by (cases "ts_queue (c_out (w_conn w))")
    (auto simp: write_inv_def send_posted_def Let_def ts_empty_def ts_push_back_def write_header_def)

lemma write_inv_close: "write_inv w \<Longrightarrow> write_inv (w\<lparr>w_conn := close_socket (w_conn w)\<rparr>)"
  by (simp add: write_inv_def close_socket_def Let_def)

lemma write_inv_header:
  assumes inv: "write_inv w" and pend: "c_write (w_conn w) = W_header"
    and step: "on_write_header ec (w_conn w) = Inr c'"
  shows "write_inv (w\<lparr>w_conn := c', w_done := w_done w @ popped (w_conn w) c'\<rparr>)"
proof -
  let ?c = "w_conn w"
  obtain m ms where out: "ts_queue (c_out ?c) = m # ms"
    using inv pend by (cases "ts_queue (c_out ?c)") (auto simp: write_inv_def Let_def)
  have facts: "w_sent w = w_done w @ m # ms" "c_wire ?c = concat (map frame (w_done w))"
    using inv pend out by (simp_all add: write_inv_def Let_def)
  show ?thesis
  proof (cases ec)
    case (Inl n)
    with step out have c': "c' = close_socket (?c\<lparr>c_wire := c_wire ?c @ take n (header_bytes m), c_write := W_none\<rparr>)"
      by (simp add: on_write_header_def header_buffer_def ts_front_def)
    with facts out show ?thesis
      by (auto simp: write_inv_def Let_def close_socket_def popped_def take_frame_header)
  next
    case (Inr u)
    show ?thesis
    proof (cases "msg_body m = []")
      case True
      with step out Inr have "c' = (let d = ?c\<lparr>c_wire := c_wire ?c @ header_bytes m, c_out := (c_out ?c)\<lparr>ts_queue := ms\<rparr>, c_write := W_none\<rparr>
          in if ms = [] then d else write_header d)"
        by (auto simp: on_write_header_def header_buffer_def ts_front_def pop_and_continue_def ts_pop_front_def ts_empty_def Let_def)
      with facts out True show ?thesis
        by (cases ms) (auto simp: write_inv_def Let_def write_header_def popped_def frame_def)
    next
      case False
      with step out Inr have "c' = write_body (?c\<lparr>c_wire := c_wire ?c @ header_bytes m\<rparr>)"
        by (simp add: on_write_header_def header_buffer_def ts_front_def Let_def)
      with facts out False show ?thesis
        by (simp add: write_inv_def Let_def write_body_def popped_def)
    qed
  qed
qed

lemma write_inv_body:
  assumes inv: "write_inv w" and pend: "c_write (w_conn w) = W_body"
    and step: "on_write_body ec (w_conn w) = Inr c'"
  shows "write_inv (w\<lparr>w_conn := c', w_done := w_done w @ popped (w_conn w) c'\<rparr>)"
proof -
  let ?c = "w_conn w"
  obtain m ms where out: "ts_queue (c_out ?c) = m # ms"
    using inv pend by (cases "ts_queue (c_out ?c)") (auto simp: write_inv_def Let_def)
  have facts: "w_sent w = w_done w @ m # ms"
    "c_wire ?c = concat (map frame (w_done w)) @ header_bytes m"
    using inv pend out by (simp_all add: write_inv_def Let_def)
  show ?thesis
  proof (cases ec)
    case (Inl n)
    with step out have c': "c' = close_socket (?c\<lparr>c_wire := c_wire ?c @ take n (msg_body m), c_write := W_none\<rparr>)"
      by (simp add: on_write_body_def body_buffer_def ts_front_def)
    with facts out show ?thesis
      by (auto simp: write_inv_def Let_def close_socket_def popped_def take_frame_body)
  next
    case (Inr u)
    with step out have "c' = (let d = ?c\<lparr>c_wire := c_wire ?c @ msg_body m, c_out := (c_out ?c)\<lparr>ts_queue := ms\<rparr>, c_write := W_none\<rparr>
        in if ms = [] then d else write_header d)"
      by (auto simp: on_write_body_def body_buffer_def ts_front_def pop_and_continue_def ts_pop_front_def ts_empty_def Let_def)
    with facts out show ?thesis
      by (cases ms) (auto simp: write_inv_def Let_def write_header_def popped_def frame_def)
  qed
qed

lemma write_step_inv: "write_step w e v \<Longrightarrow> write_inv w \<Longrightarrow> write_inv v"
  by (induction rule: write_step.induct)
    (auto intro: write_inv_send write_inv_close write_inv_header write_inv_body)

lemma write_reachable_inv: "write_reachable c w \<Longrightarrow> fresh_writer c \<Longrightarrow> write_inv w"
  by (induction rule: write_reachable.induct) (auto intro: write_inv_init write_step_inv)

text \<open>The queue is never read empty: every pending write has its message at the front.\<close>

lemma write_inv_no_fault:
  assumes "write_inv w"
  shows "c_write (w_conn w) = W_header \<Longrightarrow> \<exists>c'. on_write_header ec (w_conn w) = Inr c'"
    and "c_write (w_conn w) = W_body \<Longrightarrow> \<exists>c'. on_write_body ec (w_conn w) = Inr c'"
  using assms
  by (cases "ts_queue (c_out (w_conn w))";
      auto simp: write_inv_def Let_def on_write_header_def on_write_body_def header_buffer_def body_buffer_def ts_front_def
        pop_and_continue_def ts_pop_front_def split: sum.splits)+

lemma write_inv_prefix:
  assumes "write_inv w"
  shows "\<exists>rest. concat (map frame (w_sent w)) = c_wire (w_conn w) @ rest"
proof -
  let ?c = "w_conn w" and ?out = "ts_queue (c_out (w_conn w))"
  have sent: "w_sent w = w_done w @ ?out"
    using assms by (simp add: write_inv_def Let_def)
  consider "?out = []" "c_write ?c = W_none" | "?out \<noteq> []" "c_write ?c = W_none"
    | "c_write ?c = W_header" | "?out \<noteq> []" "c_write ?c = W_body"
    using assms by (cases "c_write ?c"; cases "?out = []") (auto simp: write_inv_def Let_def)
  then show ?thesis
  proof cases
    case 1
    with assms sent show ?thesis by (simp add: write_inv_def Let_def)
  next
    case 2
    with assms obtain n where "c_wire ?c = concat (map frame (w_done w)) @ take n (frame (hd ?out))"
      by (auto simp: write_inv_def Let_def)
    with 2 sent show ?thesis
      by (cases ?out) (auto intro!: exI [of _ "drop n (frame (hd ?out)) @ concat (map frame (tl ?out))"])
  next
    case 3
    with assms sent show ?thesis by (simp add: write_inv_def Let_def)
  next
    case 4
    with assms sent show ?thesis
      by (cases ?out) (auto simp: write_inv_def Let_def frame_def)
  qed
qed

section \<open>The reader at work\<close>

text \<open>
  The socket delivers a stream of bytes; a pending read completes as soon as the stream holds
  the bytes it asked for.
\<close>

function feed ::
    "nat \<Rightarrow> connection \<times> owned_message tsqueue \<Rightarrow> byte list \<Rightarrow>
     (connection \<times> owned_message tsqueue) \<times> byte list" where
  "feed self cq bs =
     (if c_read (fst cq) = R_header \<and> 8 \<le> length bs then
        feed self (on_read_header self (Inr (take 8 bs)) cq) (drop 8 bs)
      else if c_read (fst cq) = R_body \<and> 0 < length (msg_body (c_temp (fst cq)))
              \<and> length (msg_body (c_temp (fst cq))) \<le> length bs then
        feed self (on_read_body self (Inr (take (length (msg_body (c_temp (fst cq)))) bs)) cq)
          (drop (length (msg_body (c_temp (fst cq)))) bs)
      else (cq, bs))"
  by pat_completeness auto
termination
  by (relation "measure (\<lambda>(self, cq, bs). length bs)")
    (auto simp del: length_greater_0_conv intro!: diff_less)

declare feed.simps [simp del]

text \<open>
  What arrives of a list of messages: the body buffer is not emptied between messages, so a
  message without a body is handed on with the body received before it.
\<close>

fun received :: "byte list \<Rightarrow> message list \<Rightarrow> message list" where
  "received stale [] = []"
| "received stale (m # ms) =
     (if msg_body m = [] then m\<lparr>msg_body := stale\<rparr> # received stale ms
      else m # received (msg_body m) ms)"

definition own :: "nat \<Rightarrow> connection \<Rightarrow> message \<Rightarrow> owned_message" where
  "own self c m = \<lparr>om_remote = (if c_owner c = Server_side then Some self else None), om_msg = m\<rparr>"

lemma bytes_header [simp]:
  "bytes_u32 (header_bytes m @ bs) = event_code (msg_id m)"
  "bytes_u32 (drop 4 (header_bytes m @ bs)) = msg_size m"
  "bytes_u32 (drop 4 (header_bytes m)) = msg_size m" "bytes_u32 (header_bytes m) = event_code (msg_id m)"
  by (simp_all add: header_bytes_def)

lemma length_header_bytes [simp]: "length (header_bytes m) = 8"
  by (simp add: header_bytes_def)

lemma length_resize_body [simp]: "length (resize_body n bs) = n"
  by (simp add: resize_body_def)

lemma word_zero_iff: "(0 :: 32 word) < w \<longleftrightarrow> 0 < unat w"
  by (simp add: word_less_nat_alt)

lemma feed_header:
  "c_read c = R_header \<Longrightarrow> feed self (c, q) (header_bytes m @ bs) =
     feed self (on_read_header self (Inr (header_bytes m)) (c, q)) bs"
  by (subst feed.simps) simp

lemma feed_body:
  assumes "c_read c = R_body" and "length (msg_body (c_temp c)) = length body" and "body \<noteq> []"
  shows "feed self (c, q) (body @ bs) = feed self (on_read_body self (Inr body) (c, q)) bs"
  using assms by (subst feed.simps) simp

lemma message_eta:
  "event_of (event_code (msg_id m)) = msg_id m \<Longrightarrow>
   t\<lparr>msg_id := event_of (event_code (msg_id m)), msg_size := msg_size m, msg_body := msg_body m\<rparr> = m"
  for t m :: message
  by (cases m, cases t) simp

lemma keep_reading:
  "c_read c = R_header \<Longrightarrow> c\<lparr>c_temp := t, c_read := R_header\<rparr> = c\<lparr>c_temp := t\<rparr>"
  by (cases c) simp

lemma feed_frame:
  assumes c: "c_read c = R_header" and m: "msg_ok m"
  shows "feed self (c, q) (frame m @ bs) =
     (let m' = (if msg_body m = [] then m\<lparr>msg_body := msg_body (c_temp c)\<rparr> else m) in
      feed self (c\<lparr>c_temp := m'\<rparr>, ts_push_back (own self c m') q) bs)"
proof (cases "msg_body m = []")
  case True
  then have size: "msg_size m = 0"
    using m by (simp add: msg_ok_def word_unat_eq_iff)
  have temp: "(c_temp c)\<lparr>msg_id := event_of (event_code (msg_id m)), msg_size := msg_size m\<rparr>
      = m\<lparr>msg_body := msg_body (c_temp c)\<rparr>"
    using m by (cases m, cases "c_temp c") (simp add: msg_ok_def event_ok_def)
  have "feed self (c, q) (frame m @ bs) =
      feed self (on_read_header self (Inr (header_bytes m)) (c, q)) bs"
    using c True by (simp add: frame_def feed_header)
  then show ?thesis
    using True size temp
    by (simp add: on_read_header_def Let_def add_to_incoming_def read_header_def own_def
        keep_reading [OF c])
next
  case False
  then have size: "0 < msg_size m" "unat (msg_size m) = length (msg_body m)"
    using m by (simp_all add: msg_ok_def word_zero_iff)
  let ?t = "(c_temp c)\<lparr>msg_id := event_of (event_code (msg_id m)), msg_size := msg_size m\<rparr>"
  let ?d = "c\<lparr>c_temp := ?t\<lparr>msg_body := resize_body (length (msg_body m)) (msg_body (c_temp c))\<rparr>, c_read := R_body\<rparr>"
  have "feed self (c, q) (frame m @ bs) =
      feed self (on_read_header self (Inr (header_bytes m)) (c, q)) (msg_body m @ bs)"
    using c by (simp add: frame_def feed_header)
  also have "on_read_header self (Inr (header_bytes m)) (c, q) = (?d, q)"
    using size by (simp add: on_read_header_def Let_def read_body_def)
  also have "feed self (?d, q) (msg_body m @ bs) = feed self (on_read_body self (Inr (msg_body m)) (?d, q)) bs"
    by (rule feed_body) (use False in simp_all)
  also have "on_read_body self (Inr (msg_body m)) (?d, q) =
      (c\<lparr>c_temp := m\<rparr>, ts_push_back (own self c m) q)"
  proof -
    have "?t\<lparr>msg_body := msg_body m\<rparr> = m"
      using m message_eta [of m "c_temp c"] by (simp add: msg_ok_def event_ok_def)
    then show ?thesis
      by (simp add: on_read_body_def add_to_incoming_def read_header_def own_def keep_reading [OF c])
  qed
  finally show ?thesis using False by simp
qed

lemma feed_stuck: "c_read c = R_header \<Longrightarrow> feed self (c, q) [] = ((c, q), [])"
  by (subst feed.simps) simp

lemma own_temp [simp]: "own self (c\<lparr>c_temp := t\<rparr>) m = own self c m"
  by (simp add: own_def)

lemma feed_frames:
  "c_read c = R_header \<Longrightarrow> list_all msg_ok ms \<Longrightarrow>
   (\<exists>t. feed self (c, q) (concat (map frame ms)) =
      ((c\<lparr>c_temp := t\<rparr>, q\<lparr>ts_queue := ts_queue q @ map (own self c) (received (msg_body (c_temp c)) ms)\<rparr>), []))"
proof (induction ms arbitrary: c q)
  case Nil
  then show ?case by (intro exI [of _ "c_temp c"]) (simp add: feed_stuck)
next
  case (Cons m ms)
  let ?m = "if msg_body m = [] then m\<lparr>msg_body := msg_body (c_temp c)\<rparr> else m"
  let ?c = "c\<lparr>c_temp := ?m\<rparr>" and ?q = "ts_push_back (own self c ?m) q"
  have "feed self (c, q) (concat (map frame (m # ms))) = feed self (?c, ?q) (concat (map frame ms))"
    using Cons.prems by (simp add: feed_frame Let_def)
  moreover obtain t where "feed self (?c, ?q) (concat (map frame ms)) =
      ((?c\<lparr>c_temp := t\<rparr>, ?q\<lparr>ts_queue := ts_queue ?q @ map (own self ?c) (received (msg_body (c_temp ?c)) ms)\<rparr>), [])"
    using Cons.IH [of ?c ?q] Cons.prems by auto
  moreover have "own self ?c = own self c" by (rule ext) simp
  ultimately show ?case
    by (intro exI [of _ t]) (auto simp: ts_push_back_def)
qed

lemma received_same:
  "list_all (\<lambda>m. msg_body m \<noteq> []) ms \<Longrightarrow> received stale ms = ms"
  by (induction ms arbitrary: stale) auto

lemma received_headers_first:
  "list_all (\<lambda>m. msg_body m = []) hs \<Longrightarrow> list_all (\<lambda>m. msg_body m \<noteq> []) ms \<Longrightarrow>
     received [] (hs @ ms) = hs @ ms"
proof (induction hs)
  case Nil
  then show ?case by (simp add: received_same)
next
  case (Cons h hs)
  then show ?case by (cases h) simp
qed

section \<open>Properties\<close>

text \<open>
  C7: Whatever sends, completions, failed writes and closings have happened, in any order, the
  bytes on the wire are the beginning of the frames of the messages sent, in sending order; and
  when the connection is open and no write is pending, they are all of them.
\<close>

theorem writer_stream:
  assumes "write_reachable c w" and "fresh_writer c"
  shows "(\<exists>rest. concat (map frame (w_sent w)) = c_wire (w_conn w) @ rest)
    \<and> (c_open (w_conn w) \<and> c_write (w_conn w) = W_none
        \<longrightarrow> c_wire (w_conn w) = concat (map frame (w_sent w)))"
proof -
  have inv: "write_inv w" using assms by (rule write_reachable_inv)
  then show ?thesis using write_inv_prefix [OF inv] by (auto simp: write_inv_def Let_def)
qed

definition sample_conn :: connection where
  "sample_conn = connection_new Client_side 0 True"

definition sample_msg :: message where
  "sample_msg = \<lparr>msg_id = Ev_ping, msg_size = 2, msg_body = [7, 9]\<rparr>"

definition sample_sent :: writer where
  "sample_sent = \<lparr>w_conn = send_posted sample_msg sample_conn, w_sent = [sample_msg], w_done = []\<rparr>"

definition sample_body :: writer where
  "sample_body = sample_sent\<lparr>w_conn := write_body ((send_posted sample_msg sample_conn)
     \<lparr>c_wire := header_bytes sample_msg\<rparr>)\<rparr>"

definition sample_written :: writer where
  "sample_written = sample_sent\<lparr>w_conn := sample_conn\<lparr>c_wire := frame sample_msg\<rparr>, w_done := [sample_msg]\<rparr>"

lemmas samples = sample_conn_def sample_msg_def sample_sent_def sample_body_def sample_written_def

lemma fresh_sample: "fresh_writer sample_conn"
  by (simp add: fresh_writer_def samples connection_new_def ts_new_def)

lemma write_moreI: "write_reachable c w \<Longrightarrow> write_step w e v \<Longrightarrow> v = u \<Longrightarrow> write_reachable c u"
  using write_more by blast

lemma sample_sent_reachable: "write_reachable sample_conn sample_sent"
proof (rule write_moreI [OF write_start])
  show "write_step (writer_init sample_conn) (E_send sample_msg)
     ((writer_init sample_conn)\<lparr>w_conn := send_posted sample_msg (w_conn (writer_init sample_conn)),
        w_sent := w_sent (writer_init sample_conn) @ [sample_msg]\<rparr>)"
    by (rule write_step.intros)
qed (simp add: writer_init_def sample_sent_def)

lemma sample_body_reachable: "write_reachable sample_conn sample_body"
  by (rule write_moreI [OF sample_sent_reachable do_header [where ec = "Inr ()" and c' = "w_conn sample_body"]])
    (simp_all add: samples connection_new_def send_posted_def ts_new_def ts_empty_def ts_push_back_def
      write_header_def on_write_header_def header_buffer_def ts_front_def write_body_def Let_def popped_def)

lemma sample_written_reachable: "write_reachable sample_conn sample_written"
  by (rule write_moreI [OF sample_body_reachable do_body [where ec = "Inr ()" and c' = "w_conn sample_written"]])
    (simp_all add: samples connection_new_def send_posted_def ts_new_def ts_empty_def ts_push_back_def
      write_header_def on_write_body_def body_buffer_def ts_front_def write_body_def Let_def popped_def
      pop_and_continue_def ts_pop_front_def frame_def)

theorem writer_stream_witness:
  "c_wire (w_conn sample_written) = concat (map frame (w_sent sample_written))"
  using writer_stream [OF sample_written_reachable fresh_sample]
  by (simp add: samples connection_new_def)

text \<open>
  No completion handler of the writer ever reads the front of an empty queue, in any
  reachable state: the pop at the end of one write leaves the queue ready for the next.
\<close>

theorem writer_never_empty:
  assumes "write_reachable c w" and "fresh_writer c"
  shows "(c_write (w_conn w) = W_header \<longrightarrow> (\<forall>ec. \<exists>c'. on_write_header ec (w_conn w) = Inr c'))
    \<and> (c_write (w_conn w) = W_body \<longrightarrow> (\<forall>ec. \<exists>c'. on_write_body ec (w_conn w) = Inr c'))"
  using write_inv_no_fault [OF write_reachable_inv [OF assms]] by blast

theorem writer_never_empty_witness: "\<exists>c'. on_write_body (Inl 1) (w_conn sample_body) = Inr c'"
  using writer_never_empty [OF sample_body_reachable fresh_sample]
  by (simp add: sample_body_def write_body_def)

text \<open>
  C6: Two connections together: when the writer is idle, a reader that gets the writer's bytes has
  queued one message for every message sent, in order, and no bytes are left over. A message with a body
  is received as it was sent. A message without one is received with the body of the message received
  before it (\<^verbatim>\<open>m_msgTemporaryIn.body\<close> is not emptied), so it arrives as it was sent only when no
  body has come before. In particular, messages that all have a body arrive unchanged.
\<close>

theorem stream_roundtrip:
  assumes "write_reachable c w" and "fresh_writer c"
    and "c_open (w_conn w)" and "c_write (w_conn w) = W_none"
    and "list_all msg_ok (w_sent w)" and "c_read r = R_header"
  shows "(let ((r', queue), left) = feed self (r, ts_new) (c_wire (w_conn w)); got = map om_msg (ts_queue queue) in
      left = [] \<and> got = received (msg_body (c_temp r)) (w_sent w)
      \<and> ((\<forall>m \<in> set (w_sent w). msg_body m \<noteq> []) \<longrightarrow> got = w_sent w))"
proof -
  have inv: "write_inv w" using assms(1,2) by (rule write_reachable_inv)
  with assms(3,4) have "c_wire (w_conn w) = concat (map frame (w_sent w))"
    by (auto simp: write_inv_def Let_def)
  with feed_frames [OF assms(6,5), of self ts_new] received_same [of "w_sent w"]
  show ?thesis by (auto simp: own_def o_def ts_new_def list_all_iff Let_def)
qed

definition sample_ping :: writer where
  "sample_ping = \<lparr>w_conn = sample_conn\<lparr>c_wire := frame message_new\<rparr>, w_sent = [message_new], w_done = [message_new]\<rparr>"

lemma sample_ping_reachable: "write_reachable sample_conn sample_ping"
proof (rule write_moreI [OF write_moreI [OF write_start do_send refl] do_header [where ec = "Inr ()" and c' = "w_conn sample_ping"]])
qed (simp_all add: writer_init_def sample_ping_def samples connection_new_def send_posted_def ts_new_def ts_empty_def
    ts_push_back_def write_header_def on_write_header_def header_buffer_def ts_front_def Let_def popped_def
    pop_and_continue_def ts_pop_front_def frame_def message_new_def)

theorem stream_roundtrip_witness:
  "map om_msg (ts_queue (snd (fst (feed 3 (read_header (connection_new Server_side 5 True), ts_new)
      (c_wire (w_conn sample_written)))))) = [sample_msg]
   \<and> map om_msg (ts_queue (snd (fst (feed 3 ((read_header (connection_new Server_side 5 True))\<lparr>c_temp := sample_msg\<rparr>, ts_new)
      (c_wire (w_conn sample_ping)))))) = [message_new\<lparr>msg_body := [7, 9]\<rparr>]"
  using stream_roundtrip [OF sample_written_reachable fresh_sample,
      of "read_header (connection_new Server_side 5 True)" 3]
    stream_roundtrip [OF sample_ping_reachable fresh_sample,
      of "(read_header (connection_new Server_side 5 True))\<lparr>c_temp := sample_msg\<rparr>" 3]
  by (simp add: samples sample_ping_def connection_new_def read_header_def msg_ok_def message_new_def case_prod_beta Let_def)

text \<open>
  A message without a body is delivered with the body of the message received before it:
  \<^verbatim>\<open>m_msgTemporaryIn.body\<close> is resized only when the header announces a body. A header alone
  thus repeats the previous request's data under another event.
\<close>

theorem stale_body:
  assumes "msg_ok m" and "msg_body m \<noteq> []" and "msg_ok h" and "msg_body h = []"
    and "c_read r = R_header"
  shows "map om_msg (ts_queue (snd (fst (feed self (r, ts_new) (frame m @ frame h)))))
    = [m, h\<lparr>msg_body := msg_body m\<rparr>]"
proof -
  have "list_all msg_ok [m, h]" using assms by simp
  from feed_frames [OF assms(5) this, of self ts_new] assms(2,4)
  show ?thesis by (auto simp: own_def ts_new_def)
qed

theorem stale_body_witness:
  "map om_msg (ts_queue (snd (fst (feed 0 (read_header (connection_new Server_side 5 True), ts_new)
      (frame sample_msg @ frame message_new)))))
    = [sample_msg, message_new\<lparr>msg_body := [7, 9]\<rparr>]"
  using stale_body [of sample_msg message_new "read_header (connection_new Server_side 5 True)" 0]
  by (simp add: samples msg_ok_def message_new_def read_header_def)

end
