(* ===== verification/Handshake.thy ===== *)
theory Handshake
  imports Connection
begin

text \<open>
  The handshake of \<^verbatim>\<open>net/connection.hpp\<close> (\<^verbatim>\<open>scramble\<close>, \<^verbatim>\<open>write_validation\<close>,
  \<^verbatim>\<open>read_validation\<close>): what the scrambling does to the 64 bits of the clock value, and that a
  client which follows the class is accepted. The calls that would start the handshake are
  commented out in \<^verbatim>\<open>connect_to_client\<close> and \<^verbatim>\<open>connect_to_server\<close>; the functions are kept.
\<close>

section \<open>The nibble swap inside the scrambling\<close>

text \<open>The two masks have fourteen hexadecimal digits: they reach the low seven bytes.\<close>

definition swap_nibbles :: "64 word \<Rightarrow> 64 word" where
  "swap_nibbles z = drop_bit 4 (z AND 0xF0F0F0F0F0F0F0) OR push_bit 4 (z AND 0x0F0F0F0F0F0F0F)"

lemma scramble_swap:
  "scramble x = swap_nibbles (x XOR 0xC0DECAFEDEADBEEF) XOR 0x12345678C0DEFACE"
  by (simp add: scramble_def swap_nibbles_def Let_def)

lemma all_below_64: "(\<forall>n<64. P n) \<longleftrightarrow> list_all P [0..<64]"
  by (auto simp: list_all_iff)

lemma bit_swap_nibbles:
  "\<forall>n<64. bit (swap_nibbles z) n = (n < 56 \<and> bit z (if n mod 8 < 4 then n + 4 else n - 4))"
  unfolding all_below_64 swap_nibbles_def
  by (simp add: bit_simps upt_rec)

lemma swap_index:
  "\<forall>n<64. n < 56 \<longrightarrow> (if n mod 8 < 4 then n + 4 else n - 4) < 56
     \<and> (let m = (if n mod 8 < 4 then n + 4 else n - 4) in (if m mod 8 < 4 then m + 4 else m - 4) = (n::nat))"
  unfolding all_below_64 by (simp add: upt_rec)

lemma swap_swap: "swap_nibbles (swap_nibbles z) = take_bit 56 z"
proof (rule bit_word_eqI)
  fix n assume "n < LENGTH(64)"
  then have n: "n < 64" by simp
  let ?m = "if n mod 8 < 4 then n + 4 else n - 4"
  show "bit (swap_nibbles (swap_nibbles z)) n = bit (take_bit 56 z) n"
  proof (cases "n < 56")
    case True
    define m where "m = (if n mod 8 < 4 then n + 4 else n - 4)"
    from n True swap_index have m: "m < 56" "(if m mod 8 < 4 then m + 4 else m - 4) = n"
      unfolding m_def Let_def by blast+
    have "bit (swap_nibbles (swap_nibbles z)) n = bit (swap_nibbles z) m"
      using n True bit_swap_nibbles unfolding m_def by blast
    also have "m < 64" using m(1) by simp
    with bit_swap_nibbles have "bit (swap_nibbles z) m =
        (m < 56 \<and> bit z (if m mod 8 < 4 then m + 4 else m - 4))" by blast
    also have "\<dots> = bit z n" using m by simp
    finally show ?thesis using True by (simp add: bit_take_bit_iff)
  next
    case False
    with n bit_swap_nibbles show ?thesis by (simp add: bit_take_bit_iff)
  qed
qed

lemma swap_take: "swap_nibbles (take_bit 56 z) = swap_nibbles z"
proof (rule bit_word_eqI)
  fix n assume "n < LENGTH(64)"
  then have n: "n < 64" by simp
  obtain m where m: "m = (if n mod 8 < 4 then n + 4 else n - 4)" by blast
  have "n < 56 \<Longrightarrow> m < 56"
    using n swap_index unfolding m Let_def by blast
  moreover have "bit (swap_nibbles z) n = (n < 56 \<and> bit z m)"
    and "bit (swap_nibbles (take_bit 56 z)) n = (n < 56 \<and> bit (take_bit 56 z) m)"
    using n bit_swap_nibbles unfolding m by blast+
  ultimately show "bit (swap_nibbles (take_bit 56 z)) n = bit (swap_nibbles z) n"
    by (simp only: bit_take_bit_iff simp_thms HOL.conj_assoc cong: conj_cong)
qed

lemma swap_eq_iff: "swap_nibbles a = swap_nibbles b \<longleftrightarrow> take_bit 56 a = take_bit 56 b"
proof
  assume "swap_nibbles a = swap_nibbles b"
  then have "swap_nibbles (swap_nibbles a) = swap_nibbles (swap_nibbles b)" by simp
  then show "take_bit 56 a = take_bit 56 b" by (simp only: swap_swap)
next
  assume "take_bit 56 a = take_bit 56 b"
  then have "swap_nibbles (take_bit 56 a) = swap_nibbles (take_bit 56 b)" by simp
  then show "swap_nibbles a = swap_nibbles b" by (simp only: swap_take)
qed

lemma xor_cancel: "a XOR k = b XOR k \<longleftrightarrow> a = b" for a b k :: "64 word"
  by (auto simp: bit_eq_iff bit_simps)

lemma take_xor_cancel:
  "take_bit n (a XOR k) = take_bit n (b XOR k) \<longleftrightarrow> take_bit n a = take_bit n b"
  for a b k :: "64 word"
  by (auto simp: bit_eq_iff bit_simps)

text \<open>Two clock values have one scrambled value exactly when their low 56 bits agree.\<close>

lemma scramble_eq_iff: "scramble x = scramble y \<longleftrightarrow> take_bit 56 x = take_bit 56 y"
  by (simp add: scramble_swap xor_cancel swap_eq_iff take_xor_cancel)

section \<open>The exchange\<close>

text \<open>
  The server writes its clock value, the client answers with the scrambled value, the server
  compares. \<open>challenge\<close> and \<open>answer\<close> are the bytes on the two directions of the wire.
\<close>

definition challenge :: "connection \<Rightarrow> byte list" where
  "challenge srv = c_wire (on_write_validation (Inr ()) (write_validation (srv\<lparr>c_wire := []\<rparr>)))"

definition answer :: "connection \<Rightarrow> byte list \<Rightarrow> byte list" where
  "answer cli bs =
     c_wire (on_write_validation (Inr ()) (fst (on_read_validation (Inr bs) (cli\<lparr>c_wire := []\<rparr>))))"

lemma challenge_bytes: "challenge srv = u64_bytes (c_handshake_out srv)"
  by (simp add: challenge_def on_write_validation_def write_validation_def
      read_header_def read_validation_def Let_def)

lemma answer_bytes:
  "c_owner cli = Client_side \<Longrightarrow> answer cli (u64_bytes v) = u64_bytes (scramble v)"
  by (simp add: answer_def on_read_validation_def on_write_validation_def write_validation_def
      read_header_def read_validation_def Let_def)

lemma server_accepts:
  "c_owner srv = Server_side \<Longrightarrow>
   snd (on_read_validation (Inr (u64_bytes v)) srv) \<longleftrightarrow> v = c_handshake_check srv"
  by (simp add: on_read_validation_def Let_def)

section \<open>Properties\<close>

text \<open>
  C28: The handshake completes between two ends of the class: the server accepts the answer of a
  client to its own challenge, whatever the clock value; and it accepts exactly the answers whose
  clock value agrees with its own in the low 56 bits, because the masks of the scrambling drop
  the top byte.
\<close>

theorem handshake_completes:
  assumes "c_owner cli = Client_side"
  shows "snd (on_read_validation (Inr (answer cli (challenge (connection_new Server_side now True))))
           (connection_new Server_side now True))
    \<and> (snd (on_read_validation (Inr (answer cli (u64_bytes v))) (connection_new Server_side now True))
       \<longleftrightarrow> take_bit 56 v = take_bit 56 now)"
  using assms server_accepts [of "connection_new Server_side now True" "scramble now"]
    server_accepts [of "connection_new Server_side now True" "scramble v"]
  by (simp add: challenge_bytes answer_bytes connection_new_def scramble_eq_iff)

theorem handshake_completes_witness:
  "snd (on_read_validation (Inr (answer (connection_new Client_side 0 True) (u64_bytes (2 ^ 60 + 5))))
      (connection_new Server_side 5 True))"
  using handshake_completes [of "connection_new Client_side 0 True" 5 "2 ^ 60 + 5"]
  by (simp add: connection_new_def take_bit_eq_mod)

end
