(* ===== verification/Server.thy ===== *)
theory Server
  imports Connection
begin

text \<open>
  \<^verbatim>\<open>net/server.hpp\<close>: the server side without its virtual functions, which are the fields of
  \<open>hooks\<close>. A \<^verbatim>\<open>shared_ptr\<close> to a connection is an address (or null) into the store \<open>si_heap\<close>.
  \<open>'w\<close> is whatever else the virtual functions work on. What the functions post to
  \<^verbatim>\<open>m_asioContext\<close> waits in \<open>si_posted\<close> until the context's thread runs it.
\<close>

record server_if =
  si_conns :: "nat option list"
  si_heap :: "nat \<Rightarrow> connection option"
  si_fresh :: nat
  si_next_id :: "32 word"
  si_posted :: "(nat \<times> message) list"
  si_accepting :: bool

record 'w hooks =
  h_connect :: "nat \<Rightarrow> (server_if \<times> 'w, bool) prog"
  h_disconnect :: "nat option \<Rightarrow> (server_if \<times> 'w, unit) prog"
  h_message :: "nat option \<Rightarrow> message \<Rightarrow> (server_if \<times> 'w, unit) prog"

definition server_new :: server_if where
  "server_new = \<lparr>si_conns = [], si_heap = (\<lambda>_. None), si_fresh = 0, si_next_id = 10000,
     si_posted = [], si_accepting = False\<rparr>"

section \<open>Calls on a connection through a pointer\<close>

definition deref :: "nat option \<Rightarrow> (server_if, nat \<times> connection) prog" where
  "deref p = (\<lambda>si. case p of
      None \<Rightarrow> (Inl (Undefined_behaviour ''null client''), si)
    | Some a \<Rightarrow> (case si_heap si a of
          None \<Rightarrow> (Inl (Undefined_behaviour ''dangling client''), si)
        | Some c \<Rightarrow> (Inr (a, c), si)))"

definition client_send :: "nat option \<Rightarrow> message \<Rightarrow> (server_if, unit) prog" where
  "client_send p msg =
     bind_p (deref p) (\<lambda>(a, c). modify_p (\<lambda>si. si\<lparr>si_posted := si_posted si @ [(a, msg)]\<rparr>))"

definition client_id :: "nat option \<Rightarrow> (server_if, 32 word) prog" where
  "client_id p = bind_p (deref p) (\<lambda>(a, c). return_p (c_id c))"

text \<open>\<^verbatim>\<open>client && client->is_connected()\<close>\<close>

definition client_up :: "nat option \<Rightarrow> (server_if, bool) prog" where
  "client_up p = (case p of None \<Rightarrow> return_p False
    | Some _ \<Rightarrow> bind_p (deref p) (\<lambda>(a, c). return_p (is_connected c)))"

text \<open>One turn of \<^verbatim>\<open>m_asioContext.run()\<close>: the oldest posted send.\<close>

definition run_posted :: "server_if \<Rightarrow> server_if" where
  "run_posted si = (case si_posted si of
      [] \<Rightarrow> si
    | (a, msg) # rest \<Rightarrow> si\<lparr>si_posted := rest,
        si_heap := (si_heap si)(a := map_option (send_posted msg) (si_heap si a))\<rparr>)"

section \<open>Accepting\<close>

text \<open>
  \<^verbatim>\<open>wait_for_client_connection\<close> leaves an accept pending; \<open>on_accept\<close> is its completion. It
  is given the error or the clock value the new connection reads and whether the peer's address
  can still be read: \<^verbatim>\<open>socket.remote_endpoint()\<close> throws on a socket the peer has reset.
\<close>

definition wait_for_client_connection :: "(server_if \<times> 'w, unit) prog" where
  "wait_for_client_connection = on_fst (modify_p (\<lambda>si. si\<lparr>si_accepting := True\<rparr>))"

definition make_connection :: "64 word \<Rightarrow> (server_if, nat) prog" where
  "make_connection now = (\<lambda>si. (Inr (si_fresh si),
     si\<lparr>si_fresh := Suc (si_fresh si),
        si_heap := (si_heap si)(si_fresh si := Some (connection_new Server_side now True))\<rparr>))"

definition approve :: "nat \<Rightarrow> server_if \<Rightarrow> server_if" where
  "approve a si = si\<lparr>si_conns := si_conns si @ [Some a],
     si_heap := (si_heap si)(a := map_option (connect_to_client (si_next_id si)) (si_heap si a)),
     si_next_id := si_next_id si + 1\<rparr>"

definition on_accept :: "'w hooks \<Rightarrow> net_error + 64 word \<times> bool \<Rightarrow> (server_if \<times> 'w, unit) prog" where
  "on_accept hk res =
     then_p (on_fst (modify_p (\<lambda>si. si\<lparr>si_accepting := False\<rparr>)))
    (then_p
      (case res of
         Inl _ \<Rightarrow> return_p ()
       | Inr (now, peer_known) \<Rightarrow>
           (if \<not> peer_known then throw_p Network_exception
            else
              bind_p (on_fst (make_connection now)) (\<lambda>a.
              bind_p (h_connect hk a) (\<lambda>ok.
              if ok then on_fst (modify_p (approve a)) else return_p ()))))
      wait_for_client_connection)"

section \<open>Sending\<close>

text \<open>
  \<^verbatim>\<open>message_client\<close> drops its own copy of the pointer (the parameter) and then removes the
  elements equal to it: the null ones.
\<close>

definition message_client :: "'w hooks \<Rightarrow> nat option \<Rightarrow> message \<Rightarrow> (server_if \<times> 'w, unit) prog" where
  "message_client hk client msg =
     bind_p (on_fst (client_up client)) (\<lambda>up.
     if up then on_fst (client_send client msg)
     else
       then_p (h_disconnect hk client)
      (let client = (None :: nat option) in
       on_fst (modify_p (\<lambda>si. si\<lparr>si_conns := filter (\<lambda>p. p \<noteq> client) (si_conns si)\<rparr>))))"

text \<open>The loop over \<^verbatim>\<open>m_deqConnections\<close>, by index; a lost client's element is reset in place.\<close>

fun message_all_loop ::
    "'w hooks \<Rightarrow> message \<Rightarrow> nat option \<Rightarrow> nat option list \<Rightarrow> nat \<Rightarrow> bool \<Rightarrow> (server_if \<times> 'w, bool) prog" where
  "message_all_loop hk msg ignore [] i invalid = return_p invalid"
| "message_all_loop hk msg ignore (client # rest) i invalid =
     bind_p (on_fst (client_up client)) (\<lambda>up.
     if up then
       then_p (if client \<noteq> ignore then on_fst (client_send client msg) else return_p ())
              (message_all_loop hk msg ignore rest (Suc i) invalid)
     else
       then_p (h_disconnect hk client)
      (then_p (on_fst (modify_p (\<lambda>si. si\<lparr>si_conns := (si_conns si)[i := None]\<rparr>)))
              (message_all_loop hk msg ignore rest (Suc i) True)))"

definition message_all_clients ::
    "'w hooks \<Rightarrow> message \<Rightarrow> nat option \<Rightarrow> (server_if \<times> 'w, unit) prog" where
  "message_all_clients hk msg ignore =
     bind_p (on_fst (gets_p si_conns)) (\<lambda>conns.
     bind_p (message_all_loop hk msg ignore conns 0 False) (\<lambda>invalid.
     if invalid then on_fst (modify_p (\<lambda>si. si\<lparr>si_conns := filter (\<lambda>p. p \<noteq> None) (si_conns si)\<rparr>))
     else return_p ()))"

section \<open>Handling what has arrived\<close>

text \<open>
  \<^verbatim>\<open>update\<close>: the queue of incoming messages stands beside the rest of the server. None: the
  call is blocked in \<^verbatim>\<open>wait()\<close>. \<open>no_limit\<close> is the default argument, -1 as \<^verbatim>\<open>size_t\<close>.
\<close>

definition no_limit :: "64 word" where "no_limit = - 1"

definition server_update ::
    "'w hooks \<Rightarrow> 64 word \<Rightarrow> bool \<Rightarrow> owned_message tsqueue \<times> (server_if \<times> 'w) \<Rightarrow>
     ((fault + unit) \<times> (owned_message tsqueue \<times> (server_if \<times> 'w))) option" where
  "server_update hk nMaxMessages bWait qw =
     (if bWait \<and> ts_empty (fst qw) then None
      else Some (drain ts_pop_front ts_empty
             (\<lambda>om. h_message hk (om_remote om) (om_msg om)) (unat nMaxMessages) qw))"

definition no_inbound_message :: "owned_message tsqueue \<Rightarrow> bool" where
  "no_inbound_message q = ts_empty q"

text \<open>What one \<^verbatim>\<open>update\<close> does, in terms of the list of messages waiting.\<close>

lemma server_update_list:
  assumes "\<not> (bWait \<and> ts_empty q)"
  shows "\<exists>q'. server_update hk n bWait (q, w) =
      Some (case handle_list (\<lambda>om. h_message hk (om_remote om) (om_msg om)) (take (unat n) (ts_queue q)) w of
              (r, rest, w') \<Rightarrow> (r, (q', w')))
    \<and> (case handle_list (\<lambda>om. h_message hk (om_remote om) (om_msg om)) (take (unat n) (ts_queue q)) w of
         (r, rest, w') \<Rightarrow> ts_queue q' = rest @ drop (unat n) (ts_queue q))"
  using assms tsq.drain_handles [of "\<lambda>om. h_message hk (om_remote om) (om_msg om)" "unat n" q w]
  by (auto simp: server_update_def)

end
