(* ===== verification/Std_Map.thy ===== *)
theory Std_Map
  imports Prelude
begin

text \<open>
  \<^verbatim>\<open>std::map\<close> as the sources use it: an ordered association list. Iteration follows the
  key order (\<^verbatim>\<open>std::string\<close> compares bytes, which is the order \<open>List_Lexorder\<close> and
  \<open>Char_ord\<close> put on \<open>string\<close>), so the order in which a statement text lists the columns
  is part of the model. \<open>map_of\<close> is the abstraction to a partial function, and
  \<open>map_put_spec\<close> the refinement.
\<close>

named_theorems map_laws "laws of the ordered map"

type_synonym ('k, 'v) std_map = "('k \<times> 'v) list"

text \<open>\<^verbatim>\<open>m[k] = v\<close>\<close>

fun map_put :: "'k::linorder \<Rightarrow> 'v \<Rightarrow> ('k, 'v) std_map \<Rightarrow> ('k, 'v) std_map" where
  "map_put k v [] = [(k, v)]"
| "map_put k v ((k', v') # m) =
     (if k < k' then (k, v) # (k', v') # m
      else if k = k' then (k, v) # m
      else (k', v') # map_put k v m)"

text \<open>
  \<^verbatim>\<open>m[k]\<close> read as a value: an absent key is first inserted with the empty string, and stays
  in the map.
\<close>

definition map_index :: "'k::linorder \<Rightarrow> ('k, string) std_map \<Rightarrow> string \<times> ('k, string) std_map" where
  "map_index k m = (case map_of m k of Some v \<Rightarrow> (v, m) | None \<Rightarrow> ([], map_put k [] m))"

definition map_ok :: "('k::linorder, 'v) std_map \<Rightarrow> bool" where
  "map_ok m \<longleftrightarrow> sorted_wrt (<) (map fst m)"

lemma map_ok_Nil [simp]: "map_ok []"
  by (simp add: map_ok_def)

lemma map_ok_Cons:
  "map_ok ((k, v) # m) \<longleftrightarrow> (\<forall>k' \<in> fst ` set m. k < k') \<and> map_ok m"
  by (auto simp: map_ok_def)

lemma map_put_spec [simp, map_laws]: "map_of (map_put k v m) = (map_of m)(k \<mapsto> v)"
  by (induction k v m rule: map_put.induct) auto

lemma map_put_again [simp]: "map_put k v (map_put k w m) = map_put k v m"
  by (induction k w m rule: map_put.induct) auto

lemma keys_map_put [simp]: "fst ` set (map_put k v m) = insert k (fst ` set m)"
  by (induction k v m rule: map_put.induct) auto

lemma map_put_ne_Nil [simp]: "map_put k v m \<noteq> []"
  by (cases "(k, v, m)" rule: map_put.cases) auto

lemma set_map_put: "set (map_put k v m) \<subseteq> insert (k, v) (set m)"
  by (induction k v m rule: map_put.induct) auto

lemma map_ok_put [intro, map_laws]: "map_ok m \<Longrightarrow> map_ok (map_put k v m)"
proof (induction k v m rule: map_put.induct)
  case (2 k v k' v' m)
  then show ?case by (auto simp: map_ok_Cons intro: less_trans)
qed (simp add: map_ok_def)

lemma map_index_spec:
  "map_index k m = (v, m') \<Longrightarrow>
     v = (case map_of m k of Some x \<Rightarrow> x | None \<Rightarrow> [])
     \<and> map_of m' = (map_of m)(k \<mapsto> v)
     \<and> (map_ok m \<longrightarrow> map_ok m')"
  by (auto simp: map_index_def fun_eq_iff split: option.splits)

lemma map_ok_index: "map_ok m \<Longrightarrow> map_ok (snd (map_index k m))"
  by (auto simp: map_index_def split: option.splits)

lemma map_of_ok_notin:
  "map_ok ((k, v) # m) \<Longrightarrow> map_of m k = None"
  by (auto simp: map_ok_Cons map_of_eq_None_iff)

lemma map_ok_distinct: "map_ok m \<Longrightarrow> distinct (map fst m)"
  by (simp add: map_ok_def strict_sorted_iff)

lemma map_of_ok_Some: "map_ok m \<Longrightarrow> map_of m k = Some v \<longleftrightarrow> (k, v) \<in> set m"
  by (simp add: map_ok_distinct)

text \<open>An ordered map is determined by the function it stands for.\<close>

lemma map_ok_unique:
  assumes "map_ok m" and "map_ok m'" and "map_of m = map_of m'"
  shows "m = m'"
proof -
  have "set m = set m'"
    using assms by (auto simp: map_of_ok_Some [symmetric])
  with assms(1,2) show ?thesis
    by (intro map_sorted_distinct_set_unique [where f = fst])
      (auto simp: map_ok_def strict_sorted_iff distinct_map)
qed

lemma map_put_same:
  "map_ok m \<Longrightarrow> map_of m k = Some v \<Longrightarrow> map_put k v m = m"
  by (rule map_ok_unique) (auto simp: fun_upd_idem)

lemma map_of_rev_distinct:
  assumes "distinct (map fst xs)"
  shows "map_of (rev xs) = map_of xs"
proof (rule map_of_eqI)
  show "set (map fst (rev xs)) = set (map fst xs)" by simp
  show "\<forall>k\<in>set (map fst (rev xs)). map_of (rev xs) k = map_of xs k"
  proof
    fix k assume "k \<in> set (map fst (rev xs))"
    then obtain v where kv: "(k, v) \<in> set xs" by auto
    from kv assms have "map_of xs k = Some v" by (rule map_of_is_SomeI [rotated])
    moreover from kv assms have "map_of (rev xs) k = Some v"
      by (intro map_of_is_SomeI) (simp_all add: rev_map [symmetric])
    ultimately show "map_of (rev xs) k = map_of xs k" by simp
  qed
qed

end
