(* ===== verification/Mysql_Server.thy ===== *)
theory Mysql_Server
  imports Std_Map
begin

text \<open>
  \<^verbatim>\<open>db/mysql.cpp\<close>, first half: the configuration the database layer reads at start-up and
  the class \<^verbatim>\<open>mysql::server\<close>, the one connection all tables share. MySQL and its C++
  connector are not part of the repository: they are the parameter \<open>sql_api\<close> of every
  operation, the functions of the connector that the class calls, over a database state of
  any type. What the class itself keeps (which pointers are set, the current prepared
  statement, the current result set and its cursor) is the record \<open>server\<close>.
\<close>

section \<open>Environment\<close>

record environment =
  env_server :: string
  env_port :: string
  env_username :: string
  env_password :: string
  env_database :: string

text \<open>The globals \<^verbatim>\<open>mysql::env\<close> and \<^verbatim>\<open>mysql::srv\<close>, null before \<^verbatim>\<open>mysql::init\<close>.\<close>

record mysql_globals =
  g_env :: "environment option"
  g_srv :: bool

text \<open>
  A parsed configuration file, as far as it is read: the string value of a key of a section,
  if it has one. \<^verbatim>\<open>.value()\<close> on an empty optional throws \<^verbatim>\<open>std::bad_optional_access\<close>.
\<close>

type_synonym toml_config = "string \<Rightarrow> string \<Rightarrow> string option"

definition config_value :: "toml_config \<Rightarrow> string \<Rightarrow> string \<Rightarrow> fault + string" where
  "config_value cfg sect key =
     (case cfg sect key of None \<Rightarrow> Inl Bad_optional_access | Some v \<Rightarrow> Inr v)"

definition env_update :: "(environment \<Rightarrow> environment) \<Rightarrow> (mysql_globals, unit) prog" where
  "env_update f = modify_p (\<lambda>g. g\<lparr>g_env := map_option f (g_env g)\<rparr>)"

definition mysql_init ::
    "(string \<Rightarrow> fault + toml_config) \<Rightarrow> string \<Rightarrow> (mysql_globals, unit) prog" where
  "mysql_init parse_file config_filename =
     then_p (modify_p (\<lambda>g. g\<lparr>g_env := Some \<lparr>env_server = [], env_port = [], env_username = [],
                                            env_password = [], env_database = []\<rparr>\<rparr>))
    (bind_p (lift_p (parse_file config_filename)) (\<lambda>config.
     bind_p (lift_p (config_value config ''mysql'' ''server'')) (\<lambda>v.
     then_p (env_update (\<lambda>e. e\<lparr>env_server := v\<rparr>))
    (bind_p (lift_p (config_value config ''mysql'' ''port'')) (\<lambda>v.
     then_p (env_update (\<lambda>e. e\<lparr>env_port := v\<rparr>))
    (bind_p (lift_p (config_value config ''mysql'' ''username'')) (\<lambda>v.
     then_p (env_update (\<lambda>e. e\<lparr>env_username := v\<rparr>))
    (bind_p (lift_p (config_value config ''mysql'' ''password'')) (\<lambda>v.
     then_p (env_update (\<lambda>e. e\<lparr>env_password := v\<rparr>))
    (bind_p (lift_p (config_value config ''mysql'' ''database'')) (\<lambda>v.
     then_p (env_update (\<lambda>e. e\<lparr>env_database := v\<rparr>))
            (modify_p (\<lambda>g. g\<lparr>g_srv := True\<rparr>)))))))))))))"

section \<open>Result sets\<close>

text \<open>
  A result set: column names, rows of texts, and the cursor (0 before the first row, \<open>n\<close> on
  the \<open>n\<close>-th row). Reading a column off a row, or with no current row, is an exception of
  the connector.
\<close>

record result_set =
  rs_columns :: "string list"
  rs_rows :: "string list list"
  rs_cursor :: nat

definition rs_next :: "result_set \<Rightarrow> bool \<times> result_set" where
  "rs_next rs = (rs_cursor rs < length (rs_rows rs), rs\<lparr>rs_cursor := Suc (rs_cursor rs)\<rparr>)"

definition rs_get_string :: "result_set \<Rightarrow> nat \<Rightarrow> fault + string" where
  "rs_get_string rs i =
     (if 0 < rs_cursor rs \<and> rs_cursor rs \<le> length (rs_rows rs)
         \<and> 0 < i \<and> i \<le> length (rs_rows rs ! (rs_cursor rs - 1))
      then Inr (rs_rows rs ! (rs_cursor rs - 1) ! (i - 1))
      else Inl (Sql_exception 0 ''invalid column or row''))"

section \<open>The connector and the server object\<close>

record 'db sql_api =
  api_connect :: "string \<Rightarrow> string \<Rightarrow> string \<Rightarrow> ('db, unit) prog"
  api_set_schema :: "string \<Rightarrow> ('db, unit) prog"
  api_is_closed :: "'db \<Rightarrow> bool"
  api_reconnect :: "('db, unit) prog"
  api_prepare :: "string \<Rightarrow> ('db, unit) prog"
  api_execute_query :: "string \<Rightarrow> ('db, result_set) prog"
  api_set_savepoint :: "('db, nat) prog"
  api_commit :: "('db, unit) prog"
  api_rollback :: "nat option \<Rightarrow> ('db, unit) prog"
  api_get_uint64 :: "string \<Rightarrow> 64 word"

record 'db server =
  srv_env :: environment
  srv_driver :: bool
  srv_connection :: bool
  srv_pstmt :: "string option"
  srv_result :: "result_set option"
  srv_savepoint :: "nat option"
  srv_db :: 'db

definition on_db :: "('db, 'a) prog \<Rightarrow> ('db server, 'a) prog" where
  "on_db m = (\<lambda>s. case m (srv_db s) of (r, d) \<Rightarrow> (r, s\<lparr>srv_db := d\<rparr>))"

definition connect :: "'db sql_api \<Rightarrow> ('db server, unit) prog" where
  "connect api =
     bind_p (gets_p srv_driver) (\<lambda>driver.
     then_p (if driver then return_p () else modify_p (\<lambda>s. s\<lparr>srv_driver := True\<rparr>))
    (bind_p (gets_p srv_connection) (\<lambda>connection.
     if \<not> connection then
       bind_p (gets_p srv_env) (\<lambda>env.
       then_p (on_db (api_connect api (env_server env) (env_username env) (env_password env)))
      (then_p (modify_p (\<lambda>s. s\<lparr>srv_connection := True\<rparr>))
              (on_db (api_set_schema api (env_database env)))))
     else
       bind_p (gets_p (\<lambda>s. api_is_closed api (srv_db s))) (\<lambda>closed.
       if closed then on_db (api_reconnect api) else return_p ()))))"

definition prepare :: "'db sql_api \<Rightarrow> string \<Rightarrow> ('db server, unit) prog" where
  "prepare api stmt =
     bind_p (gets_p srv_connection) (\<lambda>connection.
     if \<not> connection then throw_p (Undefined_behaviour ''null connection'')
     else then_p (on_db (api_prepare api stmt))
                 (modify_p (\<lambda>s. s\<lparr>srv_pstmt := Some stmt\<rparr>)))"

definition execute :: "'db sql_api \<Rightarrow> ('db server, unit) prog" where
  "execute api =
     bind_p (gets_p srv_pstmt) (\<lambda>pstmt.
     case pstmt of
       None \<Rightarrow> throw_p (Undefined_behaviour ''null statement'')
     | Some stmt \<Rightarrow>
         bind_p (on_db (api_execute_query api stmt)) (\<lambda>rs.
         modify_p (\<lambda>s. s\<lparr>srv_result := Some rs\<rparr>)))"

definition start_transaction :: "'db sql_api \<Rightarrow> ('db server, unit) prog" where
  "start_transaction api =
     bind_p (gets_p srv_connection) (\<lambda>connection.
     if connection then
       bind_p (on_db (api_set_savepoint api)) (\<lambda>sp. modify_p (\<lambda>s. s\<lparr>srv_savepoint := Some sp\<rparr>))
     else return_p ())"

definition commit :: "'db sql_api \<Rightarrow> ('db server, unit) prog" where
  "commit api =
     bind_p (gets_p srv_connection) (\<lambda>connection.
     if connection then on_db (api_commit api) else return_p ())"

definition rollback :: "'db sql_api \<Rightarrow> ('db server, unit) prog" where
  "rollback api =
     bind_p (gets_p srv_connection) (\<lambda>connection.
     if connection then
       bind_p (gets_p srv_savepoint) (\<lambda>sp. on_db (api_rollback api sp))
     else return_p ())"

definition srv_next :: "('db server, bool) prog" where
  "srv_next = (\<lambda>s. case srv_result s of
      None \<Rightarrow> (Inr False, s)
    | Some rs \<Rightarrow> (case rs_next rs of (b, rs') \<Rightarrow> (Inr b, s\<lparr>srv_result := Some rs'\<rparr>)))"

text \<open>\<^verbatim>\<open>for (int i{1}; i <= columnCount; ++i) if (name(i) == field) return getString(i);\<close>\<close>

fun get_value_loop :: "string \<Rightarrow> result_set \<Rightarrow> nat \<Rightarrow> string list \<Rightarrow> fault + string" where
  "get_value_loop field rs i [] = Inr []"
| "get_value_loop field rs i (f # fs) =
     (if f = field then rs_get_string rs i else get_value_loop field rs (Suc i) fs)"

definition srv_get_value :: "string \<Rightarrow> 'db server \<Rightarrow> fault + string" where
  "srv_get_value field s = (case srv_result s of
      None \<Rightarrow> Inl (Undefined_behaviour ''null result'')
    | Some rs \<Rightarrow> get_value_loop field rs 1 (rs_columns rs))"

definition has_rows :: "('db server, bool) prog" where
  "has_rows = (\<lambda>s. case srv_result s of
      None \<Rightarrow> (Inl (Undefined_behaviour ''null result''), s)
    | Some rs \<Rightarrow> (Inr (0 < length (rs_rows rs)), s))"

text \<open>
  \<^verbatim>\<open>get_values\<close> writes into the map it is given, column by column, and stops after one row;
  the map is the first half of the state.
\<close>

fun put_columns ::
    "result_set \<Rightarrow> nat \<Rightarrow> string list \<Rightarrow> ((string, string) std_map, unit) prog" where
  "put_columns rs i [] = return_p ()"
| "put_columns rs i (field # fs) =
     bind_p (lift_p (rs_get_string rs i)) (\<lambda>value.
     then_p (modify_p (map_put field value)) (put_columns rs (Suc i) fs))"

definition get_values :: "((string, string) std_map \<times> 'db server, unit) prog" where
  "get_values = (\<lambda>(fv, s). case srv_result s of
      None \<Rightarrow> (Inl (Undefined_behaviour ''null result''), (fv, s))
    | Some rs \<Rightarrow> (case rs_next rs of (has_row, rs') \<Rightarrow>
        (let s' = s\<lparr>srv_result := Some rs'\<rparr> in
         if has_row then on_fst (put_columns rs' 1 (rs_columns rs')) (fv, s')
         else (Inr (), (fv, s')))))"

text \<open>\<^verbatim>\<open>while (result->next()) value = result->getUInt64(1);\<close> over the rows left.\<close>

fun last_id_loop :: "'db sql_api \<Rightarrow> result_set \<Rightarrow> nat \<Rightarrow> 64 word \<Rightarrow> (fault + 64 word) \<times> result_set" where
  "last_id_loop api rs 0 value = (Inr value, snd (rs_next rs))"
| "last_id_loop api rs (Suc n) value =
     (let rs' = snd (rs_next rs) in
      case rs_get_string rs' 1 of
        Inl e \<Rightarrow> (Inl e, rs')
      | Inr v \<Rightarrow> last_id_loop api rs' n (api_get_uint64 api v))"

definition last_id_stmt :: "string \<Rightarrow> string" where
  "last_id_stmt tablename = ''SELECT LAST_INSERT_ID() FROM '' @ tablename @ '' LIMIT 1;''"

definition last_insert_id :: "'db sql_api \<Rightarrow> string \<Rightarrow> ('db server, 64 word) prog" where
  "last_insert_id api tablename =
     then_p (prepare api (last_id_stmt tablename))
    (then_p (execute api)
    (\<lambda>s. case srv_result s of
        None \<Rightarrow> (Inl (Undefined_behaviour ''null result''), s)
      | Some rs \<Rightarrow>
          (case last_id_loop api rs (length (rs_rows rs) - rs_cursor rs) 0 of
             (r, rs') \<Rightarrow> (r, s\<lparr>srv_result := Some rs'\<rparr>))))"

section \<open>What the connector may throw\<close>

text \<open>
  The connector reports every failure as an \<^verbatim>\<open>sql::SQLException\<close> (its manual documents no
  other): the hypothesis under which the guards of the layer are judged.
\<close>

definition throws_sql :: "('s, 'a) prog \<Rightarrow> bool" where
  "throws_sql m \<longleftrightarrow> (\<forall>s e s'. m s = (Inl e, s') \<longrightarrow> is_sql_exception e)"

definition api_throws_sql :: "'db sql_api \<Rightarrow> bool" where
  "api_throws_sql api \<longleftrightarrow>
     (\<forall>a b c. throws_sql (api_connect api a b c)) \<and> (\<forall>d. throws_sql (api_set_schema api d))
     \<and> throws_sql (api_reconnect api) \<and> (\<forall>q. throws_sql (api_prepare api q))
     \<and> (\<forall>q. throws_sql (api_execute_query api q))"

lemma throws_sqlD: "throws_sql m \<Longrightarrow> m s = (Inl e, s') \<Longrightarrow> is_sql_exception e"
  by (auto simp: throws_sql_def)

lemma on_db_Inl: "on_db m s = (Inl e, s') \<Longrightarrow> \<exists>d. m (srv_db s) = (Inl e, d)"
  by (auto simp: on_db_def split: prod.splits)

lemma on_db_frame:
  "on_db m s = (r, s') \<Longrightarrow>
     srv_env s' = srv_env s \<and> srv_connection s' = srv_connection s \<and> srv_driver s' = srv_driver s
     \<and> srv_pstmt s' = srv_pstmt s \<and> srv_result s' = srv_result s"
  by (auto simp: on_db_def split: prod.splits)

lemma throws_on_db: "throws_sql m \<Longrightarrow> throws_sql (on_db m)"
  by (auto simp: throws_sql_def dest!: on_db_Inl)

text \<open>A successful \<^verbatim>\<open>connect\<close> leaves an open connection; it fails only where the connector does.\<close>

lemma connect_ok:
  assumes "connect api s = (Inr u, s')"
  shows "srv_connection s' \<and> srv_driver s'"
  using assms
  by (auto simp: connect_def prog_simps dest!: on_db_frame split: prod.splits sum.splits if_splits)

lemma connect_throws_sql: "api_throws_sql api \<Longrightarrow> throws_sql (connect api)"
  unfolding throws_sql_def connect_def
  by (auto simp: api_throws_sql_def prog_simps
      dest: throws_sqlD [OF throws_on_db] split: prod.splits sum.splits if_splits)

lemma prepare_ok:
  assumes "prepare api q s = (Inr u, s')"
  shows "srv_pstmt s' = Some q"
  using assms by (auto simp: prepare_def prog_simps split: prod.splits sum.splits if_splits)

lemma prepare_throws_sql:
  assumes "api_throws_sql api" and "srv_connection s" and "prepare api q s = (Inl e, s')"
  shows "is_sql_exception e"
  using assms
  by (auto simp: api_throws_sql_def prepare_def prog_simps
      dest: throws_sqlD [OF throws_on_db] split: prod.splits sum.splits if_splits)

lemma execute_throws_sql:
  assumes "api_throws_sql api" and "srv_pstmt s = Some q" and "execute api s = (Inl e, s')"
  shows "is_sql_exception e"
  using assms
  by (auto simp: api_throws_sql_def execute_def prog_simps
      dest: throws_sqlD [OF throws_on_db] split: prod.splits sum.splits)

lemma execute_ok:
  assumes "execute api s = (Inr u, s')"
  shows "\<exists>rs. srv_result s' = Some rs"
  using assms by (auto simp: execute_def prog_simps split: prod.splits sum.splits option.splits)

section \<open>One row into a map\<close>

text \<open>
  A row as wide as the column list is overlaid on the map: the pairs are put in column order,
  so of two columns with one name the later wins.
\<close>

fun overlay :: "string list \<Rightarrow> string list \<Rightarrow> (string, string) std_map \<Rightarrow> (string, string) std_map" where
  "overlay (f # fs) (v # vs) m = overlay fs vs (map_put f v m)"
| "overlay _ _ m = m"

lemma map_ok_overlay [intro]: "map_ok m \<Longrightarrow> map_ok (overlay fs vs m)"
  by (induction fs vs m rule: overlay.induct) auto

lemma map_of_overlay:
  "length fs = length vs \<Longrightarrow> map_of (overlay fs vs m) = map_of m ++ map_of (rev (zip fs vs))"
  by (induction fs vs m rule: overlay.induct) (auto simp: map_add_def fun_eq_iff split: option.splits)

lemma put_columns_overlay:
  assumes "0 < rs_cursor rs" and "rs_cursor rs \<le> length (rs_rows rs)"
    and "row = rs_rows rs ! (rs_cursor rs - 1)" and "length row = n + length fs"
  shows "put_columns rs (Suc n) fs m = (Inr (), overlay fs (drop n row) m)"
  using assms(4)
proof (induction fs arbitrary: n m)
  case Nil
  then show ?case by (simp add: prog_simps)
next
  case (Cons f fs)
  then have n: "n < length row" by simp
  then have row: "drop n row = row ! n # drop (Suc n) row" by (rule Cons_nth_drop_Suc [symmetric])
  have get: "rs_get_string rs (Suc n) = Inr (row ! n)"
    using assms(1-3) n by (simp add: rs_get_string_def)
  have "put_columns rs (Suc (Suc n)) fs (map_put f (row ! n) m)
        = (Inr (), overlay fs (drop (Suc n) row) (map_put f (row ! n) m))"
    by (rule Cons.IH) (use Cons.prems in simp)
  with get row show ?case by (simp add: prog_simps)
qed

text \<open>A result set the connector hands out: cursor before the first row, rows as wide as the columns.\<close>

definition fresh_rs :: "result_set \<Rightarrow> bool" where
  "fresh_rs rs \<longleftrightarrow> rs_cursor rs = 0 \<and> list_all (\<lambda>row. length row = length (rs_columns rs)) (rs_rows rs)"

lemma get_values_first_row:
  assumes "srv_result s = Some rs" and "fresh_rs rs" and "rs_rows rs = row # rows"
  shows "get_values (fv, s) =
     (Inr (), (overlay (rs_columns rs) row fv, s\<lparr>srv_result := Some (rs\<lparr>rs_cursor := 1\<rparr>)\<rparr>))"
proof -
  have "put_columns (rs\<lparr>rs_cursor := 1\<rparr>) (Suc 0) (rs_columns rs) fv
        = (Inr (), overlay (rs_columns rs) (drop 0 row) fv)"
    by (rule put_columns_overlay [where row = row])
      (use assms in \<open>simp_all add: fresh_rs_def\<close>)
  with assms show ?thesis
    by (simp add: get_values_def rs_next_def fresh_rs_def on_fst_def)
qed

lemma put_columns_ok:
  "put_columns rs i fs m = (r, m') \<Longrightarrow> map_ok m \<Longrightarrow> map_ok m'"
  by (induction fs arbitrary: i m)
    (auto simp: prog_simps split: prod.splits sum.splits intro!: map_ok_put)

lemma get_values_ok:
  "get_values (m, s) = (r, (m', s')) \<Longrightarrow> map_ok m \<Longrightarrow> map_ok m'"
  by (auto simp: get_values_def on_fst_def Let_def dest: put_columns_ok
      split: prod.splits option.splits if_splits)

text \<open>The loop of \<^verbatim>\<open>last_insert_id\<close> ends on the last row: that row's id is the answer.\<close>

lemma last_id_loop_rows:
  "list_all (\<lambda>row. row \<noteq> []) (rs_rows rs) \<Longrightarrow> rs_cursor rs + n = length (rs_rows rs) \<Longrightarrow>
   fst (last_id_loop api rs n v) =
     Inr (if n = 0 then v else api_get_uint64 api (hd (last (rs_rows rs))))"
proof (induction n arbitrary: rs v)
  case 0
  then show ?case by simp
next
  case (Suc n)
  let ?rs = "snd (rs_next rs)"
  have rows: "rs_rows ?rs = rs_rows rs" "rs_cursor ?rs = Suc (rs_cursor rs)"
    by (simp_all add: rs_next_def)
  have mem: "rs_rows rs ! rs_cursor rs \<in> set (rs_rows rs)"
    using Suc.prems(2) by simp
  with Suc.prems(1) have ne: "rs_rows rs ! rs_cursor rs \<noteq> []"
    by (auto simp: list_all_iff)
  have get: "rs_get_string ?rs 1 = Inr (hd (rs_rows rs ! rs_cursor rs))"
    using Suc.prems(2) ne by (simp add: rs_get_string_def rows hd_conv_nth Suc_leI)
  have IH: "fst (last_id_loop api ?rs n w) =
      Inr (if n = 0 then w else api_get_uint64 api (hd (last (rs_rows rs))))" for w
    using Suc.IH [of ?rs w] Suc.prems by (simp add: rows)
  have "n = 0 \<Longrightarrow> rs_rows rs ! rs_cursor rs = last (rs_rows rs)"
    using Suc.prems(2) by (subst last_conv_nth) (auto simp flip: One_nat_def intro!: arg_cong2 [where f = nth])
  then show ?case
    using IH get by (simp add: Let_def del: One_nat_def)
qed

section \<open>A connector for the examples\<close>

text \<open>
  A connector that plays back a list of answers, one for each query; after the last one it
  answers with an empty result. It fails with SQL exceptions only. The hypotheses on the
  connector are tried on it.
\<close>

type_synonym script = "(fault + result_set) list"

definition empty_rs :: result_set where
  "empty_rs = \<lparr>rs_columns = [], rs_rows = [], rs_cursor = 0\<rparr>"

definition table_rs :: "string list \<Rightarrow> string list list \<Rightarrow> result_set" where
  "table_rs cols rows = \<lparr>rs_columns = cols, rs_rows = rows, rs_cursor = 0\<rparr>"

lemma table_rs_fields [simp]:
  "rs_columns (table_rs cols rows) = cols" "rs_rows (table_rs cols rows) = rows"
  "rs_cursor (table_rs cols rows) = 0"
  by (simp_all add: table_rs_def)

fun play :: "string \<Rightarrow> (script, result_set) prog" where
  "play stmt [] = (Inr empty_rs, [])"
| "play stmt (answer # script) = ((case answer of
      Inl e \<Rightarrow> Inl (if is_sql_exception e then e else Sql_exception 0 []) | Inr rs \<Rightarrow> Inr rs), script)"

definition script_api :: "script sql_api" where
  "script_api = \<lparr>api_connect = (\<lambda>_ _ _. return_p ()), api_set_schema = (\<lambda>_. return_p ()),
     api_is_closed = (\<lambda>_. False), api_reconnect = return_p (), api_prepare = (\<lambda>_. return_p ()),
     api_execute_query = play, api_set_savepoint = return_p 1, api_commit = return_p (),
     api_rollback = (\<lambda>_. return_p ()), api_get_uint64 = (\<lambda>_. 1)\<rparr>"

definition script_server :: "script \<Rightarrow> script server" where
  "script_server answers = \<lparr>srv_env = \<lparr>env_server = ''localhost'', env_port = ''3306'',
       env_username = ''u'', env_password = ''p'', env_database = ''football''\<rparr>,
     srv_driver = False, srv_connection = False, srv_pstmt = None, srv_result = None,
     srv_savepoint = None, srv_db = answers\<rparr>"

lemma script_api_throws_sql: "api_throws_sql script_api"
proof -
  have "throws_sql (play q)" for q
    unfolding throws_sql_def
  proof (intro allI impI)
    fix s e s'
    assume "play q s = (Inl e, s')"
    then show "is_sql_exception e" by (cases s) (auto split: sum.splits if_splits)
  qed
  then show ?thesis
    by (simp add: api_throws_sql_def script_api_def throws_sql_def return_p_def)
qed

section \<open>Properties\<close>

definition mysql_keys :: "string list" where
  "mysql_keys = [''server'', ''port'', ''username'', ''password'', ''database'']"

text \<open>
  \<^verbatim>\<open>mysql::init\<close> succeeds exactly when the file can be parsed and its section \<^verbatim>\<open>mysql\<close> has
  all five keys; then the environment holds their values and the server exists. When it throws,
  the server is not created, but the environment already is, with the keys read so far.
\<close>

theorem mysql_init_outcome:
  "case mysql_init parse_file file g of
     (Inr _, g') \<Rightarrow> g_srv g' \<and> (\<exists>cfg. parse_file file = Inr cfg
        \<and> map (cfg ''mysql'') mysql_keys = map Some
            [env_server (the (g_env g')), env_port (the (g_env g')), env_username (the (g_env g')),
             env_password (the (g_env g')), env_database (the (g_env g'))])
   | (Inl e, g') \<Rightarrow> g_srv g' = g_srv g \<and> g_env g' \<noteq> None
        \<and> (parse_file file = Inl e
           \<or> (\<exists>cfg. parse_file file = Inr cfg \<and> e = Bad_optional_access
                \<and> None \<in> set (map (cfg ''mysql'') mysql_keys)))"
  by (cases "parse_file file")
    (auto simp: mysql_init_def prog_simps config_value_def env_update_def mysql_keys_def
      split: option.splits)

end
