(* ===== verification/Mysql_Table.thy ===== *)
theory Mysql_Table
  imports Mysql_Server
begin

text \<open>
  \<^verbatim>\<open>db/mysql.cpp\<close>, second half: the abstract class \<^verbatim>\<open>mysql::table\<close>. A derived class is a
  record that extends \<open>table\<close>; its overrides of the virtual functions are the record
  \<open>vtable\<close> its operations are called with. A member function runs on the pair of the object
  and the shared server.
\<close>

section \<open>The object\<close>

record table =
  tablename :: string
  key_field1 :: string
  key_field2 :: string
  fields_values :: "(string, string) std_map"
  sql_count :: nat
  found_flag :: bool

record ('o, 'db) vtable =
  v_populate :: "('o, unit) prog"
  v_reset :: "('o, unit) prog"
  v_save_related :: "('o \<times> 'db server, bool) prog"

definition table_ctor :: "string \<Rightarrow> string \<Rightarrow> string \<Rightarrow> 'a \<Rightarrow> 'a table_scheme" where
  "table_ctor name field1 field2 members =
     \<lparr>tablename = name, key_field1 = field1, key_field2 = field2,
      fields_values = [], sql_count = 0, found_flag = False, \<dots> = members\<rparr>"

text \<open>The copy constructor copies the row and the flag; the statement counter starts again.\<close>

definition table_copy :: "'a table_scheme \<Rightarrow> 'a table_scheme" where
  "table_copy t = t\<lparr>sql_count := 0\<rparr>"

text \<open>The move constructor: the names are \<^verbatim>\<open>const\<close> and so copied; the source's fields are gone.\<close>

definition table_move :: "'a table_scheme \<Rightarrow> 'a table_scheme \<times> 'a table_scheme" where
  "table_move t = (table_copy t, t\<lparr>fields_values := []\<rparr>)"

section \<open>Statement text\<close>

definition quoted :: "string \<Rightarrow> string" where
  "quoted v = CHR 0x27 # v @ [CHR 0x27]"

definition sql_value :: "string \<Rightarrow> string" where
  "sql_value v = (if v = ''NULL'' then v else quoted v)"

text \<open>
  The loop the three list builders share: append an item, then a separator unless the
  counter has reached the size.
\<close>

fun join_loop ::
    "(string \<times> string \<Rightarrow> string) \<Rightarrow> nat \<Rightarrow> nat \<Rightarrow> (string, string) std_map \<Rightarrow> string \<Rightarrow> string" where
  "join_loop item count n_items [] result = result"
| "join_loop item count n_items (fv # fvs) result =
     join_loop item (Suc count) n_items fvs
       ((result @ item fv) @ (if Suc count < n_items then '', '' else []))"

definition fields :: "'a table_scheme \<Rightarrow> string" where
  "fields t = (if fields_values t = [] then ''*''
     else join_loop fst 0 (length (fields_values t)) (fields_values t) [])"

definition sql_values :: "'a table_scheme \<Rightarrow> string" where
  "sql_values t =
     join_loop (\<lambda>fv. sql_value (snd fv)) 0 (length (fields_values t)) (fields_values t) []"

definition update_values :: "'a table_scheme \<Rightarrow> string" where
  "update_values t =
     join_loop (\<lambda>fv. fst fv @ '' = '' @ sql_value (snd fv)) 0
       (length (fields_values t)) (fields_values t) []"

text \<open>
  \<^verbatim>\<open>fields_values[key]\<close> on an absent key inserts it with the empty string: the function that
  only formats a condition changes the object.
\<close>

definition index_field :: "string \<Rightarrow> ('a table_scheme, string) prog" where
  "index_field k = (\<lambda>t. case map_index k (fields_values t) of
     (v, m) \<Rightarrow> (Inr v, t\<lparr>fields_values := m\<rparr>))"

definition key_and_values :: "('a table_scheme, string) prog" where
  "key_and_values =
     bind_p (gets_p key_field1) (\<lambda>k1.
     bind_p (index_field k1) (\<lambda>v1.
     bind_p (gets_p key_field2) (\<lambda>k2.
     if k2 \<noteq> [] then
       bind_p (index_field k2) (\<lambda>v2.
       return_p ((k1 @ '' = '' @ quoted v1) @ ('' AND '' @ k2 @ '' = '' @ quoted v2)))
     else return_p (k1 @ '' = '' @ quoted v1))))"

definition to_string_loop :: "(string, string) std_map \<Rightarrow> string" where
  "to_string_loop m = foldl (\<lambda>str (field, val). str @ field @ '': '' @ val @ '' '') [] m"

definition table_to_string :: "'a table_scheme \<Rightarrow> string" where
  "table_to_string t =
     ''[tablename: '' @ tablename t @ '', key1: '' @ key_field1 t @ '', key 2: '' @ key_field2 t
       @ '' fields: ('' @ to_string_loop (fields_values t) @ '')]''"

section \<open>Fields of the object\<close>

definition get_field :: "string \<Rightarrow> 'a table_scheme \<Rightarrow> string" where
  "get_field name t = (case map_of (fields_values t) name of Some v \<Rightarrow> v | None \<Rightarrow> [])"

definition get_int :: "string \<Rightarrow> 'a table_scheme \<Rightarrow> fault + 64 word" where
  "get_int name t = (case map_of (fields_values t) name of
      Some v \<Rightarrow> (case stoi v of Inl e \<Rightarrow> Inl e | Inr i \<Rightarrow> Inr (of_int i))
    | None \<Rightarrow> Inr 0)"

definition set_field :: "string \<Rightarrow> string \<Rightarrow> 'a table_scheme \<Rightarrow> 'a table_scheme" where
  "set_field name v t = (if v \<noteq> [] then t\<lparr>fields_values := map_put name v (fields_values t)\<rparr> else t)"

definition set_field_u64 :: "string \<Rightarrow> 64 word \<Rightarrow> 'a table_scheme \<Rightarrow> 'a table_scheme" where
  "set_field_u64 name w t = t\<lparr>fields_values := map_put name (to_string_u64 w) (fields_values t)\<rparr>"

text \<open>\<^verbatim>\<open>id_int\<close>, given what the virtual \<^verbatim>\<open>id()\<close> returns: through an \<^verbatim>\<open>int\<close> into \<^verbatim>\<open>uint64_t\<close>.\<close>

definition id_int_of :: "string \<Rightarrow> fault + 64 word" where
  "id_int_of idd = (if idd = [] then Inr 0
     else case stoi idd of Inl e \<Rightarrow> Inl e | Inr i \<Rightarrow> Inr (of_int i))"

section \<open>Statements\<close>

text \<open>
  The four lines every statement is issued by: \<^verbatim>\<open>srv->connect(); srv->prepare(stmt);
  srv->execute(); ++_sql_count;\<close>
\<close>

definition issue :: "'db sql_api \<Rightarrow> string \<Rightarrow> ('a table_scheme \<times> 'db server, unit) prog" where
  "issue api stmt =
     then_p (on_snd (connect api))
    (then_p (on_snd (prepare api stmt))
    (then_p (on_snd (execute api))
            (on_fst (modify_p (\<lambda>t. t\<lparr>sql_count := Suc (sql_count t)\<rparr>)))))"

text \<open>\<^verbatim>\<open>srv->get_values(fields_values)\<close>: the map handed by reference is the object's.\<close>

definition load_fields :: "('a table_scheme \<times> 'db server, unit) prog" where
  "load_fields = (\<lambda>(t, s). case get_values (fields_values t, s) of
     (r, (m, s')) \<Rightarrow> (r, (t\<lparr>fields_values := m\<rparr>, s')))"

definition select_list :: "'db sql_api \<Rightarrow> string \<Rightarrow> ('a table_scheme \<times> 'db server, bool) prog" where
  "select_list api stmt =
     then_p (issue api stmt)
    (bind_p (on_snd has_rows) (\<lambda>rows.
     then_p (on_fst (modify_p (\<lambda>t. t\<lparr>found_flag := rows\<rparr>)))
            (return_p rows)))"

definition select :: "'db sql_api \<Rightarrow> string \<Rightarrow> ('a table_scheme \<times> 'db server, bool) prog" where
  "select api stmt =
     then_p (issue api stmt)
    (bind_p (on_snd has_rows) (\<lambda>rows.
     then_p (on_fst (modify_p (\<lambda>t. t\<lparr>found_flag := rows\<rparr>)))
            (if rows then then_p load_fields (return_p True) else return_p False)))"

definition start_stmt :: "string \<Rightarrow> string \<Rightarrow> string \<Rightarrow> string \<Rightarrow> string \<Rightarrow> string \<Rightarrow> string" where
  "start_stmt flds tbl field1 value1 field2 value2 =
     ''SELECT '' @ flds @ '' FROM '' @ tbl @ '' WHERE '' @ field1 @ '' = '' @ quoted value1 @ '' ''
     @ (if value2 \<noteq> [] then ''AND '' @ field2 @ '' = '' @ quoted value2 else []) @ '' LIMIT 1;''"

definition start ::
    "'db sql_api \<Rightarrow> string \<Rightarrow> string \<Rightarrow> string \<Rightarrow> string \<Rightarrow> ('a table_scheme \<times> 'db server, bool) prog" where
  "start api field1 value1 field2 value2 =
     (if value1 = [] then return_p False
      else
        bind_p (on_fst (gets_p (\<lambda>t. start_stmt (fields t) (tablename t) field1 value1 field2 value2))) (\<lambda>stmt.
        bind_p (select api stmt) (\<lambda>b.
        if b then return_p True
        else
          then_p (on_fst (modify_p (set_field field1 value1)))
         (then_p (if value2 \<noteq> [] then on_fst (modify_p (set_field field2 value2)) else return_p ())
                 (return_p False)))))"

definition start_list_stmt :: "string \<Rightarrow> string \<Rightarrow> string \<Rightarrow> string \<Rightarrow> string" where
  "start_list_stmt flds tbl field1 value1 =
     ''SELECT '' @ flds @ '' FROM '' @ tbl @ '' WHERE '' @ field1 @ '' = '' @ quoted value1 @ '';''"

definition start_list ::
    "'db sql_api \<Rightarrow> string \<Rightarrow> string \<Rightarrow> ('a table_scheme \<times> 'db server, bool) prog" where
  "start_list api field1 value1 =
     (if value1 = [] then return_p False
      else
        bind_p (on_fst (gets_p (\<lambda>t. start_list_stmt (fields t) (tablename t) field1 value1))) (\<lambda>stmt.
        bind_p (select_list api stmt) (\<lambda>b.
        if b then then_p (on_fst (modify_p (set_field field1 value1))) (return_p True)
        else return_p False)))"

text \<open>
  \<^verbatim>\<open>insert\<close> and \<^verbatim>\<open>update\<close> turn an SQL exception into \<^verbatim>\<open>{false, message}\<close>; the message is
  the connector's, kept as the fault it came from. C++ leaves the order of evaluation of
  \<^verbatim>\<open>update_values()\<close> and \<^verbatim>\<open>key_and_values()\<close> open in \<^verbatim>\<open>update\<close>; the model takes them from left to right.
\<close>

definition insert_stmt :: "'a table_scheme \<Rightarrow> string" where
  "insert_stmt t = ''REPLACE INTO '' @ tablename t @ '' ('' @ fields t @ '') VALUES (''
     @ sql_values t @ '');''"

definition insert_row :: "'db sql_api \<Rightarrow> ('a table_scheme \<times> 'db server, bool \<times> fault option) prog" where
  "insert_row api =
     bind_p (on_fst (gets_p insert_stmt)) (\<lambda>stmt.
     catch_p is_sql_exception
       (then_p (issue api stmt) (return_p (True, None)))
       (\<lambda>e. return_p (False, Some e)))"

definition update_row :: "'db sql_api \<Rightarrow> ('a table_scheme \<times> 'db server, bool \<times> fault option) prog" where
  "update_row api =
     bind_p (on_fst (bind_p (gets_p (\<lambda>t. ''UPDATE '' @ tablename t @ '' SET '' @ update_values t @ '' WHERE ''))
       (\<lambda>pre. bind_p key_and_values (\<lambda>cond. return_p (pre @ cond @ '';''))))) (\<lambda>stmt.
     catch_p is_sql_exception
       (then_p (issue api stmt) (return_p (True, None)))
       (\<lambda>e. return_p (False, Some e)))"

definition must_get_id :: "('a table_scheme, bool) prog" where
  "must_get_id =
     bind_p (gets_p key_field1) (\<lambda>k1.
     if k1 = ''id'' then bind_p (index_field k1) (\<lambda>v. return_p (v = [] \<or> v = ''NULL''))
     else return_p False)"

definition reload :: "'db sql_api \<Rightarrow> ('a table_scheme \<times> 'db server, bool) prog" where
  "reload api =
     bind_p (on_fst must_get_id) (\<lambda>get_id.
     then_p
       (if get_id then
          bind_p (on_fst (gets_p tablename)) (\<lambda>tbl.
          bind_p (on_snd (last_insert_id api tbl)) (\<lambda>last_id.
          on_fst (modify_p (\<lambda>t. set_field_u64 (key_field1 t) last_id t))))
        else return_p ())
      (bind_p (on_fst (gets_p tablename)) (\<lambda>tbl.
       bind_p (on_fst key_and_values) (\<lambda>cond.
       select api (''SELECT * FROM '' @ tbl @ '' WHERE '' @ cond @ '' LIMIT 1;'')))))"

text \<open>
  \<^verbatim>\<open>save\<close>: a standard exception out of \<^verbatim>\<open>populate\<close> and a failed insert make it return false;
  what \<^verbatim>\<open>reload\<close>, \<^verbatim>\<open>reset\<close> and \<^verbatim>\<open>save_related\<close> throw leaves it.
\<close>

definition save :: "'db sql_api \<Rightarrow> ('a table_scheme, 'db) vtable \<Rightarrow> ('a table_scheme \<times> 'db server, bool) prog" where
  "save api vt =
     bind_p (catch_p is_std_exception
              (then_p (on_fst (v_populate vt)) (return_p True))
              (\<lambda>e. return_p False)) (\<lambda>populated.
     if \<not> populated then return_p False
     else
       bind_p (insert_row api) (\<lambda>ins.
       if fst ins then
         bind_p (reload api) (\<lambda>b.
         if b then then_p (on_fst (v_reset vt)) (v_save_related vt)
         else return_p False)
       else return_p False))"

definition remove :: "'db sql_api \<Rightarrow> ('a table_scheme, 'db) vtable \<Rightarrow> ('a table_scheme \<times> 'db server, bool) prog" where
  "remove api vt =
     bind_p (on_fst (gets_p tablename)) (\<lambda>tbl.
     bind_p (on_fst key_and_values) (\<lambda>cond.
     then_p (issue api (''DELETE FROM '' @ tbl @ '' WHERE '' @ cond @ '';''))
    (then_p (on_fst (modify_p (\<lambda>t. t\<lparr>fields_values := []\<rparr>)))
    (then_p (on_fst (v_reset vt)) (return_p True)))))"

section \<open>The statement builders\<close>

text \<open>The counting loop is the items with a separator between every two.\<close>

fun comma_join :: "string list \<Rightarrow> string" where
  "comma_join [] = []"
| "comma_join [x] = x"
| "comma_join (x # y # xs) = x @ '', '' @ comma_join (y # xs)"

lemma join_loop_comma:
  "join_loop item (n_items - length m) n_items m result = result @ comma_join (map item m)"
  if "length m \<le> n_items"
  using that
proof (induction m arbitrary: result)
  case Nil
  then show ?case by simp
next
  case (Cons fv m)
  then have next_count: "Suc (n_items - length (fv # m)) = n_items - length m" by simp
  show ?case
  proof (cases m)
    case Nil
    with Cons.prems show ?thesis by simp
  next
    case (Cons fv' m')
    with Cons.prems have "Suc (n_items - length (fv # m)) < n_items" by simp
    with Cons.IH [of "(result @ item fv) @ '', ''"] Cons.prems next_count Cons show ?thesis
      by simp
  qed
qed

lemma fields_comma:
  "fields t = (if fields_values t = [] then ''*'' else comma_join (map fst (fields_values t)))"
  using join_loop_comma [of "fields_values t" "length (fields_values t)" fst "[]"]
  by (simp add: fields_def)

lemma sql_values_comma:
  "sql_values t = comma_join (map (\<lambda>fv. sql_value (snd fv)) (fields_values t))"
  using join_loop_comma [of "fields_values t" "length (fields_values t)" "\<lambda>fv. sql_value (snd fv)" "[]"]
  by (simp add: sql_values_def)

lemma update_values_comma:
  "update_values t = comma_join (map (\<lambda>fv. fst fv @ '' = '' @ sql_value (snd fv)) (fields_values t))"
  using join_loop_comma [of "fields_values t" "length (fields_values t)"
      "\<lambda>fv. fst fv @ '' = '' @ sql_value (snd fv)" "[]"]
  by (simp add: update_values_def)

section \<open>Fields\<close>

lemma get_set_field:
  "get_field k (set_field k' v t) = (if k = k' \<and> v \<noteq> [] then v else get_field k t)"
  by (simp add: get_field_def set_field_def)

lemma get_set_field_u64:
  "get_field k (set_field_u64 k' w t) = (if k = k' then to_string_u64 w else get_field k t)"
  by (simp add: get_field_def set_field_u64_def)

lemma set_field_ident [simp]:
  "tablename (set_field k v t) = tablename t" "key_field1 (set_field k v t) = key_field1 t"
  "key_field2 (set_field k v t) = key_field2 t" "sql_count (set_field k v t) = sql_count t"
  "found_flag (set_field k v t) = found_flag t"
  by (simp_all add: set_field_def)

lemma set_field_u64_ident [simp]:
  "tablename (set_field_u64 k w t) = tablename t" "key_field1 (set_field_u64 k w t) = key_field1 t"
  "key_field2 (set_field_u64 k w t) = key_field2 t" "sql_count (set_field_u64 k w t) = sql_count t"
  "found_flag (set_field_u64 k w t) = found_flag t"
  by (simp_all add: set_field_u64_def)

lemma map_ok_set_field [intro]: "map_ok (fields_values t) \<Longrightarrow> map_ok (fields_values (set_field k v t))"
  by (auto simp: set_field_def)

lemma map_ok_set_field_u64 [intro]:
  "map_ok (fields_values t) \<Longrightarrow> map_ok (fields_values (set_field_u64 k w t))"
  by (auto simp: set_field_u64_def)

text \<open>An id survives the trip through the text of its field only below two to the thirty-one.\<close>

lemma id_int_of_decimal:
  "id_int_of (decimal n) = (if n < 2 ^ 31 then Inr (of_nat n) else Inl Out_of_range)"
  by (simp add: id_int_of_def stoi_decimal)

section \<open>Frames of the operations\<close>

text \<open>
  \<open>same_object\<close>: what no operation of \<^verbatim>\<open>table\<close> changes of the object (the names are \<^verbatim>\<open>const\<close>
  members), the counter that only grows, and the order invariant of the field map.
\<close>

definition same_object :: "'a table_scheme \<Rightarrow> 'a table_scheme \<Rightarrow> bool" where
  "same_object t t' \<longleftrightarrow>
     tablename t' = tablename t \<and> key_field1 t' = key_field1 t \<and> key_field2 t' = key_field2 t
     \<and> sql_count t \<le> sql_count t'
     \<and> (map_ok (fields_values t) \<longrightarrow> map_ok (fields_values t'))"

definition same_table :: "'a table_scheme \<times> 'db server \<Rightarrow> 'a table_scheme \<times> 'db server \<Rightarrow> bool" where
  "same_table p q \<longleftrightarrow> same_object (fst p) (fst q) \<and> srv_env (snd q) = srv_env (snd p)"

lemma same_object_refl [simp]: "same_object t t"
  by (simp add: same_object_def)

lemma same_object_trans: "same_object t u \<Longrightarrow> same_object u v \<Longrightarrow> same_object t v"
  by (auto simp: same_object_def)

lemma reflp_same_object [simp]: "reflp same_object"
  by (simp add: reflp_def)

lemma transp_same_object [simp]: "transp same_object"
  by (auto intro: transpI same_object_trans)

lemma reflp_same_table [simp]: "reflp same_table"
  by (simp add: reflp_def same_table_def)

lemma transp_same_table [simp]: "transp same_table"
  by (auto intro!: transpI simp: same_table_def intro: same_object_trans)

lemma keeps_fst_same: "keeps same_object m \<Longrightarrow> keeps same_table (on_fst m)"
  by (auto simp: keeps_def same_table_def on_fst_def split: prod.splits)

lemma keeps_snd_same:
  "(\<And>s r s'. m s = (r, s') \<Longrightarrow> srv_env s' = srv_env s) \<Longrightarrow> keeps same_table (on_snd m)"
  by (auto simp: keeps_def same_table_def on_snd_def split: prod.splits)

lemma keeps_modify_object: "(\<And>t. same_object t (f t)) \<Longrightarrow> keeps same_object (modify_p f)"
  by (rule keeps_modify)

text \<open>The server keeps its environment.\<close>

lemma connect_env: "connect api s = (r, s') \<Longrightarrow> srv_env s' = srv_env s"
  by (auto simp: connect_def prog_simps dest!: on_db_frame split: prod.splits sum.splits if_splits)

lemma prepare_env: "prepare api q s = (r, s') \<Longrightarrow> srv_env s' = srv_env s"
  by (auto simp: prepare_def prog_simps dest!: on_db_frame split: prod.splits sum.splits if_splits)

lemma execute_env: "execute api s = (r, s') \<Longrightarrow> srv_env s' = srv_env s"
  by (auto simp: execute_def prog_simps dest!: on_db_frame split: prod.splits sum.splits option.splits)

lemma has_rows_env: "has_rows s = (r, s') \<Longrightarrow> srv_env s' = srv_env s"
  by (auto simp: has_rows_def split: option.splits)

lemma last_insert_id_env: "last_insert_id api tbl s = (r, s') \<Longrightarrow> srv_env s' = srv_env s"
  by (auto simp: last_insert_id_def prog_simps dest!: prepare_env execute_env
      split: prod.splits sum.splits option.splits)

lemma keeps_issue [keeps_intros]: "keeps same_table (issue api q)"
  unfolding issue_def
  by (intro keeps_then transp_same_table keeps_snd_same keeps_fst_same keeps_modify_object)
    (auto simp: same_object_def dest: connect_env prepare_env execute_env)

lemma keeps_has_rows [keeps_intros]: "keeps same_table (on_snd has_rows)"
  by (rule keeps_snd_same) (rule has_rows_env)

lemma get_values_env: "get_values (m, s) = (r, (m', s')) \<Longrightarrow> srv_env s' = srv_env s"
  by (auto simp: get_values_def on_fst_def Let_def split: prod.splits option.splits if_splits)

lemma keeps_load_fields [keeps_intros]: "keeps same_table load_fields"
  by (rule keepsI)
    (auto simp: load_fields_def same_table_def same_object_def
      dest: get_values_env get_values_ok split: prod.splits)

lemma keeps_found [keeps_intros]:
  "keeps same_table (on_fst (modify_p (\<lambda>t. t\<lparr>found_flag := b\<rparr>)))"
  by (intro keeps_fst_same keeps_modify_object) (simp add: same_object_def)

lemma keeps_set_field [keeps_intros]: "keeps same_table (on_fst (modify_p (set_field k v)))"
  by (intro keeps_fst_same keeps_modify_object) (auto simp: same_object_def)

lemma keeps_index_field [keeps_intros]: "keeps same_object (index_field k)"
  by (rule keepsI)
    (auto simp: index_field_def same_object_def split: prod.splits dest: map_index_spec)

lemma keeps_key_and_values [keeps_intros]: "keeps same_object key_and_values"
  unfolding key_and_values_def
  by (intro keeps_intros transp_same_object reflp_same_object)

lemma keeps_gets_fst [keeps_intros]: "keeps same_table (on_fst (gets_p f))"
  by (intro keeps_fst_same keeps_gets reflp_same_object)

lemma keeps_select [keeps_intros]: "keeps same_table (select api q)"
  unfolding select_def
  by (intro keeps_intros transp_same_table reflp_same_table)

lemma keeps_select_list [keeps_intros]: "keeps same_table (select_list api q)"
  unfolding select_list_def
  by (intro keeps_intros transp_same_table reflp_same_table)

lemma keeps_start [keeps_intros]: "keeps same_table (start api f1 v1 f2 v2)"
  unfolding start_def
  by (intro keeps_intros transp_same_table reflp_same_table)

lemma keeps_start_list [keeps_intros]: "keeps same_table (start_list api f1 v1)"
  unfolding start_list_def
  by (intro keeps_intros transp_same_table reflp_same_table)

lemma keeps_insert [keeps_intros]: "keeps same_table (insert_row api)"
  unfolding insert_row_def
  by (intro keeps_intros transp_same_table reflp_same_table)

lemma keeps_update [keeps_intros]: "keeps same_table (update_row api)"
  unfolding update_row_def
  by (intro keeps_bind keeps_catch keeps_then keeps_return keeps_issue keeps_fst_same keeps_gets
      keeps_key_and_values transp_same_table reflp_same_table transp_same_object reflp_same_object)

lemma keeps_must_get_id [keeps_intros]: "keeps same_object must_get_id"
  unfolding must_get_id_def
  by (intro keeps_intros transp_same_object reflp_same_object)

lemma keeps_reload [keeps_intros]: "keeps same_table (reload api)"
  unfolding reload_def
  by (intro keeps_intros transp_same_table reflp_same_table keeps_fst_same keeps_snd_same
      keeps_modify_object keeps_must_get_id keeps_key_and_values)
    (auto simp: same_object_def dest: last_insert_id_env)

section \<open>Properties\<close>

definition quote_free :: "string \<Rightarrow> bool" where
  "quote_free v \<longleftrightarrow> CHR 0x27 \<notin> set v"

lemma split_at_quote:
  "quote_free v \<Longrightarrow> quote_free w \<Longrightarrow> v @ CHR 0x27 # r = w @ CHR 0x27 # r' \<Longrightarrow> v = w \<and> r = r'"
proof (induction v arbitrary: w)
  case Nil
  then show ?case by (cases w) (auto simp: quote_free_def)
next
  case (Cons c v)
  then show ?case by (cases w) (auto simp: quote_free_def)
qed

lemma sql_value_split:
  assumes "quote_free v" and "quote_free w" and "sql_value v @ r = sql_value w @ r'"
  shows "v = w \<and> r = r'"
  using assms split_at_quote [of v w r r']
  by (auto simp: sql_value_def quoted_def split: if_splits)

lemma comma_values_inject:
  "length vs = length ws \<Longrightarrow> list_all quote_free vs \<Longrightarrow> list_all quote_free ws \<Longrightarrow>
   comma_join (map sql_value vs) @ r = comma_join (map sql_value ws) @ r' \<Longrightarrow> vs = ws \<and> (vs = [] \<longrightarrow> r = r')"
proof (induction vs ws arbitrary: r r' rule: list_induct2)
  case (Cons v vs w ws)
  show ?case
  proof (cases vs)
    case Nil
    with Cons sql_value_split [of v w r r'] show ?thesis by simp
  next
    case (Cons v' vs')
    with Cons.hyps obtain w' ws' where ws: "ws = w' # ws'" by (cases ws) auto
    have "sql_value v @ ('', '' @ comma_join (map sql_value vs) @ r)
        = sql_value w @ ('', '' @ comma_join (map sql_value ws) @ r')"
      using Cons.prems(3) Cons ws by simp
    from sql_value_split [OF _ _ this] Cons.prems(1,2)
    have "v = w" "comma_join (map sql_value vs) @ r = comma_join (map sql_value ws) @ r'" by simp_all
    with Cons.IH [of r r'] Cons.prems(1,2) Cons ws show ?thesis by simp
  qed
qed simp

text \<open>
  C24: The insert statement says what the object holds: two objects of one table with the same
  columns and the same statement hold the same values, as long as no value contains a quote
  (a value spelled NULL is told apart, since it is the only one written without quotes).
\<close>

theorem insert_stmt_faithful:
  assumes "tablename t = tablename u"
    and "map fst (fields_values t) = map fst (fields_values u)"
    and "list_all quote_free (map snd (fields_values t))"
    and "list_all quote_free (map snd (fields_values u))"
    and "insert_stmt t = insert_stmt u"
  shows "fields_values t = fields_values u"
proof -
  have "fields t = fields u" using assms(2) by (auto simp: fields_comma)
  with assms(1,5) have "sql_values t @ '');'' = sql_values u @ '');''" by (simp add: insert_stmt_def)
  then have "comma_join (map sql_value (map snd (fields_values t))) @ '');''
      = comma_join (map sql_value (map snd (fields_values u))) @ '');''"
    by (simp add: sql_values_comma o_def)
  moreover have "length (map snd (fields_values t)) = length (map snd (fields_values u))"
    using arg_cong [OF assms(2), of length] by simp
  ultimately have "map snd (fields_values t) = map snd (fields_values u)"
    using comma_values_inject assms(3,4) by blast
  with assms(2) show ?thesis by (metis zip_map_fst_snd)
qed

definition sample_row :: "string \<Rightarrow> string \<Rightarrow> table" where
  "sample_row c n = table_ctor ''clubs'' ''name'' ''country'' ()\<lparr>fields_values := [(''country'', c), (''name'', n)]\<rparr>"

theorem insert_stmt_faithful_witness:
  "insert_stmt (sample_row ''BR'' ''Santos'') \<noteq> insert_stmt (sample_row ''BR'' ''NULL'')"
  using insert_stmt_faithful [of "sample_row ''BR'' ''Santos''" "sample_row ''BR'' ''NULL''"]
  by (auto simp: sample_row_def table_ctor_def quote_free_def)

text \<open>
  An id comes back from the text of its field exactly below two to the thirty-one: \<^verbatim>\<open>id_int\<close>
  and \<^verbatim>\<open>get_int\<close> go through \<^verbatim>\<open>std::stoi\<close>, while the columns are \<^verbatim>\<open>int unsigned\<close> and the setter
  takes 64 bits. Above, the call throws.
\<close>

theorem id_text_roundtrip:
  "(get_int k (set_field_u64 k w t) = Inr w \<longleftrightarrow> unat w < 2 ^ 31)
   \<and> (id_int_of (to_string_u64 w) = (if unat w < 2 ^ 31 then Inr w else Inl Out_of_range))"
  by (simp add: get_int_def set_field_u64_def id_int_of_decimal to_string_u64_def stoi_decimal)

end
