(* ===== verification/Table_Class.thy ===== *)
theory Table_Class
  imports Mysql_Table
begin

text \<open>
  What \<^verbatim>\<open>mysql::table\<close> relies on in the classes derived from it, as the locale
  \<open>table_class\<close>: the overrides touch their own members and the field map only. Inside it,
  once for all classes, the contract of \<^verbatim>\<open>save\<close> and \<^verbatim>\<open>remove\<close>. Before it, how a statement's
  answer reaches the object.
\<close>

section \<open>One statement\<close>

text \<open>The three calls on the shared server that run one statement text.\<close>

definition run_stmt :: "'db sql_api \<Rightarrow> string \<Rightarrow> ('db server, unit) prog" where
  "run_stmt api stmt = then_p (connect api) (then_p (prepare api stmt) (execute api))"

lemma issue_run:
  "issue api q (t, s) = (case run_stmt api q s of
      (Inl e, s') \<Rightarrow> (Inl e, (t, s'))
    | (Inr _, s') \<Rightarrow> (Inr (), (t\<lparr>sql_count := Suc (sql_count t)\<rparr>, s')))"
  by (auto simp: issue_def run_stmt_def prog_simps split: prod.splits sum.splits)

lemma issue_Inr [runs]:
  "issue api q (t, s) = (Inr u, (t', s')) \<longleftrightarrow>
     run_stmt api q s = (Inr (), s') \<and> t' = t\<lparr>sql_count := Suc (sql_count t)\<rparr>"
  by (auto simp: issue_run split: prod.splits sum.splits)

lemma load_fields_Inr [runs]:
  "load_fields (t, s) = (Inr u, (t', s')) \<longleftrightarrow>
     (\<exists>m. get_values (fields_values t, s) = (Inr u, (m, s')) \<and> t' = t\<lparr>fields_values := m\<rparr>)"
  by (auto simp: load_fields_def split: prod.splits)

lemma run_stmt_result:
  assumes "run_stmt api q s = (Inr u, s')"
  shows "\<exists>rs. srv_result s' = Some rs"
  using assms execute_ok by (auto simp: run_stmt_def then_p_def bind_p_Inr)

text \<open>
  No null pointer is followed: the connection is open when the statement is prepared, and
  prepared when it is executed. Whatever goes wrong is an exception of the connector.
\<close>

lemma run_stmt_throws_sql:
  assumes api: "api_throws_sql api" and run: "run_stmt api q s = (Inl e, s')"
  shows "is_sql_exception e"
proof -
  from run consider (con) "connect api s = (Inl e, s')"
    | (prep) u s1 where "connect api s = (Inr u, s1)" and "prepare api q s1 = (Inl e, s')"
    | (exec) u s1 v s2 where "connect api s = (Inr u, s1)" and "prepare api q s1 = (Inr v, s2)"
        and "execute api s2 = (Inl e, s')"
    by (auto simp: run_stmt_def then_p_def bind_p_Inl)
  then show ?thesis
  proof cases
    case con
    with connect_throws_sql [OF api] show ?thesis by (rule throws_sqlD)
  next
    case prep
    then show ?thesis using connect_ok prepare_throws_sql [OF api] by blast
  next
    case exec
    then show ?thesis using prepare_ok execute_throws_sql [OF api] by blast
  qed
qed

lemma select_answer:
  assumes "run_stmt api q s = (Inr u, s')" and "srv_result s' = Some rs" and "fresh_rs rs"
  shows "select api q (t, s) = (case rs_rows rs of
      [] \<Rightarrow> (Inr False, (t\<lparr>sql_count := Suc (sql_count t), found_flag := False\<rparr>, s'))
    | row # _ \<Rightarrow> (Inr True, (t\<lparr>sql_count := Suc (sql_count t), found_flag := True,
          fields_values := overlay (rs_columns rs) row (fields_values t)\<rparr>,
          s'\<lparr>srv_result := Some (rs\<lparr>rs_cursor := 1\<rparr>)\<rparr>)))"
  using assms
  by (auto simp: select_def then_p_def bind_p_def issue_run has_rows_def on_snd_def on_fst_def
      modify_p_def return_p_def load_fields_def get_values_first_row split: list.splits)

lemma select_False_fields:
  "select api q (t, s) = (Inr False, (t', s')) \<Longrightarrow> fields_values t' = fields_values t \<and> \<not> found_flag t'"
  by (auto simp: select_def runs split: if_splits)

lemma select_found:
  "select api q (t, s) = (Inr b, (t', s')) \<Longrightarrow> found_flag t' = b"
  by (auto simp: select_def runs split: if_splits)

lemma select_count:
  "select api q (t, s) = (Inr b, (t', s')) \<Longrightarrow> sql_count t' = Suc (sql_count t)"
  by (auto simp: select_def runs split: if_splits)

lemma insert_row_run:
  "insert_row api (t, s) = (case run_stmt api (insert_stmt t) s of
      (Inl e, s') \<Rightarrow> (if is_sql_exception e then (Inr (False, Some e), (t, s')) else (Inl e, (t, s')))
    | (Inr _, s') \<Rightarrow> (Inr (True, None), (t\<lparr>sql_count := Suc (sql_count t)\<rparr>, s')))"
  by (auto simp: insert_row_def issue_run prog_simps split: prod.splits sum.splits)

lemma start_select:
  assumes "value1 \<noteq> []"
    and "select api (start_stmt (fields t) (tablename t) field1 value1 field2 value2) (t, s) = (Inr b, (t', s'))"
  shows "start api field1 value1 field2 value2 (t, s) = (Inr b,
    (if b then t' else if value2 = [] then set_field field1 value1 t'
     else set_field field2 value2 (set_field field1 value1 t'), s'))"
  using assms by (simp add: start_def prog_simps)

text \<open>
  \<^verbatim>\<open>key_and_values\<close> as a value and an effect: the condition reads the fields, and the keys it
  asks for are in the map afterwards.
\<close>

definition fill_key :: "string \<Rightarrow> 'a table_scheme \<Rightarrow> 'a table_scheme" where
  "fill_key k t = t\<lparr>fields_values := snd (map_index k (fields_values t))\<rparr>"

definition key_fill :: "'a table_scheme \<Rightarrow> 'a table_scheme" where
  "key_fill t = (let t1 = fill_key (key_field1 t) t in
     if key_field2 t \<noteq> [] then fill_key (key_field2 t) t1 else t1)"

definition key_cond :: "'a table_scheme \<Rightarrow> string" where
  "key_cond t = key_field1 t @ '' = '' @ quoted (get_field (key_field1 t) t)
     @ (if key_field2 t \<noteq> []
        then '' AND '' @ key_field2 t @ '' = '' @ quoted (get_field (key_field2 t) t) else [])"

lemma index_field_eq: "index_field k t = (Inr (get_field k t), fill_key k t)"
  by (auto simp: index_field_def fill_key_def map_index_def get_field_def split: option.splits)

lemma fill_key_ident [simp]:
  "tablename (fill_key k t) = tablename t" "key_field1 (fill_key k t) = key_field1 t"
  "key_field2 (fill_key k t) = key_field2 t" "sql_count (fill_key k t) = sql_count t"
  "found_flag (fill_key k t) = found_flag t" "get_field k' (fill_key k t) = get_field k' t"
  by (auto simp: fill_key_def get_field_def map_index_def split: option.splits)

lemma fill_key_present: "map_of (fields_values t) k \<noteq> None \<Longrightarrow> fill_key k t = t"
  by (auto simp: fill_key_def map_index_def)

lemma key_fill_ident [simp]:
  "tablename (key_fill t) = tablename t" "key_field1 (key_fill t) = key_field1 t"
  "key_field2 (key_fill t) = key_field2 t" "sql_count (key_fill t) = sql_count t"
  "found_flag (key_fill t) = found_flag t" "get_field k (key_fill t) = get_field k t"
  by (simp_all add: key_fill_def Let_def)

lemma key_and_values_eq: "key_and_values t = (Inr (key_cond t), key_fill t)"
  by (simp add: key_and_values_def prog_simps index_field_eq key_cond_def key_fill_def)

lemma key_fill_present:
  "map_of (fields_values t) (key_field1 t) \<noteq> None \<Longrightarrow>
   key_field2 t = [] \<or> map_of (fields_values t) (key_field2 t) \<noteq> None \<Longrightarrow> key_fill t = t"
  by (auto simp: key_fill_def Let_def fill_key_present)

definition reload_stmt :: "'a table_scheme \<Rightarrow> string" where
  "reload_stmt t = ''SELECT * FROM '' @ tablename t @ '' WHERE '' @ key_cond t @ '' LIMIT 1;''"

lemma reload_by_key:
  "key_field1 t \<noteq> ''id'' \<Longrightarrow> reload api (t, s) = select api (reload_stmt t) (key_fill t, s)"
  by (simp add: reload_def must_get_id_def prog_simps key_and_values_eq reload_stmt_def)

definition delete_stmt :: "'a table_scheme \<Rightarrow> string" where
  "delete_stmt t = ''DELETE FROM '' @ tablename t @ '' WHERE '' @ key_cond t @ '';''"

text \<open>
  A constructor runs its body on a fresh object; an object whose constructor throws does not
  exist.
\<close>

definition construct :: "'o \<Rightarrow> ('o \<times> 'db server, unit) prog \<Rightarrow> ('db server, 'o) prog" where
  "construct obj body = (\<lambda>s. case body (obj, s) of
      (Inl e, (_, s')) \<Rightarrow> (Inl e, s')
    | (Inr _, (obj', s')) \<Rightarrow> (Inr obj', s'))"

lemma construct_Inr [runs]:
  "construct obj body s = (Inr obj', s') \<longleftrightarrow> body (obj, s) = (Inr (), (obj', s'))"
  by (auto simp: construct_def split: prod.splits sum.splits)

section \<open>The derived classes\<close>

locale table_class =
  fixes vt :: "('a table_scheme, 'db) vtable"
  assumes populate_keeps: "keeps same_object (v_populate vt)"
    and reset_keeps: "keeps same_object (v_reset vt)"
    and reset_fields: "v_reset vt t = (r, t') \<Longrightarrow>
      fields_values t' = fields_values t \<and> found_flag t' = found_flag t \<and> sql_count t' = sql_count t"
    and related_frame: "v_save_related vt (t, s) = (q, (t', s')) \<Longrightarrow> t' = t \<and> srv_env s' = srv_env s"
begin

lemma keeps_related: "keeps same_table (v_save_related vt)"
proof (rule keepsI)
  fix p q p'
  assume run: "v_save_related vt p = (q, p')"
  obtain t s t' s' where "p = (t, s)" and "p' = (t', s')" by (cases p, cases p')
  with run related_frame [of t s q t' s'] show "same_table p p'"
    by (simp add: same_table_def)
qed

text \<open>Names, order of the field map and counter survive \<^verbatim>\<open>save\<close> and \<^verbatim>\<open>remove\<close>, thrown or not.\<close>

lemma save_keeps: "keeps same_table (save api vt)"
  unfolding save_def
  by (intro keeps_bind keeps_then keeps_catch keeps_if keeps_return keeps_insert keeps_reload
      keeps_related keeps_fst_same populate_keeps reset_keeps transp_same_table reflp_same_table)

lemma remove_keeps: "keeps same_table (remove api vt)"
  unfolding remove_def
  by (intro keeps_bind keeps_then keeps_return keeps_issue keeps_fst_same keeps_modify_object
      keeps_gets keeps_key_and_values reset_keeps transp_same_table reflp_same_table reflp_same_object)
    (auto simp: same_object_def)

text \<open>A \<^verbatim>\<open>populate\<close> that throws a standard exception: false, and not one statement issued.\<close>

lemma save_unpopulated:
  assumes "v_populate vt t = (Inl e, t1)" and "is_std_exception e"
  shows "save api vt (t, s) = (Inr False, (t1, s))"
  using assms by (simp add: save_def prog_simps)

text \<open>A rejected insert: false, and the object is as \<^verbatim>\<open>populate\<close> left it.\<close>

lemma save_rejected:
  assumes "v_populate vt t = (Inr u, t1)"
    and "run_stmt api (insert_stmt t1) s = (Inl e, s1)" and "is_sql_exception e"
  shows "save api vt (t, s) = (Inr False, (t1, s1))"
  using assms by (simp add: save_def insert_row_run prog_simps)

lemma save_inserted:
  assumes "v_populate vt t = (Inr u, t1)"
    and "run_stmt api (insert_stmt t1) s = (Inr v, s1)"
    and "reload api (t1\<lparr>sql_count := Suc (sql_count t1)\<rparr>, s1) = (Inr b, (t2, s2))"
  shows "save api vt (t, s) =
     (if b then then_p (on_fst (v_reset vt)) (v_save_related vt) (t2, s2) else (Inr False, (t2, s2)))"
  using assms by (simp add: save_def insert_row_run prog_simps)

lemma save_trueE:
  assumes "save api vt (t, s) = (Inr True, (t', s'))"
  obtains t1 s1 t2 s2 where "v_populate vt t = (Inr (), t1)"
    and "run_stmt api (insert_stmt t1) s = (Inr (), s1)"
    and "reload api (t1\<lparr>sql_count := Suc (sql_count t1)\<rparr>, s1) = (Inr True, (t2, s2))"
    and "v_reset vt t2 = (Inr (), t')"
    and "v_save_related vt (t', s2) = (Inr True, (t', s'))"
proof -
  obtain p t1 where pop: "v_populate vt t = (p, t1)" by (cases "v_populate vt t")
  have "p = Inr ()"
  proof (cases p)
    case (Inl e)
    with assms pop show ?thesis by (simp add: save_def prog_simps split: if_splits)
  qed simp
  with pop have pop: "v_populate vt t = (Inr (), t1)" by simp
  obtain q s1 where ins: "run_stmt api (insert_stmt t1) s = (q, s1)"
    by (cases "run_stmt api (insert_stmt t1) s")
  have "q = Inr ()"
  proof (cases q)
    case (Inl e)
    with assms pop ins show ?thesis
      by (simp add: save_def insert_row_run prog_simps split: if_splits)
  qed simp
  with ins have ins: "run_stmt api (insert_stmt t1) s = (Inr (), s1)" by simp
  obtain r t2 s2 where re: "reload api (t1\<lparr>sql_count := Suc (sql_count t1)\<rparr>, s1) = (r, (t2, s2))"
    by (metis surj_pair)
  have r: "r = Inr True"
  proof (cases r)
    case (Inl e)
    with assms pop ins re show ?thesis by (simp add: save_def insert_row_run prog_simps)
  next
    case (Inr b)
    with assms save_inserted [OF pop ins re [unfolded Inr]] show ?thesis by (cases b) simp_all
  qed
  with assms save_inserted [OF pop ins re [unfolded r]]
  obtain t3 where "v_reset vt t2 = (Inr (), t3)"
    and rel: "v_save_related vt (t3, s2) = (Inr True, (t', s'))"
    by (auto simp: runs)
  moreover from related_frame [OF rel] have "t' = t3" by simp
  ultimately show thesis using that [OF pop ins re [unfolded r]] by simp
qed

lemma reload_found: "reload api (t, s) = (Inr b, (t', s')) \<Longrightarrow> found_flag t' = b"
  unfolding reload_def by (auto simp only: runs split_paired_Ex dest: select_found)

text \<open>
  The whole of \<^verbatim>\<open>save\<close> for a table keyed by other columns than its id, in terms of the two
  answers of the server: the insert's and the reload's.
\<close>

lemma save_reloaded:
  assumes pop: "v_populate vt t = (Inr u, t1)" and key: "key_field1 t1 \<noteq> ''id''"
    and ins: "run_stmt api (insert_stmt t1) s = (Inr v, s1)"
    and sel: "run_stmt api (reload_stmt t1) s1 = (Inr w, s2)"
    and rs: "srv_result s2 = Some rs" "fresh_rs rs" "rs_rows rs = row # rows"
  shows "save api vt (t, s) =
     then_p (on_fst (v_reset vt)) (v_save_related vt)
       ((key_fill t1)\<lparr>sql_count := sql_count t1 + 2, found_flag := True,
          fields_values := overlay (rs_columns rs) row (fields_values (key_fill t1))\<rparr>,
        s2\<lparr>srv_result := Some (rs\<lparr>rs_cursor := 1\<rparr>)\<rparr>)"
proof -
  let ?t = "t1\<lparr>sql_count := Suc (sql_count t1)\<rparr>"
  have same: "key_cond ?t = key_cond t1" "reload_stmt ?t = reload_stmt t1"
    "key_fill ?t = (key_fill t1)\<lparr>sql_count := Suc (sql_count t1)\<rparr>"
    by (simp_all add: key_cond_def reload_stmt_def get_field_def key_fill_def fill_key_def Let_def)
  have re: "reload api (?t, s1) = (Inr True,
      ((key_fill t1)\<lparr>sql_count := sql_count t1 + 2, found_flag := True,
         fields_values := overlay (rs_columns rs) row (fields_values (key_fill t1))\<rparr>,
       s2\<lparr>srv_result := Some (rs\<lparr>rs_cursor := 1\<rparr>)\<rparr>))"
    using key rs(3) by (simp add: reload_by_key same select_answer [OF sel rs(1,2)])
  show ?thesis
    by (simp add: save_inserted [OF pop ins re])
qed

text \<open>A row that is not found again after the insert: false.\<close>

lemma save_not_found:
  assumes pop: "v_populate vt t = (Inr u, t1)" and key: "key_field1 t1 \<noteq> ''id''"
    and ins: "run_stmt api (insert_stmt t1) s = (Inr v, s1)"
    and sel: "run_stmt api (reload_stmt t1) s1 = (Inr w, s2)"
    and rs: "srv_result s2 = Some rs" "fresh_rs rs" "rs_rows rs = []"
  shows "fst (save api vt (t, s)) = Inr False"
proof -
  let ?t = "t1\<lparr>sql_count := Suc (sql_count t1)\<rparr>"
  have same: "reload_stmt ?t = reload_stmt t1"
    by (simp add: key_cond_def reload_stmt_def get_field_def)
  have re: "reload api (?t, s1) = (Inr False,
      ((key_fill ?t)\<lparr>sql_count := sql_count t1 + 2, found_flag := False\<rparr>, s2))"
    using key rs(3) by (simp add: reload_by_key same select_answer [OF sel rs(1,2)])
  show ?thesis
    by (simp add: save_inserted [OF pop ins re])
qed

text \<open>\<^verbatim>\<open>remove\<close> issues one statement, by the fields (not the members) of the object.\<close>

lemma remove_run:
  "remove api vt (t, s) = (case run_stmt api (delete_stmt t) s of
      (Inl e, s') \<Rightarrow> (Inl e, (key_fill t, s'))
    | (Inr _, s') \<Rightarrow> then_p (on_fst (v_reset vt)) (return_p True)
        ((key_fill t)\<lparr>sql_count := Suc (sql_count t), fields_values := []\<rparr>, s'))"
  by (auto simp: remove_def prog_simps key_and_values_eq issue_run delete_stmt_def
      split: prod.splits sum.splits)

text \<open>True means found: the object has been read back from a row.\<close>

lemma save_true_found:
  assumes "save api vt (t, s) = (Inr True, (t', s'))"
  shows "found_flag t'"
  using assms by (rule save_trueE) (auto dest: reload_found reset_fields)

text \<open>
  With a connector that throws SQL exceptions only, \<^verbatim>\<open>save\<close> fails (rather than throws) on
  every insert the database rejects.
\<close>

lemma save_insert_failure:
  assumes "api_throws_sql api" and "v_populate vt t = (Inr u, t1)"
    and "run_stmt api (insert_stmt t1) s = (Inl e, s1)"
  shows "save api vt (t, s) = (Inr False, (t1, s1))"
  using assms save_rejected run_stmt_throws_sql by blast

text \<open>A removed object has no fields left.\<close>

lemma remove_clears:
  assumes "remove api vt (t, s) = (Inr b, (t', s'))"
  shows "b \<and> fields_values t' = []"
  using assms unfolding remove_def
  by (auto simp: runs dest!: reset_fields)

end

section \<open>Properties\<close>

text \<open>
  Running a statement follows no null pointer: with a connector that throws SQL exceptions
  only, the three calls end in an SQL exception or leave the current result set of the statement;
  the prepared statement and the open connection are those of this call.
\<close>

theorem statement_outcome:
  assumes "api_throws_sql api"
  shows "case run_stmt api q s of
      (Inl e, s') \<Rightarrow> is_sql_exception e
    | (Inr _, s') \<Rightarrow> srv_connection s' \<and> srv_pstmt s' = Some q \<and> srv_result s' \<noteq> None"
proof (cases "run_stmt api q s")
  case (Pair r s')
  show ?thesis
  proof (cases r)
    case (Inl e)
    with Pair run_stmt_throws_sql [OF assms] show ?thesis by auto
  next
    case (Inr u)
    with Pair have run: "run_stmt api q s = (Inr u, s')" by simp
    then obtain s1 s2 where "connect api s = (Inr (), s1)" "prepare api q s1 = (Inr (), s2)"
      "execute api s2 = (Inr (), s')" by (auto simp: run_stmt_def runs)
    moreover from this have "srv_connection s1" "srv_pstmt s2 = Some q"
      using connect_ok prepare_ok by blast+
    ultimately have "srv_connection s' \<and> srv_pstmt s' = Some q"
      by (auto simp: prepare_def execute_def prog_simps on_db_def
          split: prod.splits sum.splits option.splits if_splits)
    with run run_stmt_result [OF run] Pair Inr show ?thesis by auto
  qed
qed

theorem statement_outcome_witness:
  "is_sql_exception (projl (fst (run_stmt script_api ''SELECT'' (script_server [Inl Network_exception]))))"
proof -
  have "fst (run_stmt script_api ''SELECT'' (script_server [Inl Network_exception])) = Inl (Sql_exception 0 [])"
    by code_simp
  then obtain s' where "run_stmt script_api ''SELECT'' (script_server [Inl Network_exception])
      = (Inl (Sql_exception 0 []), s')"
    by (cases "run_stmt script_api ''SELECT'' (script_server [Inl Network_exception])") simp
  with statement_outcome [OF script_api_throws_sql, of "''SELECT''" "script_server [Inl Network_exception]"]
  show ?thesis by simp
qed

text \<open>
  C12: How a select fills the object: nothing is found for an empty answer, and the fields stay as
  they are; otherwise the first row is laid over the fields, column by column, the object is
  marked as found, and the cursor stands on that row.
\<close>

theorem select_reads_first_row:
  assumes "run_stmt api q s = (Inr u, s')" and "srv_result s' = Some rs" and "fresh_rs rs"
    and "distinct (rs_columns rs)"
  shows "case rs_rows rs of
      [] \<Rightarrow> \<exists>t'. select api q (t, s) = (Inr False, (t', s')) \<and> \<not> found_flag t'
             \<and> fields_values t' = fields_values t
    | row # _ \<Rightarrow> \<exists>t' s''. select api q (t, s) = (Inr True, (t', s'')) \<and> found_flag t'
             \<and> map_of (fields_values t') = map_of (fields_values t) ++ map_of (zip (rs_columns rs) row)
             \<and> (map_ok (fields_values t) \<longrightarrow> map_ok (fields_values t'))"
proof -
  have "map_of (overlay (rs_columns rs) row m) = map_of m ++ map_of (zip (rs_columns rs) row)"
    if "rs_rows rs = row # rows" for row rows m
  proof -
    have len: "length (rs_columns rs) = length row"
      using that assms(3) by (simp add: fresh_rs_def)
    have "distinct (map fst (zip (rs_columns rs) row))" using assms(4) len by simp
    then have "map_of (rev (zip (rs_columns rs) row)) = map_of (zip (rs_columns rs) row)"
      by (rule map_of_rev_distinct)
    with len show ?thesis by (simp add: map_of_overlay)
  qed
  then show ?thesis
    using select_answer [OF assms(1-3), of t] by (auto split: list.splits)
qed

definition two_rows :: result_set where
  "two_rows = table_rs [''id'', ''name''] [[''7'', ''Serie A''], [''8'', ''Serie B'']]"

theorem select_reads_first_row_witness:
  "\<exists>t' s''. select script_api ''SELECT'' (sample_row ''BR'' ''x'', script_server [Inr two_rows]) = (Inr True, (t', s''))
     \<and> map_of (fields_values t') ''name'' = Some ''Serie A'' \<and> map_of (fields_values t') ''country'' = Some ''BR''"
proof -
  let ?s = "script_server [Inr two_rows]"
  obtain s' where s': "run_stmt script_api ''SELECT'' ?s = (Inr (), s')" "srv_result s' = Some two_rows"
    by (simp add: run_stmt_def connect_def prepare_def execute_def prog_simps on_db_def
        script_api_def script_server_def)
  have "fresh_rs two_rows" "distinct (rs_columns two_rows)"
    by (simp_all add: two_rows_def table_rs_def fresh_rs_def)
  from select_reads_first_row [OF s' this, of "sample_row ''BR'' ''x''"]
  show ?thesis by (auto simp: two_rows_def table_rs_def sample_row_def map_add_def)
qed

end
