(* ===== verification/Championship.thy ===== *)
theory Championship
  imports Table_Class
begin

text \<open>
  \<^verbatim>\<open>classes/championship.hpp\<close>: a championship is a row of \<^verbatim>\<open>championships\<close>, keyed by name.
\<close>

record championship = table +
  cs_id :: string
  cs_name :: string
  cs_country :: string

definition championship_fresh :: "string \<Rightarrow> string \<Rightarrow> string \<Rightarrow> championship" where
  "championship_fresh idd nm ctry =
     table_ctor ''championships'' ''name'' [] (championship.fields idd nm ctry)"

text \<open>\<^verbatim>\<open>championship(name, country)\<close>: a stored row gives the id, and its country wins.\<close>

definition championship_new :: "'db sql_api \<Rightarrow> string \<Rightarrow> string \<Rightarrow> ('db server, championship) prog" where
  "championship_new api championship_name country_code =
     construct (championship_fresh [] championship_name country_code)
      (bind_p (start api ''name'' championship_name [] []) (\<lambda>b.
       if b then on_fst (modify_p (\<lambda>c. c\<lparr>cs_id := get_field ''id'' c, cs_country := get_field ''country'' c\<rparr>))
       else return_p ()))"

definition championship_by_id :: "'db sql_api \<Rightarrow> string \<Rightarrow> ('db server, championship) prog" where
  "championship_by_id api idd =
     construct (championship_fresh idd [] [])
      (bind_p (start api ''id'' idd [] []) (\<lambda>b.
       if b then on_fst (modify_p (\<lambda>c. c\<lparr>cs_name := get_field ''name'' c, cs_country := get_field ''country'' c\<rparr>))
       else return_p ()))"

definition championship_default :: "'db sql_api \<Rightarrow> ('db server, championship) prog" where
  "championship_default api = championship_by_id api []"

definition championship_copy :: "championship \<Rightarrow> championship" where
  "championship_copy other = table_copy other"

text \<open>\<^verbatim>\<open>operator=\<close> assigns the three members only; the field map of the target stays.\<close>

definition championship_assign :: "championship \<Rightarrow> championship \<Rightarrow> championship" where
  "championship_assign this other =
     this\<lparr>cs_id := cs_id other, cs_name := cs_name other, cs_country := cs_country other\<rparr>"

definition championship_equal :: "championship \<Rightarrow> championship \<Rightarrow> bool" where
  "championship_equal this other \<longleftrightarrow>
     cs_id this = cs_id other \<and> cs_name this = cs_name other \<and> cs_country this = cs_country other"

definition championship_set_name :: "string \<Rightarrow> championship \<Rightarrow> championship" where
  "championship_set_name nm c = c\<lparr>cs_name := nm\<rparr>"

definition championship_set_country :: "string \<Rightarrow> championship \<Rightarrow> championship" where
  "championship_set_country ctry c = c\<lparr>cs_country := ctry\<rparr>"

definition championship_empty :: "championship \<Rightarrow> bool" where
  "championship_empty c \<longleftrightarrow> cs_id c = [] \<and> cs_name c = [] \<and> cs_country c = []"

definition championship_populate :: "(championship, unit) prog" where
  "championship_populate =
     then_p (modify_p (\<lambda>c. set_field ''id'' (cs_id c) c))
    (then_p (modify_p (\<lambda>c. set_field ''name'' (cs_name c) c))
            (modify_p (\<lambda>c. set_field ''country'' (cs_country c) c)))"

definition championship_reset :: "(championship, unit) prog" where
  "championship_reset = modify_p (\<lambda>c. c\<lparr>cs_id := get_field ''id'' c,
     cs_name := get_field ''name'' c, cs_country := get_field ''country'' c\<rparr>)"

definition championship_vtable :: "(championship, 'db) vtable" where
  "championship_vtable = \<lparr>v_populate = championship_populate, v_reset = championship_reset,
     v_save_related = return_p True\<rparr>"

interpretation champ: table_class championship_vtable
proof unfold_locales
  show "keeps same_object (v_populate championship_vtable)"
    unfolding championship_vtable_def championship_populate_def vtable.simps
    by (intro keeps_then keeps_modify_object transp_same_object) (auto simp: same_object_def)
  show "keeps same_object (v_reset championship_vtable)"
    unfolding championship_vtable_def championship_reset_def vtable.simps
    by (rule keeps_modify_object) (simp add: same_object_def)
qed (auto simp: championship_vtable_def championship_reset_def prog_simps)

section \<open>The object and its row\<close>

lemma set_field_members [simp]:
  "cs_id (set_field k v c) = cs_id c" "cs_name (set_field k v c) = cs_name c"
  "cs_country (set_field k v c) = cs_country c"
  by (simp_all add: set_field_def)

lemma championship_populate_run:
  "championship_populate c =
     (Inr (), set_field ''country'' (cs_country c) (set_field ''name'' (cs_name c) (set_field ''id'' (cs_id c) c)))"
  by (simp add: championship_populate_def prog_simps)

text \<open>
  What is populated and read back is the object again, except that an empty member falls back
  to what the field map already holds.
\<close>

lemma championship_populate_reset:
  "then_p championship_populate championship_reset c = (Inr (), c') \<Longrightarrow>
     cs_id c' = (if cs_id c = [] then get_field ''id'' c else cs_id c)
     \<and> cs_name c' = (if cs_name c = [] then get_field ''name'' c else cs_name c)
     \<and> cs_country c' = (if cs_country c = [] then get_field ''country'' c else cs_country c)"
  by (auto simp: then_p_def bind_p_Inr championship_populate_run championship_reset_def
      modify_p_def get_set_field)

lemma championship_removed_empty:
  assumes "remove api championship_vtable (c, s) = (Inr b, (c', s'))"
  shows "championship_empty c'"
  using assms unfolding champ.remove_run
  by (auto simp: runs championship_vtable_def championship_reset_def championship_empty_def
      get_field_def split: prod.splits sum.splits)

end
