(* ===== verification/Club.thy ===== *)
theory Club
  imports Table_Class
begin

text \<open>
  \<^verbatim>\<open>classes/club.hpp\<close> with \<^verbatim>\<open>player.hpp\<close>, and \<^verbatim>\<open>classes/club_season.hpp\<close>: a club is a row of
  \<^verbatim>\<open>clubs\<close>, keyed by name and country; a membership of a club in a season is a row of
  \<^verbatim>\<open>clubs_seasons\<close>, keyed by both.
\<close>

section \<open>Clubs\<close>

record player =
  player_name :: string

record club = table +
  cl_id :: string
  cl_name :: string
  cl_country :: string
  cl_players :: "player list"

definition club_fresh :: "string \<Rightarrow> string \<Rightarrow> string \<Rightarrow> club" where
  "club_fresh idd nm ctry =
     table_ctor ''clubs'' ''name'' ''country'' (club.fields idd nm ctry [])"

definition club_new :: "'db sql_api \<Rightarrow> string \<Rightarrow> string \<Rightarrow> ('db server, club) prog" where
  "club_new api club_name country_code =
     construct (club_fresh [] club_name country_code)
      (bind_p (start api ''name'' club_name ''country'' country_code) (\<lambda>b.
       if b then on_fst (modify_p (\<lambda>c. c\<lparr>cl_id := get_field ''id'' c\<rparr>)) else return_p ()))"

definition club_default :: "'db sql_api \<Rightarrow> ('db server, club) prog" where
  "club_default api = club_new api [] []"

definition club_by_id :: "'db sql_api \<Rightarrow> string \<Rightarrow> ('db server, club) prog" where
  "club_by_id api idd =
     construct (club_fresh idd [] [])
      (bind_p (start api ''id'' idd [] []) (\<lambda>b.
       if b then on_fst (modify_p (\<lambda>c. c\<lparr>cl_name := get_field ''name'' c, cl_country := get_field ''country'' c\<rparr>))
       else return_p ()))"

text \<open>
  The copy constructor leaves the players behind; the move constructor copies the table part
  (\<^verbatim>\<open>table(other)\<close> of an lvalue), takes the members, and leaves the source with empty ones.
\<close>

definition club_copy :: "club \<Rightarrow> club" where
  "club_copy other = (table_copy other)\<lparr>cl_players := []\<rparr>"

definition club_moved_from :: "club \<Rightarrow> club" where
  "club_moved_from other = other\<lparr>cl_id := [], cl_name := [], cl_country := [], cl_players := []\<rparr>"

definition club_move :: "club \<Rightarrow> club \<times> club" where
  "club_move other = (table_copy other, club_moved_from other)"

text \<open>The move assignment moves the four members; the table part of the target stays.\<close>

definition club_move_assign :: "club \<Rightarrow> club \<Rightarrow> club \<times> club" where
  "club_move_assign this other =
     (this\<lparr>cl_id := cl_id other, cl_name := cl_name other, cl_country := cl_country other,
           cl_players := cl_players other\<rparr>, club_moved_from other)"

definition club_equal :: "club \<Rightarrow> club \<Rightarrow> bool" where
  "club_equal this other \<longleftrightarrow>
     cl_id this = cl_id other \<and> cl_name this = cl_name other \<and> cl_country this = cl_country other"

definition club_set_name :: "string \<Rightarrow> club \<Rightarrow> club" where
  "club_set_name nm c = c\<lparr>cl_name := nm\<rparr>"

definition club_set_country :: "string \<Rightarrow> club \<Rightarrow> club" where
  "club_set_country ctry c = c\<lparr>cl_country := ctry\<rparr>"

definition club_empty :: "club \<Rightarrow> bool" where
  "club_empty c \<longleftrightarrow> cl_id c = [] \<and> cl_name c = [] \<and> cl_country c = [] \<and> cl_players c = []"

definition club_populate :: "(club, unit) prog" where
  "club_populate =
     then_p (modify_p (\<lambda>c. set_field ''id'' (cl_id c) c))
    (then_p (modify_p (\<lambda>c. set_field ''name'' (cl_name c) c))
            (modify_p (\<lambda>c. set_field ''country'' (cl_country c) c)))"

definition club_reset :: "(club, unit) prog" where
  "club_reset = modify_p (\<lambda>c. c\<lparr>cl_id := get_field ''id'' c,
     cl_name := get_field ''name'' c, cl_country := get_field ''country'' c\<rparr>)"

definition club_vtable :: "(club, 'db) vtable" where
  "club_vtable = \<lparr>v_populate = club_populate, v_reset = club_reset, v_save_related = return_p True\<rparr>"

interpretation clubs: table_class club_vtable
proof unfold_locales
  show "keeps same_object (v_populate club_vtable)"
    unfolding club_vtable_def club_populate_def vtable.simps
    by (intro keeps_then keeps_modify_object transp_same_object) (auto simp: same_object_def)
  show "keeps same_object (v_reset club_vtable)"
    unfolding club_vtable_def club_reset_def vtable.simps
    by (rule keeps_modify_object) (simp add: same_object_def)
qed (auto simp: club_vtable_def club_reset_def prog_simps)

lemma set_field_club [simp]:
  "cl_id (set_field k v c) = cl_id c" "cl_name (set_field k v c) = cl_name c"
  "cl_country (set_field k v c) = cl_country c" "cl_players (set_field k v c) = cl_players c"
  by (simp_all add: set_field_def)

lemma key_fill_club [simp]:
  "cl_id (key_fill c) = cl_id c" "cl_name (key_fill c) = cl_name c"
  "cl_country (key_fill c) = cl_country c" "cl_players (key_fill c) = cl_players c"
  by (simp_all add: key_fill_def fill_key_def Let_def)

lemma club_populate_run:
  "club_populate c =
     (Inr (), set_field ''country'' (cl_country c) (set_field ''name'' (cl_name c) (set_field ''id'' (cl_id c) c)))"
  by (simp add: club_populate_def prog_simps)

text \<open>The members agree with the row the object was read from, where both say something.\<close>

definition club_synced :: "club \<Rightarrow> bool" where
  "club_synced c \<longleftrightarrow> get_field ''name'' c = cl_name c \<and> get_field ''country'' c = cl_country c
     \<and> key_field1 c = ''name'' \<and> key_field2 c = ''country''"

lemma club_synced_cond:
  "club_synced c \<Longrightarrow>
     key_cond c = ''name = '' @ quoted (cl_name c) @ '' AND country = '' @ quoted (cl_country c)"
  by (simp add: club_synced_def key_cond_def)

section \<open>Membership rows\<close>

record club_season = table +
  csn_club_id :: string
  csn_season_id :: string

definition club_season_populate :: "(club_season, unit) prog" where
  "club_season_populate =
     then_p (modify_p (\<lambda>c. set_field ''club'' (csn_club_id c) c))
            (modify_p (\<lambda>c. set_field ''season'' (csn_season_id c) c))"

definition club_season_reset :: "(club_season, unit) prog" where
  "club_season_reset = modify_p (\<lambda>c. c\<lparr>csn_club_id := get_field ''club'' c,
     csn_season_id := get_field ''season'' c\<rparr>)"

definition club_season_new :: "string \<Rightarrow> string \<Rightarrow> club_season" where
  "club_season_new club_id season_id =
     snd (club_season_populate
       (table_ctor ''clubs_seasons'' ''club'' ''season'' (club_season.fields club_id season_id)))"

definition club_season_list :: "'db sql_api \<Rightarrow> string \<Rightarrow> ('db server, club_season) prog" where
  "club_season_list api season_id =
     construct (table_ctor ''clubs_seasons'' ''season'' [] (club_season.fields [] season_id))
      (then_p (start_list api ''season'' season_id) (return_p ()))"

definition club_season_empty :: "club_season \<Rightarrow> bool" where
  "club_season_empty c \<longleftrightarrow> csn_club_id c = [] \<and> csn_season_id c = []"

definition club_season_vtable :: "(club_season, 'db) vtable" where
  "club_season_vtable = \<lparr>v_populate = club_season_populate, v_reset = club_season_reset,
     v_save_related = return_p True\<rparr>"

interpretation membership: table_class club_season_vtable
proof unfold_locales
  show "keeps same_object (v_populate club_season_vtable)"
    unfolding club_season_vtable_def club_season_populate_def vtable.simps
    by (intro keeps_then keeps_modify_object transp_same_object) (auto simp: same_object_def)
  show "keeps same_object (v_reset club_season_vtable)"
    unfolding club_season_vtable_def club_season_reset_def vtable.simps
    by (rule keeps_modify_object) (simp add: same_object_def)
qed (auto simp: club_season_vtable_def club_season_reset_def prog_simps)

lemma set_field_membership [simp]:
  "csn_club_id (set_field k v c) = csn_club_id c" "csn_season_id (set_field k v c) = csn_season_id c"
  by (simp_all add: set_field_def)

lemma club_season_new_fields:
  "get_field ''club'' (club_season_new cid sid) = cid"
  "get_field ''season'' (club_season_new cid sid) = sid"
  "key_field1 (club_season_new cid sid) = ''club''" "key_field2 (club_season_new cid sid) = ''season''"
  "tablename (club_season_new cid sid) = ''clubs_seasons''"
  by (simp_all add: club_season_new_def club_season_populate_def prog_simps get_set_field
      table_ctor_def club_season.defs get_field_def [where t = "table.extend _ _"])
    (simp_all add: get_field_def)

end
