(* ===== verification/Season.thy ===== *)
theory Season
  imports Championship Club
begin

text \<open>
  \<^verbatim>\<open>classes/season.hpp\<close>: a season of a championship and the clubs that play in it. The class
  holds its championship by reference, so a season refers to an address, read through the
  store of the championships alive at the time of the call; \<open>None\<close> stands for the reference
  that the constructor \<^verbatim>\<open>season(id)\<close> binds to a temporary, dead once the constructor is left.
\<close>

type_synonym championship_store = "nat \<Rightarrow> championship option"

record season = table +
  ss_id :: string
  ss_championship :: "nat option"
  ss_year :: string
  ss_clubs :: "club list"
  ss_spots :: "8 word"

definition season_championship :: "championship_store \<Rightarrow> season \<Rightarrow> fault + championship" where
  "season_championship heap ss = (case ss_championship ss of
      None \<Rightarrow> Inl (Undefined_behaviour ''dangling championship'')
    | Some a \<Rightarrow> (case heap a of
          None \<Rightarrow> Inl (Undefined_behaviour ''dangling championship'')
        | Some c \<Rightarrow> Inr c))"

definition season_fresh :: "string \<Rightarrow> nat option \<Rightarrow> string \<Rightarrow> season" where
  "season_fresh idd ref yr =
     table_ctor ''seasons'' ''championship'' ''year'' (season.fields idd ref yr [] 0)"

section \<open>Related rows\<close>

text \<open>\<^verbatim>\<open>while (cs.next()) ids.push_back(cs.get_value("club"));\<close> on the shared result set.\<close>

definition rows_left :: "'db server \<Rightarrow> nat" where
  "rows_left s = (case srv_result s of None \<Rightarrow> 0 | Some rs \<Rightarrow> length (rs_rows rs) - rs_cursor rs)"

lemma srv_next_left: "srv_next s = (Inr True, s') \<Longrightarrow> rows_left s' < rows_left s"
  by (auto simp: srv_next_def rows_left_def rs_next_def split: option.splits)

function collect_ids :: "'db server \<Rightarrow> string list \<Rightarrow> (fault + string list) \<times> 'db server" where
  "collect_ids s ids = (case srv_next s of
      (Inl e, s') \<Rightarrow> (Inl e, s')
    | (Inr has_row, s') \<Rightarrow>
        (if has_row then
           (case srv_get_value ''club'' s' of
              Inl e \<Rightarrow> (Inl e, s')
            | Inr club_id \<Rightarrow> collect_ids s' (ids @ [club_id]))
         else (Inr ids, s')))"
  by pat_completeness auto
termination
  by (relation "measure (\<lambda>(s, ids). rows_left s)") (auto dest: srv_next_left [OF sym])

declare collect_ids.simps [simp del]

fun emplace_clubs :: "'db sql_api \<Rightarrow> string list \<Rightarrow> (season \<times> 'db server, unit) prog" where
  "emplace_clubs api [] = return_p ()"
| "emplace_clubs api (club_id # ids) =
     bind_p (on_snd (club_by_id api club_id)) (\<lambda>c.
     then_p (on_fst (modify_p (\<lambda>ss. ss\<lparr>ss_clubs := ss_clubs ss @ [c]\<rparr>)))
            (emplace_clubs api ids))"

definition season_start_related :: "'db sql_api \<Rightarrow> (season \<times> 'db server, unit) prog" where
  "season_start_related api =
     bind_p (on_fst (gets_p ss_id)) (\<lambda>idd.
     bind_p (on_snd (club_season_list api idd)) (\<lambda>cs.
     bind_p (on_snd (\<lambda>s. collect_ids s [])) (\<lambda>ids.
     emplace_clubs api ids)))"

definition save_new :: "'db sql_api \<Rightarrow> ('a table_scheme, 'db) vtable \<Rightarrow> 'a table_scheme \<Rightarrow> ('db server, bool) prog" where
  "save_new api vt obj = (\<lambda>s. case save api vt (obj, s) of (r, (_, s')) \<Rightarrow> (r, s'))"

text \<open>Every club's membership is saved; \<^verbatim>\<open>result\<close> is assigned in each turn.\<close>

fun save_related_loop :: "'db sql_api \<Rightarrow> string \<Rightarrow> club list \<Rightarrow> bool \<Rightarrow> ('db server, bool) prog" where
  "save_related_loop api sid [] result = return_p result"
| "save_related_loop api sid (c # cs) result =
     bind_p (save_new api club_season_vtable (club_season_new (cl_id c) sid)) (\<lambda>r.
     save_related_loop api sid cs r)"

definition season_save_related :: "'db sql_api \<Rightarrow> (season \<times> 'db server, bool) prog" where
  "season_save_related api =
     bind_p (on_fst (gets_p id)) (\<lambda>ss.
     on_snd (save_related_loop api (ss_id ss) (ss_clubs ss) True))"

section \<open>Constructors\<close>

text \<open>The common body: a found row gives id and year, and the related rows are read.\<close>

definition season_loaded :: "'db sql_api \<Rightarrow> bool \<Rightarrow> (season \<times> 'db server, unit) prog" where
  "season_loaded api b =
     (if b then
        then_p (on_fst (modify_p (\<lambda>ss. ss\<lparr>ss_id := get_field ''id'' ss, ss_year := get_field ''year'' ss\<rparr>)))
               (season_start_related api)
      else return_p ())"

definition season_new ::
    "'db sql_api \<Rightarrow> championship_store \<Rightarrow> nat \<Rightarrow> string \<Rightarrow> ('db server, season) prog" where
  "season_new api heap ref yr =
     construct (season_fresh [] (Some ref) yr)
      (bind_p (on_fst (gets_p (season_championship heap))) (\<lambda>rc.
       bind_p (lift_p rc) (\<lambda>champ.
       bind_p (start api ''championship'' (cs_id champ) ''year'' yr) (season_loaded api))))"

definition season_new_ptr ::
    "'db sql_api \<Rightarrow> championship_store \<Rightarrow> nat option \<Rightarrow> string \<Rightarrow> ('db server, season) prog" where
  "season_new_ptr api heap p yr = (case p of
      None \<Rightarrow> throw_p (Undefined_behaviour ''null championship'')
    | Some ref \<Rightarrow> season_new api heap ref yr)"

definition season_by_id :: "'db sql_api \<Rightarrow> string \<Rightarrow> nat \<Rightarrow> ('db server, season) prog" where
  "season_by_id api idd ref =
     construct (season_fresh idd (Some ref) [])
      (bind_p (start api ''id'' idd [] []) (season_loaded api))"

text \<open>
  \<^verbatim>\<open>season(id)\<close> first makes the temporary \<^verbatim>\<open>championship{}\<close>, which asks the database nothing.
\<close>

definition season_by_id_only :: "'db sql_api \<Rightarrow> string \<Rightarrow> ('db server, season) prog" where
  "season_by_id_only api idd =
     bind_p (championship_default api) (\<lambda>_.
     construct (season_fresh idd None [])
      (bind_p (start api ''id'' idd [] []) (season_loaded api)))"

section \<open>The clubs of a season\<close>

fun find_club :: "string \<Rightarrow> string \<Rightarrow> club list \<Rightarrow> nat option" where
  "find_club nm ctry [] = None"
| "find_club nm ctry (c # cs) =
     (if cl_name c = nm \<and> cl_country c = ctry then Some 0 else map_option Suc (find_club nm ctry cs))"

definition season_add_club :: "club \<Rightarrow> season \<Rightarrow> season" where
  "season_add_club cl ss = (case find_club (cl_name cl) (cl_country cl) (ss_clubs ss) of
      None \<Rightarrow> ss\<lparr>ss_clubs := ss_clubs ss @ [club_copy cl]\<rparr>
    | Some _ \<Rightarrow> ss)"

definition season_add_club_ptr :: "club option \<Rightarrow> season \<Rightarrow> fault + season" where
  "season_add_club_ptr cl ss = (case cl of
      None \<Rightarrow> Inl (Undefined_behaviour ''null club'')
    | Some c \<Rightarrow> Inr (season_add_club c ss))"

definition season_club_at :: "nat \<Rightarrow> season \<Rightarrow> fault + club" where
  "season_club_at i ss =
     (if i < length (ss_clubs ss) then Inr (ss_clubs ss ! i) else Inl Out_of_range)"

definition season_club_count :: "season \<Rightarrow> nat" where
  "season_club_count ss = length (ss_clubs ss)"

text \<open>
  \<^verbatim>\<open>vector::erase\<close> closes the gap by move-assigning every later element to its predecessor.
\<close>

fun shift_left :: "club list \<Rightarrow> club list" where
  "shift_left [] = []"
| "shift_left [c] = []"
| "shift_left (c # d # cs) = (case club_move_assign c d of (c', d') \<Rightarrow> c' # shift_left (d' # cs))"

definition erase_club :: "nat \<Rightarrow> club list \<Rightarrow> club list" where
  "erase_club i cs = take i cs @ shift_left (drop i cs)"

definition season_remove_club :: "club \<Rightarrow> season \<Rightarrow> bool \<times> season" where
  "season_remove_club cl ss = (case find_club (cl_name cl) (cl_country cl) (ss_clubs ss) of
      Some i \<Rightarrow> (True, ss\<lparr>ss_clubs := erase_club i (ss_clubs ss)\<rparr>)
    | None \<Rightarrow> (False, ss))"

definition season_empty :: "season \<Rightarrow> bool" where
  "season_empty ss \<longleftrightarrow> ss_id ss = [] \<and> ss_year ss = [] \<and> ss_clubs ss = []"

section \<open>Virtual functions\<close>

definition season_populate :: "championship_store \<Rightarrow> (season, unit) prog" where
  "season_populate heap =
     then_p (modify_p (\<lambda>ss. set_field ''id'' (ss_id ss) ss))
    (bind_p (gets_p (season_championship heap)) (\<lambda>rc.
     bind_p (lift_p rc) (\<lambda>champ.
     then_p (modify_p (set_field ''championship'' (cs_id champ)))
            (modify_p (\<lambda>ss. set_field ''year'' (ss_year ss) ss)))))"

definition season_reset :: "(season, unit) prog" where
  "season_reset = modify_p (\<lambda>ss. ss\<lparr>ss_id := get_field ''id'' ss, ss_year := get_field ''year'' ss\<rparr>)"

definition season_vtable :: "'db sql_api \<Rightarrow> championship_store \<Rightarrow> (season, 'db) vtable" where
  "season_vtable api heap = \<lparr>v_populate = season_populate heap, v_reset = season_reset,
     v_save_related = season_save_related api\<rparr>"

lemma set_field_season [simp]:
  "ss_id (set_field k v ss) = ss_id ss" "ss_championship (set_field k v ss) = ss_championship ss"
  "ss_year (set_field k v ss) = ss_year ss" "ss_clubs (set_field k v ss) = ss_clubs ss"
  by (simp_all add: set_field_def)

lemma save_new_env:
  assumes "table_class vt" and "save_new api vt obj s = (r, s')"
  shows "srv_env s' = srv_env s"
  using assms table_class.save_keeps [OF assms(1), of api]
  by (auto simp: save_new_def same_table_def dest: keepsD split: prod.splits)

lemma save_related_loop_env:
  "save_related_loop api sid cs r s = (q, s') \<Longrightarrow> srv_env s' = srv_env s"
proof (induction cs arbitrary: r s)
  case Nil
  then show ?case by (simp add: prog_simps)
next
  case (Cons c cs)
  obtain p s1 where step: "save_new api club_season_vtable (club_season_new (cl_id c) sid) s = (p, s1)"
    by (cases "save_new api club_season_vtable (club_season_new (cl_id c) sid) s")
  have "srv_env s1 = srv_env s"
    using save_new_env [OF membership.table_class_axioms step] .
  with Cons step show ?case by (cases p) (auto simp: bind_p_def)
qed

text \<open>
  The class contract holds for seasons too, whatever the championship reference denotes.
\<close>

lemma season_table_class: "table_class (season_vtable api heap)"
proof unfold_locales
  show "keeps same_object (v_populate (season_vtable api heap))"
    unfolding season_vtable_def season_populate_def vtable.simps
    by (intro keeps_then keeps_bind keeps_gets keeps_lift keeps_modify_object transp_same_object
        reflp_same_object) (auto simp: same_object_def)
  show "keeps same_object (v_reset (season_vtable api heap))"
    unfolding season_vtable_def season_reset_def vtable.simps
    by (rule keeps_modify_object) (simp add: same_object_def)
qed (auto simp: season_vtable_def season_reset_def season_save_related_def prog_simps
    dest: save_related_loop_env split: prod.splits)

interpretation seasons: table_class "season_vtable api heap" for api heap
  by (rule season_table_class)

section \<open>The club list as a set of names\<close>

definition club_key :: "club \<Rightarrow> string \<times> string" where
  "club_key c = (cl_name c, cl_country c)"

definition club_keys :: "season \<Rightarrow> (string \<times> string) list" where
  "club_keys ss = map club_key (ss_clubs ss)"

lemma club_key_copy [simp]: "club_key (club_copy c) = club_key c"
  by (simp add: club_key_def club_copy_def table_copy_def)

lemma find_club_None:
  "find_club nm ctry cs = None \<longleftrightarrow> (nm, ctry) \<notin> club_key ` set cs"
  by (induction cs) (auto simp: club_key_def)

lemma find_club_Some:
  "find_club nm ctry cs = Some i \<Longrightarrow>
     i < length cs \<and> club_key (cs ! i) = (nm, ctry) \<and> (nm, ctry) \<notin> club_key ` set (take i cs)"
proof (induction cs arbitrary: i)
  case (Cons c cs)
  then show ?case by (auto simp: club_key_def split: if_splits)
qed simp

lemma shift_left_keys: "map club_key (shift_left cs) = map club_key (drop 1 cs)"
proof (induction cs rule: shift_left.induct)
  case (3 c d cs)
  let ?d = "club_moved_from d"
  show ?case
    using "3.IH" by (simp add: club_move_assign_def club_key_def)
qed simp_all

lemma length_shift_left [simp]: "length (shift_left cs) = length cs - 1"
  using shift_left_keys [of cs] by (metis length_drop length_map)

lemma remove1_take_drop:
  "i < length ks \<Longrightarrow> k = ks ! i \<Longrightarrow> k \<notin> set (take i ks) \<Longrightarrow>
     remove1 k ks = take i ks @ drop (Suc i) ks"
  by (subst (1) id_take_nth_drop [of i ks]) (simp_all add: remove1_append)

lemma erase_club_keys:
  "i < length cs \<Longrightarrow> map club_key (erase_club i cs) = take i (map club_key cs) @ drop (Suc i) (map club_key cs)"
  by (simp add: erase_club_def shift_left_keys take_map drop_map)

lemma add_club_keys:
  "club_keys (season_add_club cl ss) =
     (if club_key cl \<in> set (club_keys ss) then club_keys ss else club_keys ss @ [club_key cl])"
  using find_club_None [of "cl_name cl" "cl_country cl" "ss_clubs ss"]
  by (auto simp: season_add_club_def club_keys_def club_key_def split: option.splits
      dest: find_club_Some) (simp_all add: club_copy_def table_copy_def)

lemma remove_club_keys:
  assumes "season_remove_club cl ss = (b, ss')"
  shows "b = (club_key cl \<in> set (club_keys ss)) \<and> club_keys ss' = remove1 (club_key cl) (club_keys ss)"
proof (cases "find_club (cl_name cl) (cl_country cl) (ss_clubs ss)")
  case None
  then have "club_key cl \<notin> set (club_keys ss)"
    by (simp add: find_club_None club_keys_def club_key_def image_iff)
  with None assms show ?thesis by (simp add: season_remove_club_def remove1_idem)
next
  case (Some i)
  from find_club_Some [OF this]
  have i: "i < length (ss_clubs ss)" and key: "club_key (ss_clubs ss ! i) = club_key cl"
    and before: "club_key cl \<notin> club_key ` set (take i (ss_clubs ss))"
    by (simp_all add: club_key_def)
  have mem: "club_key cl \<in> set (club_keys ss)"
    using i key by (auto simp: club_keys_def intro!: image_eqI [of _ _ "ss_clubs ss ! i"])
  have "club_keys ss' = map club_key (erase_club i (ss_clubs ss))"
    using assms Some by (auto simp: season_remove_club_def club_keys_def)
  also have "\<dots> = remove1 (club_key cl) (club_keys ss)"
    unfolding erase_club_keys [OF i] club_keys_def
    by (rule remove1_take_drop [symmetric]) (use i key before in \<open>auto simp: take_map\<close>)
  finally show ?thesis using assms Some mem by (auto simp: season_remove_club_def)
qed

section \<open>Properties\<close>

text \<open>
  C13: The clubs of a season are a set of (name, country) pairs kept in order of arrival: adding
  inserts the pair unless it is there, removing deletes it and tells whether it was there, and
  no pair ever occurs twice. (The implementation is a vector searched from the front and closed
  by move assignments.)
\<close>

theorem season_clubs_refine_set:
  assumes "distinct (club_keys ss)"
  shows "distinct (club_keys (season_add_club cl ss))
    \<and> set (club_keys (season_add_club cl ss)) = insert (club_key cl) (set (club_keys ss))
    \<and> (case season_remove_club cl ss of (b, ss') \<Rightarrow>
         (b \<longleftrightarrow> club_key cl \<in> set (club_keys ss))
         \<and> distinct (club_keys ss')
         \<and> set (club_keys ss') = set (club_keys ss) - {club_key cl}
         \<and> season_club_count ss' = season_club_count ss - (if b then 1 else 0))"
proof -
  obtain b ss' where rem: "season_remove_club cl ss = (b, ss')" by (cases "season_remove_club cl ss")
  from remove_club_keys [OF rem]
  have b: "b = (club_key cl \<in> set (club_keys ss))"
    and keys: "club_keys ss' = remove1 (club_key cl) (club_keys ss)" by simp_all
  have "season_club_count ss' = season_club_count ss - (if b then 1 else 0)"
    using arg_cong [OF keys, of length] b
    by (simp add: season_club_count_def club_keys_def length_remove1)
  with assms rem b keys show ?thesis by (auto simp: add_club_keys)
qed

definition sample_club :: "string \<Rightarrow> string \<Rightarrow> club" where
  "sample_club idd nm = (club_fresh idd nm ''BR'')\<lparr>fields_values :=
     [(''country'', ''BR''), (''id'', idd), (''name'', nm)]\<rparr>"

definition sample_season :: season where
  "sample_season = (season_fresh ''5'' (Some 0) ''2023'')\<lparr>ss_clubs :=
     [sample_club ''1'' ''Santos'', sample_club ''2'' ''Bahia'']\<rparr>"

lemmas sample_season_defs = sample_season_def sample_club_def season_fresh_def club_fresh_def
  table_ctor_def season.defs club.defs

theorem season_clubs_refine_set_witness:
  "fst (season_remove_club (sample_club ''9'' ''Bahia'') sample_season)"
  using season_clubs_refine_set [of sample_season "sample_club ''9'' ''Bahia''"]
  by (auto simp: sample_season_defs club_keys_def club_key_def split: prod.splits)

text \<open>
  C16: The vector closes the gap of a removed club by move assignments, and these move the members
  of a club but not its table part: the club that moves up carries the fields of the club it
  replaces. Removing it from the database, through a copy, then deletes the row of the other one.
\<close>

theorem removed_club_leaves_fields:
  assumes "ss_clubs ss = pre @ c # d # rest" and "club_key c \<notin> club_key ` set pre"
    and "season_remove_club c ss = (b, ss')"
  shows "\<exists>d'. season_club_at (length pre) ss' = Inr d' \<and> club_key d' = club_key d \<and> cl_id d' = cl_id d
     \<and> fields_values d' = fields_values c
     \<and> (club_synced c \<longrightarrow> delete_stmt (club_copy d') = delete_stmt c)"
proof -
  have find: "find_club (cl_name c) (cl_country c) (pre @ c # more) = Some (length pre)" for more
    using assms(2) by (induction pre) (auto simp: club_key_def)
  let ?d = "fst (club_move_assign c d)"
  have clubs: "ss_clubs ss' = pre @ ?d # shift_left (club_moved_from d # rest)"
    using assms(1,3) find by (auto simp: season_remove_club_def erase_club_def club_move_assign_def)
  have "season_club_at (length pre) ss' = Inr ?d"
    by (simp add: season_club_at_def clubs)
  moreover have "club_key ?d = club_key d" "cl_id ?d = cl_id d" "fields_values ?d = fields_values c"
    by (simp_all add: club_move_assign_def club_key_def)
  moreover have "delete_stmt (club_copy ?d) = delete_stmt c"
    by (simp add: delete_stmt_def key_cond_def get_field_def club_copy_def table_copy_def
        club_move_assign_def)
  ultimately show ?thesis by blast
qed

theorem removed_club_leaves_fields_witness:
  "\<exists>d'. season_club_at 0 (snd (season_remove_club (sample_club ''1'' ''Santos'') sample_season)) = Inr d'
     \<and> cl_name d' = ''Bahia'' \<and> delete_stmt (club_copy d') =
       ''DELETE FROM clubs WHERE name = '' @ quoted ''Santos'' @ '' AND country = '' @ quoted ''BR'' @ '';''"
  using removed_club_leaves_fields [of sample_season "[]" "sample_club ''1'' ''Santos''"
      "sample_club ''2'' ''Bahia''" "[]" "fst (season_remove_club (sample_club ''1'' ''Santos'') sample_season)"
      "snd (season_remove_club (sample_club ''1'' ''Santos'') sample_season)"]
  by (auto simp: sample_season_defs club_key_def club_synced_def get_field_def delete_stmt_def
      key_cond_def)

text \<open>
  C27: What \<^verbatim>\<open>save_related\<close> reports is the outcome of the last club alone: \<^verbatim>\<open>result\<close> is
  overwritten in every turn, so that memberships that could not be saved go unnoticed. Every club
  is tried as long as nothing throws.
\<close>

theorem save_related_last:
  assumes "save_related_loop api sid cs True s = (Inr ok, s1)"
  shows "save_related_loop api sid (cs @ [c]) True s =
    save_new api club_season_vtable (club_season_new (cl_id c) sid) s1"
proof -
  have "save_related_loop api sid (cs @ ds) r s = bind_p (save_related_loop api sid cs r)
      (\<lambda>q. save_related_loop api sid ds q) s" for ds r
  proof (induction cs arbitrary: r s)
    case (Cons a cs)
    then show ?case by (simp add: bind_p_def split: prod.splits sum.splits)
  qed simp
  then have "save_related_loop api sid (cs @ [c]) True s = save_related_loop api sid [c] ok s1"
    using assms by (simp add: bind_p_def)
  moreover have "save_related_loop api sid [] = return_p" by (rule ext) simp
  ultimately show ?thesis by simp
qed

definition refusing :: script where
  "refusing = [Inl (Sql_exception 1452 ''foreign key''), Inr empty_rs,
     Inr (table_rs [''club'', ''season''] [[''2'', ''5'']])]"

theorem save_related_last_witness:
  "fst (save_related_loop script_api ''5'' [sample_club ''1'' ''Santos''] True (script_server refusing)) = Inr False
   \<and> fst (save_related_loop script_api ''5''
       ([sample_club ''1'' ''Santos''] @ [sample_club ''2'' ''Bahia'']) True (script_server refusing)) = Inr True"
proof -
  let ?run = "save_related_loop script_api ''5'' [sample_club ''1'' ''Santos''] True (script_server refusing)"
  have "fst ?run = Inr False" by code_simp
  then obtain t where 1: "?run = (Inr False, t)" by (cases ?run) simp
  have "fst (save_new script_api club_season_vtable
      (club_season_new (cl_id (sample_club ''2'' ''Bahia'')) ''5'') (snd ?run)) = Inr True" by code_simp
  then have "fst (save_new script_api club_season_vtable
      (club_season_new (cl_id (sample_club ''2'' ''Bahia'')) ''5'') t) = Inr True"
    unfolding 1 snd_conv .
  then show ?thesis
    unfolding save_related_last [OF 1] 1 by simp
qed

end
