(* ===== verification/Event_Action.thy ===== *)
theory Event_Action
  imports Season Wire
begin

text \<open>
  \<^verbatim>\<open>net/event_action.cpp\<close>: what the server does for each request. The objects are local to
  the call; a local \<^verbatim>\<open>championship cs\<close> that a season refers to lives at address 0 of a store
  of its own.
\<close>

definition save_local ::
    "'db sql_api \<Rightarrow> ('a table_scheme, 'db) vtable \<Rightarrow> 'a table_scheme \<Rightarrow> ('db server, bool \<times> 'a table_scheme) prog" where
  "save_local api vt obj = (\<lambda>s. case save api vt (obj, s) of
      (Inl e, (_, s')) \<Rightarrow> (Inl e, s')
    | (Inr success, (obj', s')) \<Rightarrow> (Inr (success, obj'), s'))"

lemma save_local_Inr [runs]:
  "save_local api vt obj s = (Inr r, s') \<longleftrightarrow> save api vt (obj, s) = (Inr (fst r), (snd r, s'))"
  by (cases r) (auto simp: save_local_def split: prod.splits sum.splits)

definition local_store :: "championship \<Rightarrow> championship_store" where
  "local_store cs = (\<lambda>a. if a = 0 then Some cs else None)"

text \<open>\<^verbatim>\<open>return {x.id_int(), success};\<close>\<close>

definition respond :: "string \<Rightarrow> bool \<Rightarrow> ('db server, response) prog" where
  "respond idd success =
     bind_p (lift_p (id_int_of idd)) (\<lambda>i. return_p \<lparr>res_id = i, res_success = success\<rparr>)"

lemma respond_Inr [runs]:
  "respond idd success s = (Inr r, s') \<longleftrightarrow>
     id_int_of idd = Inr (res_id r) \<and> res_success r = success \<and> s' = s"
  by (cases r) (auto simp: respond_def runs)

definition event_action_new_championship ::
    "'db sql_api \<Rightarrow> new_championship \<Rightarrow> ('db server, response) prog" where
  "event_action_new_championship api champ =
     (let name = wide_text (nch_name champ);
          country = map narrow (nch_country champ)
      in bind_p (championship_new api name country) (\<lambda>cs.
         bind_p (save_local api championship_vtable cs) (\<lambda>(success, cs).
         respond (cs_id cs) success)))"

definition event_action_new_club :: "'db sql_api \<Rightarrow> new_club \<Rightarrow> ('db server, response) prog" where
  "event_action_new_club api cl_in =
     (let name = wide_text (ncl_name cl_in);
          country = map narrow (ncl_country cl_in)
      in bind_p (club_new api name country) (\<lambda>cl.
         bind_p (save_local api club_vtable cl) (\<lambda>(success, cl).
         respond (cl_id cl) success)))"

definition event_action_new_season :: "'db sql_api \<Rightarrow> new_season \<Rightarrow> ('db server, response) prog" where
  "event_action_new_season api seas =
     (let champ_id = to_string_u64 (nse_championship seas);
          year = wide_text (nse_year seas)
      in bind_p (championship_by_id api champ_id) (\<lambda>cs.
         bind_p (season_new api (local_store cs) 0 year) (\<lambda>ss.
         bind_p (save_local api (season_vtable api (local_store cs)) ss) (\<lambda>(success, ss).
         respond (ss_id ss) success))))"

definition event_action_new_season_club ::
    "'db sql_api \<Rightarrow> new_season_club \<Rightarrow> ('db server, response) prog" where
  "event_action_new_season_club api sc =
     bind_p (championship_default api) (\<lambda>cs.
     (let season_id = to_string_u64 (nsc_season sc) in
      bind_p (season_by_id api season_id 0) (\<lambda>ss.
      (let club_id = to_string_u64 (nsc_club sc) in
       bind_p (club_by_id api club_id) (\<lambda>cl.
       bind_p (save_local api (season_vtable api (local_store cs)) (season_add_club cl ss)) (\<lambda>(success, ss).
       respond (ss_id ss) success))))))"

end
