(* ===== verification/Football_Server.thy ===== *)
theory Football_Server
  imports Server Event_Action
begin

text \<open>
  \<^verbatim>\<open>net/football_server.hpp\<close>: the virtual functions of the server, and what the server does as
  a whole. The rest of the state is the shared \<^verbatim>\<open>mysql::server\<close>.
\<close>

section \<open>The virtual functions\<close>

definition football_on_client_connect :: "nat \<Rightarrow> (server_if \<times> 'w, bool) prog" where
  "football_on_client_connect a =
     (let msg = message_new\<lparr>msg_id := Ev_accept\<rparr> in
      then_p (on_fst (client_send (Some a) msg)) (return_p True))"

text \<open>It prints the id of the client, so it follows the pointer.\<close>

definition football_on_client_disconnect :: "nat option \<Rightarrow> (server_if \<times> 'w, unit) prog" where
  "football_on_client_disconnect client =
     bind_p (on_fst (client_id client)) (\<lambda>i. return_p ())"

text \<open>
  \<^verbatim>\<open>execute_action<T>\<close>: the request is taken from the message, the reply carries the event
  that the request itself names in its last field.
\<close>

definition execute_action ::
    "nat \<Rightarrow> (byte list \<Rightarrow> 'd) \<Rightarrow> ('d \<Rightarrow> event_type) \<Rightarrow> ('d \<Rightarrow> ('db server, response) prog) \<Rightarrow>
     message \<Rightarrow> ('db server, message) prog" where
  "execute_action size_of dec type_of action msg =
     bind_p (lift_p (pull_data size_of dec msg)) (\<lambda>(new_object, msg').
     bind_p (action new_object) (\<lambda>res.
     (let res_msg = message_new\<lparr>msg_id := type_of new_object\<rparr> in
      return_p (push_data enc_response res res_msg))))"

definition football_action ::
    "'db sql_api \<Rightarrow> message \<Rightarrow> ('db server, message) prog option" where
  "football_action api msg = (case msg_id msg of
      Ev_new_championship \<Rightarrow> Some (execute_action new_championship_size dec_new_championship nch_type
        (event_action_new_championship api) msg)
    | Ev_new_club \<Rightarrow> Some (execute_action new_club_size dec_new_club ncl_type (event_action_new_club api) msg)
    | Ev_new_season \<Rightarrow> Some (execute_action new_season_size dec_new_season nse_type
        (event_action_new_season api) msg)
    | Ev_new_season_club \<Rightarrow> Some (execute_action new_season_club_size dec_new_season_club nsc_type
        (event_action_new_season_club api) msg)
    | _ \<Rightarrow> None)"

definition football_on_message ::
    "'db sql_api \<Rightarrow> nat option \<Rightarrow> message \<Rightarrow> (server_if \<times> 'db server, unit) prog" where
  "football_on_message api client msg =
     (if msg_id msg = Ev_ping then
        bind_p (on_fst (client_id client)) (\<lambda>i. on_fst (client_send client msg))
      else case football_action api msg of
        Some act \<Rightarrow> bind_p (on_snd act) (\<lambda>res. on_fst (client_send client res))
      | None \<Rightarrow> return_p ())"

definition football_hooks :: "'db sql_api \<Rightarrow> 'db server hooks" where
  "football_hooks api = \<lparr>h_connect = football_on_client_connect,
     h_disconnect = football_on_client_disconnect, h_message = football_on_message api\<rparr>"

section \<open>What holds of the table of clients\<close>

text \<open>
  No null pointer, no dangling one, no client twice; and the numbers of the clients are given
  out in increasing order, so no two clients share one.
\<close>

definition conn_ids :: "server_if \<Rightarrow> 32 word list" where
  "conn_ids si = map (\<lambda>p. c_id (the (si_heap si (the p)))) (si_conns si)"

definition client_alive :: "server_if \<Rightarrow> nat option \<Rightarrow> bool" where
  "client_alive si p = (case p of None \<Rightarrow> False | Some a \<Rightarrow> si_heap si a \<noteq> None \<and> a < si_fresh si)"

definition clients_ok :: "server_if \<Rightarrow> bool" where
  "clients_ok si \<longleftrightarrow>
     (\<forall>p\<in>set (si_conns si). client_alive si p)
     \<and> (\<forall>a. si_fresh si \<le> a \<longrightarrow> si_heap si a = None)
     \<and> (\<forall>am\<in>set (si_posted si). si_heap si (fst am) \<noteq> None)
     \<and> distinct (si_conns si)"

text \<open>After \<open>n\<close> accepted clients, as long as the 32-bit counter has not wrapped.\<close>

definition numbered :: "nat \<Rightarrow> server_if \<Rightarrow> bool" where
  "numbered n si \<longleftrightarrow> unat (si_next_id si) = 10000 + n \<and> distinct (conn_ids si)
     \<and> (\<forall>i\<in>set (conn_ids si). unat i < 10000 + n)"

lemma clients_ok_new: "clients_ok server_new"
  by (simp add: clients_ok_def server_new_def)

lemma numbered_new: "numbered 0 server_new"
  by (simp add: numbered_def server_new_def conn_ids_def)

lemma clients_okD:
  "clients_ok si \<Longrightarrow> p \<in> set (si_conns si) \<Longrightarrow> \<exists>a c. p = Some a \<and> si_heap si a = Some c \<and> a < si_fresh si"
  by (fastforce simp: clients_ok_def client_alive_def split: option.splits)

lemma clients_ok_no_null: "clients_ok si \<Longrightarrow> p \<in> set (si_conns si) \<Longrightarrow> p \<noteq> None"
  by (auto dest: clients_okD)

text \<open>
  The changes that leave the table sound: clients may go, connections may change in any way but
  their number, sends may be posted to connections that exist.
\<close>

definition tame :: "server_if \<Rightarrow> server_if \<Rightarrow> bool" where
  "tame si si' \<longleftrightarrow>
     si_fresh si' = si_fresh si \<and> si_next_id si' = si_next_id si
     \<and> (\<forall>a. map_option c_id (si_heap si' a) = map_option c_id (si_heap si a))
     \<and> (\<exists>P. si_conns si' = filter P (si_conns si))
     \<and> (\<forall>am\<in>set (si_posted si'). am \<in> set (si_posted si) \<or> si_heap si (fst am) \<noteq> None)"

lemma tame_refl [simp]: "tame si si"
  by (auto simp: tame_def intro: exI [of _ "\<lambda>_. True"])

lemma tame_alive: "tame si si' \<Longrightarrow> si_heap si' a = None \<longleftrightarrow> si_heap si a = None"
  by (metis map_option_is_None tame_def)

lemma tame_trans: "tame r s \<Longrightarrow> tame s t \<Longrightarrow> tame r t"
proof -
  assume rs: "tame r s" and st: "tame s t"
  from rs obtain P where P: "si_conns s = filter P (si_conns r)" by (auto simp: tame_def)
  from st obtain Q where "si_conns t = filter Q (si_conns s)" by (auto simp: tame_def)
  with P have "si_conns t = filter (\<lambda>p. P p \<and> Q p) (si_conns r)" by simp
  then show ?thesis
    using rs st tame_alive [OF rs] unfolding tame_def by (metis (no_types, lifting))
qed

lemma tame_clients_ok:
  assumes tame: "tame si si'" and ok: "clients_ok si"
  shows "clients_ok si'"
proof -
  have "client_alive si' p = client_alive si p" for p
    using tame tame_alive [OF tame] by (auto simp: client_alive_def tame_def split: option.splits)
  then show ?thesis
    using tame ok tame_alive [OF tame] by (auto simp: clients_ok_def tame_def)
qed

lemma tame_numbered:
  assumes tame: "tame si si'" and ok: "clients_ok si" and num: "numbered n si"
  shows "numbered n si'"
proof -
  obtain P where P: "si_conns si' = filter P (si_conns si)" using tame by (auto simp: tame_def)
  have "c_id (the (si_heap si' (the p))) = c_id (the (si_heap si (the p)))"
    if mem: "p \<in> set (si_conns si)" for p
  proof -
    have heap: "map_option c_id (si_heap si' (the p)) = map_option c_id (si_heap si (the p))"
      using tame by (simp add: tame_def)
    obtain c where "si_heap si (the p) = Some c" using clients_okD [OF ok mem] by auto
    with heap show ?thesis by auto
  qed
  then have "conn_ids si' = map (\<lambda>p. c_id (the (si_heap si (the p)))) (filter P (si_conns si))"
    by (auto simp: conn_ids_def P)
  then show ?thesis
    using num tame by (auto simp: numbered_def conn_ids_def tame_def distinct_map_filter)
qed

lemma send_posted_id [simp]: "c_id (send_posted m c) = c_id c"
  by (simp add: send_posted_def Let_def write_header_def)

lemma tame_heap:
  "si_heap si a = Some c \<Longrightarrow> c_id c' = c_id c \<Longrightarrow> tame si (si\<lparr>si_heap := (si_heap si)(a \<mapsto> c')\<rparr>)"
  by (auto simp: tame_def intro: exI [of _ "\<lambda>_. True"])

lemma tame_posted: "tame si (run_posted si)"
proof (cases "si_posted si")
  case (Cons am rest)
  then show ?thesis
    by (cases am; cases "si_heap si (fst am)")
      (auto simp: run_posted_def tame_def intro: exI [of _ "\<lambda>_. True"])
qed (simp add: run_posted_def)

lemma make_connection_run:
  "make_connection now si = (Inr (si_fresh si), si\<lparr>si_fresh := Suc (si_fresh si),
     si_heap := (si_heap si)(si_fresh si := Some (connection_new Server_side now True))\<rparr>)"
  by (simp add: make_connection_def)

lemma new_connection_id [simp]:
  "c_id (connect_to_client i (connection_new Server_side now True)) = i"
  by (simp add: connect_to_client_def connection_new_def read_header_def)

text \<open>The state after an accept that goes through, with the football server's hook.\<close>

definition accepted :: "64 word \<Rightarrow> server_if \<Rightarrow> server_if" where
  "accepted now si =
     (let a = si_fresh si; c = connect_to_client (si_next_id si) (connection_new Server_side now True) in
      si\<lparr>si_fresh := Suc a, si_heap := (si_heap si)(a \<mapsto> c),
         si_posted := si_posted si @ [(a, message_new)], si_conns := si_conns si @ [Some a],
         si_next_id := si_next_id si + 1, si_accepting := True\<rparr>)"

lemma on_accept_accepted:
  "on_accept (football_hooks api) (Inr (now, True)) (si, w) = (Inr (), (accepted now si, w))"
  by (simp add: on_accept_def football_hooks_def football_on_client_connect_def accepted_def
      make_connection_def client_send_def deref_def approve_def wait_for_client_connection_def
      message_new_def prog_simps Let_def)

lemma accepted_facts:
  assumes ok: "clients_ok si"
  shows "clients_ok (accepted now si)"
    and "conn_ids (accepted now si) = conn_ids si @ [si_next_id si]"
proof -
  have fresh: "si_heap si (si_fresh si) = None" using ok by (simp add: clients_ok_def)
  have notin: "Some (si_fresh si) \<notin> set (si_conns si)" using clients_okD [OF ok] by fastforce
  show "clients_ok (accepted now si)"
    unfolding clients_ok_def
    using ok notin fresh
    by (auto simp: clients_ok_def client_alive_def accepted_def Let_def split: option.splits)
  show "conn_ids (accepted now si) = conn_ids si @ [si_next_id si]"
    using notin by (auto simp: conn_ids_def accepted_def Let_def dest!: clients_okD [OF ok])
qed

lemma numbered_accepted:
  assumes "clients_ok si" and "numbered n si" and "10000 + Suc n < 2 ^ 32"
  shows "numbered (Suc n) (accepted now si)"
proof -
  have "si_next_id (accepted now si) = si_next_id si + 1" by (simp add: accepted_def Let_def)
  then have "unat (si_next_id (accepted now si)) = 10000 + Suc n"
    using assms(2,3) by (simp add: numbered_def unat_word_ariths)
  then show ?thesis
    using assms(2) by (auto simp: numbered_def accepted_facts(2) [OF assms(1)])
qed

section \<open>Sending to one and to all\<close>

definition connected :: "server_if \<Rightarrow> nat option \<Rightarrow> bool" where
  "connected si p = (case p of None \<Rightarrow> False | Some a \<Rightarrow> (case si_heap si a of
      None \<Rightarrow> False | Some c \<Rightarrow> is_connected c))"

lemma client_calls:
  assumes "client_alive si p"
  shows "client_up p si = (Inr (connected si p), si)"
    and "client_send p msg si = (Inr (), si\<lparr>si_posted := si_posted si @ [(the p, msg)]\<rparr>)"
    and "\<exists>i. client_id p si = (Inr i, si)"
    and "football_on_client_disconnect p (si, w) = (Inr (), (si, w))"
  using assms
  by (auto simp: client_alive_def client_up_def client_send_def client_id_def deref_def connected_def
      football_on_client_disconnect_def prog_simps split: option.splits)

lemma client_alive_frame [simp]:
  "client_alive (si\<lparr>si_conns := cs\<rparr>) p = client_alive si p"
  "client_alive (si\<lparr>si_posted := ps\<rparr>) p = client_alive si p"
  "connected (si\<lparr>si_conns := cs\<rparr>) p = connected si p"
  "connected (si\<lparr>si_posted := ps\<rparr>) p = connected si p"
  by (auto simp: client_alive_def connected_def split: option.splits)

definition sends :: "server_if \<Rightarrow> message \<Rightarrow> nat option \<Rightarrow> nat option list \<Rightarrow> (nat \<times> message) list" where
  "sends si msg ignore ps = map (\<lambda>p. (the p, msg)) (filter (\<lambda>p. connected si p \<and> p \<noteq> ignore) ps)"

lemma message_all_loop_run:
  "\<forall>p\<in>set rest. client_alive si p \<Longrightarrow> si_conns si = before @ rest \<Longrightarrow>
   message_all_loop (football_hooks api) msg ignore rest (length before) invalid (si, w) =
     (Inr (invalid \<or> (\<exists>p\<in>set rest. \<not> connected si p)),
      (si\<lparr>si_conns := before @ map (\<lambda>p. if connected si p then p else None) rest,
          si_posted := si_posted si @ sends si msg ignore rest\<rparr>, w))"
proof (induction rest arbitrary: si before invalid)
  case Nil
  then show ?case by (simp add: return_p_def sends_def)
next
  case (Cons p rest)
  then have alive: "client_alive si p" by simp
  let ?si = "if connected si p
    then (if p \<noteq> ignore then si\<lparr>si_posted := si_posted si @ [(the p, msg)]\<rparr> else si)
    else si\<lparr>si_conns := (si_conns si)[length before := None]\<rparr>"
  let ?p = "if connected si p then p else None"
  have "message_all_loop (football_hooks api) msg ignore (p # rest) (length before) invalid (si, w) =
      message_all_loop (football_hooks api) msg ignore rest (length (before @ [?p]))
        (invalid \<or> \<not> connected si p) (?si, w)"
    using alive by (simp add: client_calls bind_p_def then_p_def on_fst_def modify_p_def return_p_def
        football_hooks_def)
  also have "\<dots> = (Inr ((invalid \<or> \<not> connected si p) \<or> (\<exists>p\<in>set rest. \<not> connected ?si p)),
      (?si\<lparr>si_conns := (before @ [?p]) @ map (\<lambda>p. if connected ?si p then p else None) rest,
          si_posted := si_posted ?si @ sends ?si msg ignore rest\<rparr>, w))"
    by (rule Cons.IH) (use Cons.prems in \<open>auto split: if_splits\<close>)
  finally show ?case
    by (auto simp: sends_def)
qed

lemma message_all_clients_run:
  assumes "clients_ok si"
  shows "message_all_clients (football_hooks api) msg ignore (si, w) =
     (Inr (), (si\<lparr>si_conns := filter (connected si) (si_conns si),
                  si_posted := si_posted si @ sends si msg ignore (si_conns si)\<rparr>, w))"
proof -
  have alive: "\<forall>p\<in>set (si_conns si). client_alive si p"
    using assms by (simp add: clients_ok_def)
  have some: "p \<in> set (si_conns si) \<Longrightarrow> p \<noteq> None" for p
    using assms by (rule clients_ok_no_null)
  have "filter (\<lambda>p. p \<noteq> None) (map (\<lambda>p. if connected si p then p else None) ps) =
      filter (connected si) ps" if "\<forall>p\<in>set ps. p \<noteq> None" for ps
    using that by (induction ps) auto
  moreover have "map (\<lambda>p. if connected si p then p else None) ps = ps \<and> filter (connected si) ps = ps"
    if "\<forall>p\<in>set ps. connected si p" for ps
    using that by (induction ps) auto
  moreover have "message_all_loop (football_hooks api) msg ignore (si_conns si) 0 False (si, w) =
     (Inr (\<exists>p\<in>set (si_conns si). \<not> connected si p),
      (si\<lparr>si_conns := map (\<lambda>p. if connected si p then p else None) (si_conns si),
          si_posted := si_posted si @ sends si msg ignore (si_conns si)\<rparr>, w))"
    using message_all_loop_run [OF alive, of "[]" api msg ignore False w] by simp
  ultimately show ?thesis
    using some
    by (cases "\<exists>p\<in>set (si_conns si). \<not> connected si p")
      (auto simp: message_all_clients_def bind_p_def on_fst_def gets_p_def modify_p_def return_p_def)
qed

text \<open>
  \<^verbatim>\<open>message_client\<close> never shortens the table: a client that is gone is announced and kept.
\<close>

lemma message_client_run:
  assumes "clients_ok si" and "client_alive si p"
  shows "message_client (football_hooks api) p msg (si, w) =
     (Inr (), (if connected si p then si\<lparr>si_posted := si_posted si @ [(the p, msg)]\<rparr> else si, w))"
proof -
  have "filter (\<lambda>q. q \<noteq> None) (si_conns si) = si_conns si"
    using clients_ok_no_null [OF assms(1)] by (simp add: filter_id_conv)
  with assms(2) show ?thesis
    by (simp add: message_client_def client_calls football_hooks_def bind_p_def then_p_def on_fst_def
        modify_p_def)
qed

lemma tame_message_all:
  "clients_ok si \<Longrightarrow> tame si (si\<lparr>si_conns := filter (connected si) (si_conns si),
     si_posted := si_posted si @ sends si msg ignore (si_conns si)\<rparr>)"
  by (fastforce simp: tame_def sends_def connected_def split: option.splits)

section \<open>Requests and replies\<close>

text \<open>
  What a message does, whoever sent it: an event without a case is ignored; a request with a
  body that is too short reads outside the body; any other request is answered by one message,
  to the client it came from.
\<close>

lemma deref_keeps: "keeps tame (deref p)"
  by (rule keepsI) (auto simp: deref_def split: option.splits)

lemma transp_tame: "transp tame"
  using tame_trans by (blast intro: transpI)

lemma reflp_tame: "reflp tame"
  by (simp add: reflp_def)

lemma client_send_tame: "keeps tame (client_send p msg)"
proof (rule keepsI)
  fix si r si'
  assume "client_send p msg si = (r, si')"
  then have "si' = si \<or> (\<exists>a. si_heap si a \<noteq> None \<and> si' = si\<lparr>si_posted := si_posted si @ [(a, msg)]\<rparr>)"
    by (auto simp: client_send_def deref_def bind_p_def modify_p_def split: option.splits)
  then show "tame si si'"
    by (auto simp: tame_def intro: exI [of _ "\<lambda>_. True"])
qed

lemma client_id_tame: "keeps tame (client_id p)"
  unfolding client_id_def
  by (intro keeps_bind deref_keeps transp_tame) (auto simp: keeps_def return_p_def split: prod.splits)

definition tame_fst :: "server_if \<times> 'w \<Rightarrow> server_if \<times> 'w \<Rightarrow> bool" where
  "tame_fst p q \<longleftrightarrow> tame (fst p) (fst q)"

lemma tame_fst_preorder: "transp tame_fst" "reflp tame_fst"
  using tame_trans by (auto simp: transp_def reflp_def tame_fst_def)

lemma keeps_fst_tame: "keeps tame m \<Longrightarrow> keeps tame_fst (on_fst m)"
  by (rule keeps_on_fst) (simp add: keeps_def tame_fst_def)

lemma keeps_snd_tame: "keeps tame_fst (on_snd m)"
  by (rule keeps_on_snd) (simp add: keeps_def tame_fst_def)

lemma football_on_message_tame: "keeps tame_fst (football_on_message api client msg)"
  unfolding football_on_message_def
  by (intro keeps_if keeps_bind keeps_fst_tame keeps_snd_tame client_id_tame client_send_tame
      tame_fst_preorder)
    (auto split: option.splits intro!: keeps_bind keeps_fst_tame keeps_snd_tame client_send_tame
      tame_fst_preorder keeps_return)

lemma handle_list_tame:
  "(\<And>x. keeps tame_fst (handle x)) \<Longrightarrow> handle_list handle xs w = (r, rest, w') \<Longrightarrow> tame_fst w w'"
proof (induction xs arbitrary: w)
  case Nil
  then show ?case using tame_fst_preorder(2) by (auto dest: reflpD)
next
  case (Cons x xs)
  obtain q w1 where h: "handle x w = (q, w1)" by (cases "handle x w")
  with Cons.prems(1) have "tame_fst w w1" by (blast dest: keepsD)
  moreover have "tame_fst w1 w'"
    using Cons h tame_fst_preorder(2) by (cases q) (auto dest: reflpD)
  ultimately show ?case using tame_fst_preorder(1) by (blast dest: transpD)
qed

lemma server_update_tame:
  assumes "server_update (football_hooks api) n bWait (q, w) = Some (r, (q', w'))"
  shows "tame_fst w w'"
proof -
  let ?handle = "\<lambda>om. h_message (football_hooks api) (om_remote om) (om_msg om)"
  obtain p rest v where run: "handle_list ?handle (take (unat n) (ts_queue q)) w = (p, rest, v)"
    by (metis surj_pair)
  have "\<not> (bWait \<and> ts_empty q)" using assms by (auto simp: server_update_def)
  from server_update_list [OF this, of "football_hooks api" n w] assms run
  have "w' = v" by auto
  moreover have "tame_fst w v"
    by (rule handle_list_tame [OF _ run]) (simp add: football_hooks_def football_on_message_tame)
  ultimately show ?thesis by simp
qed

section \<open>The server as a whole\<close>

text \<open>
  The steps: the completion of an accept, a posted send, the completion of a read or a write
  on a connection, the closing of one, \<^verbatim>\<open>update\<close>, and the two functions that send. The index
  counts the clients accepted.
\<close>

type_synonym 'db football_state = "owned_message tsqueue \<times> (server_if \<times> 'db server)"

inductive server_step :: "'db sql_api \<Rightarrow> nat \<times> 'db football_state \<Rightarrow> nat \<times> 'db football_state \<Rightarrow> bool"
  for api where
  st_accept: "on_accept (football_hooks api) (Inr (now, True)) (si, w) = (Inr (), (si', w')) \<Longrightarrow>
     server_step api (n, (q, (si, w))) (Suc n, (q, (si', w')))"
| st_accept_error: "on_accept (football_hooks api) (Inl ec) (si, w) = (r, (si', w')) \<Longrightarrow>
     server_step api (n, (q, (si, w))) (n, (q, (si', w')))"
| st_posted: "server_step api (n, (q, (si, w))) (n, (q, (run_posted si, w)))"
| st_read_header: "si_heap si a = Some c \<Longrightarrow> on_read_header a res (c, q) = (c', q') \<Longrightarrow>
     server_step api (n, (q, (si, w))) (n, (q', (si\<lparr>si_heap := (si_heap si)(a \<mapsto> c')\<rparr>, w)))"
| st_read_body: "si_heap si a = Some c \<Longrightarrow> on_read_body a res (c, q) = (c', q') \<Longrightarrow>
     server_step api (n, (q, (si, w))) (n, (q', (si\<lparr>si_heap := (si_heap si)(a \<mapsto> c')\<rparr>, w)))"
| st_write_header: "si_heap si a = Some c \<Longrightarrow> on_write_header ec c = Inr c' \<Longrightarrow>
     server_step api (n, (q, (si, w))) (n, (q, (si\<lparr>si_heap := (si_heap si)(a \<mapsto> c')\<rparr>, w)))"
| st_write_body: "si_heap si a = Some c \<Longrightarrow> on_write_body ec c = Inr c' \<Longrightarrow>
     server_step api (n, (q, (si, w))) (n, (q, (si\<lparr>si_heap := (si_heap si)(a \<mapsto> c')\<rparr>, w)))"
| st_close: "si_heap si a = Some c \<Longrightarrow>
     server_step api (n, (q, (si, w))) (n, (q, (si\<lparr>si_heap := (si_heap si)(a \<mapsto> close_socket c)\<rparr>, w)))"
| st_update: "server_update (football_hooks api) m bWait (q, (si, w)) = Some (r, (q', (si', w'))) \<Longrightarrow>
     server_step api (n, (q, (si, w))) (n, (q', (si', w')))"
| st_message_all: "message_all_clients (football_hooks api) msg ignore (si, w) = (r, (si', w')) \<Longrightarrow>
     server_step api (n, (q, (si, w))) (n, (q, (si', w')))"
| st_message_client: "client_alive si p \<Longrightarrow>
     message_client (football_hooks api) p msg (si, w) = (r, (si', w')) \<Longrightarrow>
     server_step api (n, (q, (si, w))) (n, (q, (si', w')))"

inductive server_reachable :: "'db sql_api \<Rightarrow> 'db server \<Rightarrow> nat \<times> 'db football_state \<Rightarrow> bool"
  for api w0 where
  reach_start: "server_reachable api w0 (0, (ts_new, (server_new, w0)))"
| reach_more: "server_reachable api w0 x \<Longrightarrow> server_step api x y \<Longrightarrow> server_reachable api w0 y"

lemma io_ids:
  "on_read_header a res (c, q) = (c', q') \<Longrightarrow> c_id c' = c_id c"
  "on_read_body a res (c, q) = (c', q') \<Longrightarrow> c_id c' = c_id c"
  "on_write_header ec c = Inr c'' \<Longrightarrow> c_id c'' = c_id c"
  "on_write_body ec c = Inr c'' \<Longrightarrow> c_id c'' = c_id c"
  "c_id (close_socket c) = c_id c"
  by (auto simp: on_read_header_def on_read_body_def on_write_header_def on_write_body_def
      add_to_incoming_def read_header_def read_body_def write_header_def write_body_def
      close_socket_def pop_and_continue_def Let_def split: sum.splits if_splits prod.splits)

lemma step_tame:
  assumes "server_step api (n, (q, (si, w))) (n', (q', (si', w')))" and ok: "clients_ok si"
  shows "(n' = n \<and> tame si si') \<or> (n' = Suc n \<and> (\<exists>now. si' = accepted now si))"
  using assms(1)
proof cases
  case (st_accept now)
  then show ?thesis by (auto simp: on_accept_accepted)
next
  case (st_accept_error ec r)
  then show ?thesis
    by (auto simp: on_accept_def wait_for_client_connection_def prog_simps tame_def
        intro: exI [of _ "\<lambda>_. True"])
next
  case (st_message_all msg ignore r)
  then show ?thesis
    by (auto simp: message_all_clients_run [OF ok] intro: tame_message_all [OF ok])
next
  case (st_message_client p msg r)
  then have "tame si si'"
    using keepsD [OF client_send_tame, of p msg si]
    by (auto simp: message_client_run [OF ok] client_calls split: if_splits)
  with st_message_client show ?thesis by simp
next
  case st_update
  then show ?thesis using server_update_tame by (fastforce simp: tame_fst_def)
qed (auto intro!: tame_posted tame_heap dest!: io_ids(1-4) simp: io_ids(5))

lemma server_reachable_ok:
  "server_reachable api w0 x \<Longrightarrow> clients_ok (fst (snd (snd x)))
     \<and> (10000 + fst x < 2 ^ 32 \<longrightarrow> numbered (fst x) (fst (snd (snd x))))"
proof (induction rule: server_reachable.induct)
  case reach_start
  show ?case by (simp add: clients_ok_new numbered_new)
next
  case (reach_more x y)
  obtain n q si w where x: "x = (n, (q, (si, w)))" by (metis surj_pair)
  obtain n' q' si' w' where y: "y = (n', (q', (si', w')))" by (metis surj_pair)
  from reach_more.IH x have ok: "clients_ok si" by simp
  from step_tame [OF reach_more.hyps(2) [unfolded x y] ok] show ?case
  proof
    assume "n' = n \<and> tame si si'"
    with reach_more.IH show ?thesis
      by (auto simp: x y intro: tame_clients_ok tame_numbered)
  next
    assume "n' = Suc n \<and> (\<exists>now. si' = accepted now si)"
    with reach_more.IH show ?thesis
      by (auto simp: x y accepted_facts intro: numbered_accepted)
  qed
qed

section \<open>Properties\<close>

text \<open>
  C8: In every state the server reaches, by accepting, reading, writing, losing clients, handling
  messages and sending, the table of clients holds no null and no dangling pointer and no client
  twice; no two clients share a number until the 32-bit counter wraps.
\<close>

theorem server_clients_sound:
  assumes "server_reachable api w0 (n, (q, (si, w)))"
  shows "distinct (si_conns si) \<and> list_all (client_alive si) (si_conns si)
    \<and> (10000 + n < 2 ^ 32 \<longrightarrow> distinct (conn_ids si))"
  using server_reachable_ok [OF assms] by (auto simp: clients_ok_def numbered_def list_all_iff)

lemma server_reachable_accept:
  assumes "server_reachable api w0 (n, (q, (si, w)))"
  shows "server_reachable api w0 (Suc n, (q, (accepted now si, w)))"
  using reach_more [OF assms st_accept] on_accept_accepted by fast

theorem server_clients_sound_witness:
  "list_all (client_alive (accepted 8 (accepted 7 server_new))) [Some 0, Some 1]"
proof -
  have "server_reachable api w0 (2, (ts_new, (accepted 8 (accepted 7 server_new), w0)))"
    for api :: "script sql_api" and w0
    using server_reachable_accept [OF server_reachable_accept [OF reach_start]] by (simp add: numeral_2_eq_2)
  from server_clients_sound [OF this] show ?thesis
    by (simp add: accepted_def server_new_def Let_def)
qed

text \<open>
  C9: \<^verbatim>\<open>message_all_clients\<close>: the message is sent to every client that is connected, but for the
  one to leave out, in the order of the table; the others are announced and taken out of the
  table; nothing else changes and no null pointer is followed.
\<close>

theorem message_all_clients_spec:
  assumes "server_reachable api w0 (n, (q, (si, w)))"
  shows "message_all_clients (football_hooks api) msg ignore (si, w) =
     (Inr (), (si\<lparr>si_conns := filter (connected si) (si_conns si),
        si_posted := si_posted si @ map (\<lambda>p. (the p, msg))
          (filter (\<lambda>p. connected si p \<and> p \<noteq> ignore) (si_conns si))\<rparr>, w))"
  using message_all_clients_run server_reachable_ok [OF assms] by (fastforce simp: sends_def)

theorem message_all_clients_spec_witness:
  "si_posted (fst (snd (message_all_clients (football_hooks script_api) message_new (Some 0)
      (accepted 8 (accepted 7 server_new), script_server []))))
   = [(0, message_new), (1, message_new), (1, message_new)]"
proof -
  have "server_reachable script_api (script_server []) (2, (ts_new, (accepted 8 (accepted 7 server_new), script_server [])))"
    using server_reachable_accept [OF server_reachable_accept [OF reach_start]] by (simp add: numeral_2_eq_2)
  from message_all_clients_spec [OF this] show ?thesis
    by (simp add: accepted_def server_new_def Let_def connected_def connect_to_client_def
        connection_new_def read_header_def is_connected_def)
qed




text \<open>
  What a request leaves behind, given the outcome of its action: a fault of the action and nothing sent,
  or one message to the sender, with 16 bytes: the id, the success, seven bytes of padding.
\<close>

definition answered ::
    "server_if \<Rightarrow> nat option \<Rightarrow> event_type \<Rightarrow> (fault + response) \<times> 'w \<Rightarrow> (fault + unit) \<times> (server_if \<times> 'w)" where
  "answered si p e outcome = (case outcome of
      (Inl f, w') \<Rightarrow> (Inl f, (si, w'))
    | (Inr r, w') \<Rightarrow> (Inr (), (si\<lparr>si_posted := si_posted si @ [(the p, \<lparr>msg_id = e, msg_size = 16,
          msg_body = u64_bytes (res_id r) @ (if res_success r then 1 else 0) # replicate 7 0\<rparr>)]\<rparr>, w')))"

lemma execute_action_answered:
  assumes "client_alive si p" and "pull_data size_of dec msg = Inr (d, msg')"
  shows "bind_p (on_snd (execute_action size_of dec type_of action msg)) (\<lambda>res. on_fst (client_send p res)) (si, w) =
    answered si p (type_of d) (action d w)"
  using client_calls(2) [OF assms(1)] assms(2)
  by (auto simp: execute_action_def answered_def bind_p_def lift_p_def on_fst_def on_snd_def return_p_def push_data_def
      set_body_def message_new_def enc_response_def split: prod.splits sum.splits)

lemma execute_action_short:
  assumes "length (msg_body msg) < size_of"
  shows "\<exists>why. bind_p (on_snd (execute_action size_of dec type_of action msg)) (\<lambda>res. on_fst (client_send p res)) (si, w) =
    (Inl (Undefined_behaviour why), (si, w))"
  using assms by (simp add: execute_action_def bind_p_def lift_p_def on_snd_def pull_data_def)

lemma push_data_id [simp]: "msg_id (push_data enc d m) = msg_id m"
  by (simp add: push_data_def set_body_def)

text \<open>
  C10: What the server does with every message. A ping goes back to its sender as it came. Each of the
  four requests, put into a message whose event announces it, reaches the action of that request with
  the values the client wrote; the sender gets one message, with the action's response and with the event
  written inside the request, and when the action fails nothing is sent. A request whose body is
  shorter than its structure is undefined behaviour before anything is changed. All other events are
  ignored.
\<close>

theorem on_message_replies:
  assumes "client_alive si p"
  shows "(msg_id m = Ev_ping \<longrightarrow>
       football_on_message api p m (si, w) = (Inr (), (si\<lparr>si_posted := si_posted si @ [(the p, m)]\<rparr>, w)))
    \<and> (\<forall>d. msg_id m = Ev_new_championship \<and> new_championship_ok d \<longrightarrow>
       football_on_message api p (push_data enc_new_championship d m) (si, w) =
         answered si p (nch_type d) (event_action_new_championship api d w))
    \<and> (\<forall>d. msg_id m = Ev_new_club \<and> new_club_ok d \<longrightarrow>
       football_on_message api p (push_data enc_new_club d m) (si, w) =
         answered si p (ncl_type d) (event_action_new_club api d w))
    \<and> (\<forall>d. msg_id m = Ev_new_season \<and> new_season_ok d \<longrightarrow>
       football_on_message api p (push_data enc_new_season d m) (si, w) =
         answered si p (nse_type d) (event_action_new_season api d w))
    \<and> (\<forall>d. msg_id m = Ev_new_season_club \<and> new_season_club_ok d \<longrightarrow>
       football_on_message api p (push_data enc_new_season_club d m) (si, w) =
         answered si p (nsc_type d) (event_action_new_season_club api d w))
    \<and> (\<forall>n. (msg_id m, n) \<in> {(Ev_new_championship, 412), (Ev_new_club, 412), (Ev_new_season, 56), (Ev_new_season_club, 24)}
         \<and> length (msg_body m) < n \<longrightarrow>
       (\<exists>why. football_on_message api p m (si, w) = (Inl (Undefined_behaviour why), (si, w))))
    \<and> (msg_id m \<notin> {Ev_ping, Ev_new_championship, Ev_new_club, Ev_new_season, Ev_new_season_club} \<longrightarrow>
       football_on_message api p m (si, w) = (Inr (), (si, w)))"
proof (intro conjI allI impI)
  assume "msg_id m = Ev_ping"
  then show "football_on_message api p m (si, w) = (Inr (), (si\<lparr>si_posted := si_posted si @ [(the p, m)]\<rparr>, w))"
    using client_calls(2,3) [OF assms] by (auto simp: football_on_message_def bind_p_def on_fst_def split: prod.splits)
next
  fix n
  assume "(msg_id m, n) \<in> {(Ev_new_championship, 412), (Ev_new_club, 412), (Ev_new_season, 56), (Ev_new_season_club, 24)}
      \<and> length (msg_body m) < n"
  then show "\<exists>why. football_on_message api p m (si, w) = (Inl (Undefined_behaviour why), (si, w))"
    by (auto simp: football_on_message_def football_action_def wire_sizes intro!: execute_action_short)
next
  assume "msg_id m \<notin> {Ev_ping, Ev_new_championship, Ev_new_club, Ev_new_season, Ev_new_season_club}"
  then show "football_on_message api p m (si, w) = (Inr (), (si, w))"
    by (cases "msg_id m") (simp_all add: football_on_message_def football_action_def return_p_def)
qed (auto simp: football_on_message_def football_action_def intro!: execute_action_answered [OF assms]
    intro: new_championship_wire.pull_pushed new_club_wire.pull_pushed new_season_wire.pull_pushed new_season_club_wire.pull_pushed)

theorem on_message_replies_witness:
  "(\<exists>why. football_on_message script_api (Some 0) (message_new\<lparr>msg_id := Ev_new_season, msg_body := replicate 55 0\<rparr>)
       (accepted 7 server_new, script_server []) = (Inl (Undefined_behaviour why), (accepted 7 server_new, script_server [])))
   \<and> football_on_message script_api (Some 0)
         (push_data enc_new_season_club \<lparr>nsc_season = 4, nsc_club = 9, nsc_type = Ev_ping\<rparr>
           (message_new\<lparr>msg_id := Ev_new_season_club\<rparr>))
         (accepted 7 server_new, script_server []) =
       answered (accepted 7 server_new) (Some 0) Ev_ping
         (event_action_new_season_club script_api \<lparr>nsc_season = 4, nsc_club = 9, nsc_type = Ev_ping\<rparr> (script_server []))"
proof -
  have alive: "client_alive (accepted 7 server_new) (Some 0)"
    by (simp add: accepted_def client_alive_def server_new_def Let_def)
  from on_message_replies [OF alive, of "message_new\<lparr>msg_id := Ev_new_season, msg_body := replicate 55 0\<rparr>" script_api "script_server []"]
    on_message_replies [OF alive, of "message_new\<lparr>msg_id := Ev_new_season_club\<rparr>" script_api "script_server []"]
  show ?thesis by (simp add: new_season_club_ok_def)
qed

end
