(* ===== verification/Schema.thy ===== *)
theory Schema
  imports Table_Class
begin

text \<open>
  The tables of \<^verbatim>\<open>db/football.sql\<close>, and what MySQL documents about the two kinds of statement the classes
  of \<^verbatim>\<open>classes/\<close> issue to read and to save themselves: \<^verbatim>\<open>SELECT\<close> by key and \<^verbatim>\<open>REPLACE\<close>, which deletes the
  rows that clash with the new one, with what the foreign keys say about that. MySQL itself is not in
  the repository: \<open>mysql_serves\<close> is a hypothesis about the connector.
\<close>

section \<open>The tables\<close>

text \<open>
  Columns, whether \<^verbatim>\<open>id\<close> is \<^verbatim>\<open>AUTO_INCREMENT\<close>, the primary and unique keys, the widths of the text columns,
  and the foreign keys: column, table and column referred to, and whether deletion cascades (or is
  restricted).
\<close>

record table_def =
  td_columns :: "string list"
  td_auto :: bool
  td_keys :: "string list list"
  td_widths :: "(string \<times> nat) list"
  td_refs :: "(string \<times> string \<times> string \<times> bool) list"

definition tbl_championships :: table_def where
  "tbl_championships = \<lparr>td_columns = [''id'', ''name'', ''country''], td_auto = True,
     td_keys = [[''id''], [''name'']], td_widths = [(''name'', 100), (''country'', 2)],
     td_refs = [(''country'', ''countries'', ''country_code'', False)]\<rparr>"

definition tbl_clubs :: table_def where
  "tbl_clubs = \<lparr>td_columns = [''id'', ''name'', ''country''], td_auto = True,
     td_keys = [[''id''], [''name'']], td_widths = [(''name'', 50), (''country'', 2)], td_refs = []\<rparr>"

definition tbl_clubs_seasons :: table_def where
  "tbl_clubs_seasons = \<lparr>td_columns = [''season'', ''club''], td_auto = False,
     td_keys = [[''season'', ''club'']], td_widths = [],
     td_refs = [(''club'', ''clubs'', ''id'', True), (''season'', ''seasons'', ''id'', True)]\<rparr>"

definition tbl_countries :: table_def where
  "tbl_countries = \<lparr>td_columns = [''id'', ''phone_code'', ''country_code'', ''country_name''], td_auto = True,
     td_keys = [[''id''], [''country_code'']], td_widths = [(''country_code'', 2), (''country_name'', 80)],
     td_refs = []\<rparr>"

definition tbl_seasons :: table_def where
  "tbl_seasons = \<lparr>td_columns = [''id'', ''championship'', ''year''], td_auto = True,
     td_keys = [[''id''], [''championship'', ''year'']], td_widths = [(''year'', 10)],
     td_refs = [(''championship'', ''championships'', ''id'', False)]\<rparr>"

definition schema_tables :: "(string \<times> table_def) list" where
  "schema_tables = [(''championships'', tbl_championships), (''clubs'', tbl_clubs),
     (''clubs_seasons'', tbl_clubs_seasons), (''countries'', tbl_countries), (''seasons'', tbl_seasons)]"

definition no_table :: table_def where
  "no_table = \<lparr>td_columns = [], td_auto = False, td_keys = [], td_widths = [], td_refs = []\<rparr>"

definition schema :: "string \<Rightarrow> table_def" where
  "schema t = (case map_of schema_tables t of Some td \<Rightarrow> td | None \<Rightarrow> no_table)"

text \<open>The foreign keys that refer to a table: the table they are in, its column, the column referred to.\<close>

definition refs_to :: "string \<Rightarrow> (string \<times> string \<times> string \<times> bool) list" where
  "refs_to t = concat (map (\<lambda>(ct, td). map (\<lambda>(c, _, pc, cas). (ct, c, pc, cas))
     (filter (\<lambda>(_, pt, _, _). pt = t) (td_refs td))) schema_tables)"

section \<open>Rows\<close>

text \<open>
  The rows of each table, in the order of its columns, and whether its \<^verbatim>\<open>AUTO_INCREMENT\<close> is used up. Texts
  are compared by the collation: \<open>coll\<close> gives the same for texts it does not tell apart.
\<close>

record sql_tables =
  tb_rows :: "string \<Rightarrow> string list set"
  tb_full :: "string \<Rightarrow> bool"

definition cell :: "string \<Rightarrow> string list \<Rightarrow> string \<Rightarrow> string" where
  "cell t r c = (case map_of (zip (td_columns (schema t)) r) c of Some v \<Rightarrow> v | None \<Rightarrow> [])"

definition hits :: "(string \<Rightarrow> string) \<Rightarrow> string \<Rightarrow> (string \<times> string) list \<Rightarrow> string list \<Rightarrow> bool" where
  "hits coll t conds r \<longleftrightarrow> list_all (\<lambda>(c, v). coll (cell t r c) = coll v) conds"

definition clash :: "(string \<Rightarrow> string) \<Rightarrow> string \<Rightarrow> (string \<times> string) list \<Rightarrow> string list \<Rightarrow> bool" where
  "clash coll t vals r \<longleftrightarrow> list_ex (\<lambda>key. list_all (\<lambda>c. case map_of vals c of
       Some v \<Rightarrow> coll (cell t r c) = coll v | None \<Rightarrow> False) key) (td_keys (schema t))"

text \<open>Every column has a value or is the automatic id, every value fits, every reference has its row.\<close>

definition given :: "string \<Rightarrow> (string \<times> string) list \<Rightarrow> bool" where
  "given t vals \<longleftrightarrow> list_all (\<lambda>c. map_of vals c \<noteq> None \<or> td_auto (schema t) \<and> c = ''id'') (td_columns (schema t))"

definition fits :: "string \<Rightarrow> (string \<times> string) list \<Rightarrow> bool" where
  "fits t vals \<longleftrightarrow> list_all (\<lambda>(c, n). case map_of vals c of Some v \<Rightarrow> length v \<le> n | None \<Rightarrow> True) (td_widths (schema t))"

definition parents :: "(string \<Rightarrow> string) \<Rightarrow> (string \<Rightarrow> string list set) \<Rightarrow> string \<Rightarrow> (string \<times> string) list \<Rightarrow> bool" where
  "parents coll rows t vals \<longleftrightarrow> list_all (\<lambda>(c, pt, pc, _). case map_of vals c of
       Some v \<Rightarrow> (\<exists>r \<in> rows pt. coll (cell pt r pc) = coll v) | None \<Rightarrow> False) (td_refs (schema t))"

text \<open>Deleting the rows \<open>gone\<close> of a table: held back by a restricting reference, or with the cascade.\<close>

definition refers :: "(string \<Rightarrow> string) \<Rightarrow> string \<Rightarrow> string \<Rightarrow> string list \<Rightarrow> string \<Rightarrow> string \<Rightarrow> string list set \<Rightarrow> bool" where
  "refers coll ct c r' t pc gone \<longleftrightarrow> (\<exists>r \<in> gone. coll (cell ct r' c) = coll (cell t r pc))"

definition held :: "(string \<Rightarrow> string) \<Rightarrow> (string \<Rightarrow> string list set) \<Rightarrow> string \<Rightarrow> string list set \<Rightarrow> bool" where
  "held coll rows t gone \<longleftrightarrow>
     list_ex (\<lambda>(ct, c, pc, cas). \<not> cas \<and> (\<exists>r' \<in> rows ct. refers coll ct c r' t pc gone)) (refs_to t)"

definition delete_rows :: "(string \<Rightarrow> string) \<Rightarrow> (string \<Rightarrow> string list set) \<Rightarrow> string \<Rightarrow> string list set \<Rightarrow> string \<Rightarrow> string list set" where
  "delete_rows coll rows t gone = (\<lambda>t'. if t' = t then rows t - gone
     else {r' \<in> rows t'. \<not> list_ex (\<lambda>(ct, c, pc, cas). cas \<and> ct = t' \<and> refers coll t' c r' t pc gone) (refs_to t)})"

text \<open>The cascade is one level deep: nothing refers to a table whose rows a deletion takes along.\<close>

lemma cascade_depth: "(ct, c, pc, True) \<in> set (refs_to t) \<Longrightarrow> refs_to ct = []"
proof -
  have "list_all (\<lambda>(_, td). list_all (\<lambda>(_, pt, _, cas). cas \<longrightarrow> refs_to ''clubs_seasons'' = []) (td_refs td)) schema_tables"
    by code_simp
  moreover have "list_all (\<lambda>(ct, td). list_all (\<lambda>(_, _, _, cas). cas \<longrightarrow> ct = ''clubs_seasons'') (td_refs td)) schema_tables"
    by code_simp
  ultimately show "(ct, c, pc, True) \<in> set (refs_to t) \<Longrightarrow> refs_to ct = []"
    unfolding refs_to_def [of t] by (fastforce simp: list_all_iff)
qed

section \<open>REPLACE\<close>

definition new_row :: "string \<Rightarrow> nat \<Rightarrow> (string \<times> string) list \<Rightarrow> string list" where
  "new_row t i vals = map (\<lambda>c. case map_of vals c of Some v \<Rightarrow> v | None \<Rightarrow> decimal i) (td_columns (schema t))"

definition clashing :: "(string \<Rightarrow> string) \<Rightarrow> (string \<Rightarrow> string list set) \<Rightarrow> string \<Rightarrow> (string \<times> string) list \<Rightarrow> string list set" where
  "clashing coll rows t vals = {r \<in> rows t. clash coll t vals r}"

definition needs_id :: "string \<Rightarrow> (string \<times> string) list \<Rightarrow> bool" where
  "needs_id t vals \<longleftrightarrow> td_auto (schema t) \<and> map_of vals ''id'' = None"

definition put_allowed :: "(string \<Rightarrow> string) \<Rightarrow> sql_tables \<Rightarrow> string \<Rightarrow> (string \<times> string) list \<Rightarrow> bool" where
  "put_allowed coll tb t vals \<longleftrightarrow> given t vals \<and> fits t vals \<and> parents coll (tb_rows tb) t vals
     \<and> \<not> held coll (tb_rows tb) t (clashing coll (tb_rows tb) t vals)
     \<and> (needs_id t vals \<longrightarrow> \<not> tb_full tb t)"

definition put_rows :: "(string \<Rightarrow> string) \<Rightarrow> (string \<Rightarrow> string list set) \<Rightarrow> string \<Rightarrow> nat \<Rightarrow> (string \<times> string) list \<Rightarrow> string \<Rightarrow> string list set" where
  "put_rows coll rows t i vals = (\<lambda>t'. delete_rows coll rows t (clashing coll rows t vals) t'
     \<union> (if t' = t then {new_row t i vals} else {}))"

text \<open>An id MySQL may give to a new row: positive, in the range of the column, and not in use.\<close>

definition fresh_id :: "(string \<Rightarrow> string list set) \<Rightarrow> string \<Rightarrow> nat \<Rightarrow> bool" where
  "fresh_id rows t i \<longleftrightarrow> 0 < i \<and> i < 2 ^ 32 \<and> (\<forall>r \<in> rows t. cell t r ''id'' \<noteq> decimal i)"

section \<open>The statements\<close>

text \<open>
  The keys the classes look up and the columns they write. The texts the laws are about: printable
  characters without quote and backslash, no space at the end (MySQL drops it from a \<^verbatim>\<open>char\<close> column),
  neither empty nor the word \<^verbatim>\<open>NULL\<close>, both of which the statement builder treats in a way of their own.
\<close>

definition find_shapes :: "(string \<times> string list) list" where
  "find_shapes = [(''championships'', [''id'']), (''championships'', [''name'']),
     (''clubs'', [''id'']), (''clubs'', [''name'', ''country'']),
     (''seasons'', [''id'']), (''seasons'', [''championship'', ''year'']),
     (''clubs_seasons'', [''season'']), (''clubs_seasons'', [''club'', ''season''])]"

definition put_shapes :: "(string \<times> string list) list" where
  "put_shapes = [(''championships'', [''country'', ''name'']), (''championships'', [''country'', ''id'', ''name'']),
     (''clubs'', [''country'', ''name'']), (''clubs'', [''country'', ''id'', ''name'']),
     (''seasons'', [''championship'', ''year'']), (''seasons'', [''championship'', ''id'', ''year'']),
     (''seasons'', [''id'']), (''clubs_seasons'', [''club'', ''season''])]"

definition sql_text :: "string \<Rightarrow> bool" where
  "sql_text v \<longleftrightarrow> v \<noteq> [] \<and> v \<noteq> ''NULL'' \<and> last v \<noteq> CHR '' ''
     \<and> list_all (\<lambda>c. let n = (of_char c :: nat) in 32 \<le> n \<and> n < 127 \<and> n \<noteq> 0x27 \<and> n \<noteq> 0x5C) v"

lemma sql_text_ne [simp]: "sql_text v \<Longrightarrow> v \<noteq> []"
  by (simp add: sql_text_def)

lemma sql_value_text: "sql_text v \<Longrightarrow> sql_value v = quoted v"
  by (simp add: sql_text_def sql_value_def)

lemma sql_text_decimal [simp]: "sql_text (decimal i)"
proof -
  have "digit_char d \<noteq> CHR '' ''" if "d < 10" for d
    using digit_char_props(3) [OF that] by (auto simp: is_space_char_def)
  moreover obtain d where "d < 10" and "last (decimal i) = digit_char d"
    using decimal_digits [OF last_in_set [OF decimal_ne_Nil]] by blast
  ultimately have "last (decimal i) \<noteq> CHR '' ''" by simp
  moreover have "decimal i \<noteq> ''NULL''"
    by (rule decimal_hd [of i]) (simp add: digit_char_props)
  ultimately show ?thesis
    by (auto simp: sql_text_def list_all_iff dest!: decimal_digits)
qed

text \<open>
  The columns that hold numbers. They are compared as numbers, so the laws are about
  decimals there (MySQL also finds the row 3 for the text \<^verbatim>\<open>03\<close>), and about texts as above elsewhere.
\<close>

definition number_columns :: "(string \<times> string) list" where
  "number_columns = [(''championships'', ''id''), (''clubs'', ''id''), (''clubs_seasons'', ''club''),
     (''clubs_seasons'', ''season''), (''countries'', ''id''), (''seasons'', ''championship''), (''seasons'', ''id'')]"

definition served_values :: "string \<Rightarrow> (string \<times> string) list \<Rightarrow> bool" where
  "served_values t cvs \<longleftrightarrow> list_all (\<lambda>(c, v). if (t, c) \<in> set number_columns then \<exists>i. v = decimal i else sql_text v) cvs"

lemma served_valuesD: "served_values t cvs \<Longrightarrow> list_all (\<lambda>cv. sql_text (snd cv)) cvs"
  by (auto simp: served_values_def list_all_iff split: if_splits)

lemma served_values_some:
  "served_values t vals \<Longrightarrow> \<forall>(c, v) \<in> set cvs. map_of vals c = Some v \<Longrightarrow> served_values t cvs"
  by (fastforce simp: served_values_def list_all_iff dest: map_of_SomeD)

definition cond_text :: "(string \<times> string) list \<Rightarrow> string" where
  "cond_text conds = (case conds of
      [(c, v)] \<Rightarrow> c @ '' = '' @ quoted v
    | [(c, v), (c', v')] \<Rightarrow> c @ '' = '' @ quoted v @ '' AND '' @ c' @ '' = '' @ quoted v'
    | _ \<Rightarrow> [])"

definition find_text :: "string \<Rightarrow> (string \<times> string) list \<Rightarrow> string \<Rightarrow> string" where
  "find_text t conds rest = ''SELECT * FROM '' @ t @ '' WHERE '' @ cond_text conds @ rest"

definition put_text :: "string \<Rightarrow> (string \<times> string) list \<Rightarrow> string" where
  "put_text t vals = ''REPLACE INTO '' @ t @ '' ('' @ comma_join (map fst vals) @ '') VALUES (''
     @ comma_join (map (\<lambda>fv. quoted (snd fv)) vals) @ '');''"

text \<open>With \<^verbatim>\<open>LIMIT 1\<close> the answer is one of the rows, if there is one; without, it is all of them in some order.\<close>

definition answers :: "bool \<Rightarrow> string list set \<Rightarrow> string list list \<Rightarrow> bool" where
  "answers limit R rs \<longleftrightarrow> (if limit then (case rs of [] \<Rightarrow> R = {} | r # rest \<Rightarrow> r \<in> R \<and> rest = [])
     else set rs = R \<and> distinct rs)"

text \<open>The statements the laws are about, and a connection that works for them, and does not touch the rows by itself.\<close>

definition served_stmt :: "string \<Rightarrow> bool" where
  "served_stmt q \<longleftrightarrow>
     (\<exists>t conds rest. (t, map fst conds) \<in> set find_shapes \<and> served_values t conds
        \<and> rest \<in> {'' LIMIT 1;'', ''  LIMIT 1;'', '';''} \<and> q = find_text t conds rest)
     \<or> (\<exists>t vals. (t, map fst vals) \<in> set put_shapes \<and> served_values t vals \<and> q = put_text t vals)"

lemma served_find:
  "(t, map fst conds) \<in> set find_shapes \<Longrightarrow> served_values t conds \<Longrightarrow>
   rest \<in> {'' LIMIT 1;'', ''  LIMIT 1;'', '';''} \<Longrightarrow> served_stmt (find_text t conds rest)"
  unfolding served_stmt_def by blast

lemma served_put:
  "(t, map fst vals) \<in> set put_shapes \<Longrightarrow> served_values t vals \<Longrightarrow> served_stmt (put_text t vals)"
  unfolding served_stmt_def by blast

definition calm :: "'db sql_api \<Rightarrow> ('db \<Rightarrow> 'x) \<Rightarrow> bool" where
  "calm api rows \<longleftrightarrow>
     (\<forall>a b c d. \<exists>d'. api_connect api a b c d = (Inr (), d') \<and> rows d' = rows d)
     \<and> (\<forall>a d. \<exists>d'. api_set_schema api a d = (Inr (), d') \<and> rows d' = rows d)
     \<and> (\<forall>d. \<exists>d'. api_reconnect api d = (Inr (), d') \<and> rows d' = rows d)
     \<and> (\<forall>q d. served_stmt q \<longrightarrow> (\<exists>d'. api_prepare api q d = (Inr (), d') \<and> rows d' = rows d))"

text \<open>The collation tells numbers apart.\<close>

definition coll_numbers :: "(string \<Rightarrow> string) \<Rightarrow> bool" where
  "coll_numbers coll \<longleftrightarrow> (\<forall>i j. coll (decimal i) = coll (decimal j) \<longrightarrow> i = j)"

definition mysql_serves :: "(string \<Rightarrow> string) \<Rightarrow> 'db sql_api \<Rightarrow> ('db \<Rightarrow> sql_tables) \<Rightarrow> bool" where
  "mysql_serves coll api tabs \<longleftrightarrow> calm api tabs
     \<and> coll_numbers coll
     \<and> (\<forall>t conds rest d. (t, map fst conds) \<in> set find_shapes \<longrightarrow> served_values t conds
          \<longrightarrow> rest \<in> {'' LIMIT 1;'', ''  LIMIT 1;'', '';''} \<longrightarrow>
          (\<exists>rs d'. api_execute_query api (find_text t conds rest) d = (Inr (table_rs (td_columns (schema t)) rs), d')
             \<and> tabs d' = tabs d \<and> answers (rest \<noteq> '';'') {r \<in> tb_rows (tabs d) t. hits coll t conds r} rs))
     \<and> (\<forall>t vals d. (t, map fst vals) \<in> set put_shapes \<longrightarrow> served_values t vals \<longrightarrow>
          (if put_allowed coll (tabs d) t vals
           then \<exists>rs i d'. api_execute_query api (put_text t vals) d = (Inr rs, d')
             \<and> tb_rows (tabs d') = put_rows coll (tb_rows (tabs d)) t i vals
             \<and> (needs_id t vals \<longrightarrow> fresh_id (tb_rows (tabs d)) t i)
           else \<exists>code why d'. api_execute_query api (put_text t vals) d = (Inl (Sql_exception code why), d')
             \<and> tb_rows (tabs d') = tb_rows (tabs d)))"

section \<open>One statement\<close>

lemma calmD:
  assumes "calm api rows"
  shows "\<exists>d'. api_connect api a b c d = (Inr (), d') \<and> rows d' = rows d"
    and "\<exists>d'. api_set_schema api e d = (Inr (), d') \<and> rows d' = rows d"
    and "\<exists>d'. api_reconnect api d = (Inr (), d') \<and> rows d' = rows d"
    and "served_stmt q \<Longrightarrow> \<exists>d'. api_prepare api q d = (Inr (), d') \<and> rows d' = rows d"
  using assms unfolding calm_def by blast+

lemma connect_served:
  assumes "calm api rows"
  shows "\<exists>s1. connect api s = (Inr (), s1) \<and> srv_connection s1 \<and> rows (srv_db s1) = rows (srv_db s)"
proof -
  obtain d1 where d1: "api_connect api (env_server (srv_env s)) (env_username (srv_env s))
      (env_password (srv_env s)) (srv_db s) = (Inr (), d1)" "rows d1 = rows (srv_db s)"
    using calmD(1) [OF assms(1)] by blast
  obtain d2 where d2: "api_set_schema api (env_database (srv_env s)) d1 = (Inr (), d2)" "rows d2 = rows d1"
    using calmD(2) [OF assms(1)] by blast
  obtain d3 where d3: "api_reconnect api (srv_db s) = (Inr (), d3)" "rows d3 = rows (srv_db s)"
    using calmD(3) [OF assms(1)] by blast
  from d1 d2 d3 show ?thesis
    by (simp add: connect_def prog_simps on_db_def)
qed

lemma run_stmt_executed:
  assumes "calm api tabs" and "served_stmt q"
  obtains d where "tabs d = tabs (srv_db s)"
    and "\<And>rs d'. api_execute_query api q d = (Inr rs, d') \<Longrightarrow>
      \<exists>s'. run_stmt api q s = (Inr (), s') \<and> srv_result s' = Some rs \<and> srv_db s' = d'"
    and "\<And>e d'. api_execute_query api q d = (Inl e, d') \<Longrightarrow> \<exists>s'. run_stmt api q s = (Inl e, s') \<and> srv_db s' = d'"
proof -
  obtain s0 where s0: "connect api s = (Inr (), s0)" "srv_connection s0" "tabs (srv_db s0) = tabs (srv_db s)"
    using connect_served [OF assms(1)] by blast
  obtain d1 where "api_prepare api q (srv_db s0) = (Inr (), d1)" and d1: "tabs d1 = tabs (srv_db s0)"
    using calmD(4) [OF assms] by blast
  with s0 have prep: "prepare api q s0 = (Inr (), s0\<lparr>srv_db := d1, srv_pstmt := Some q\<rparr>)"
    by (simp add: prepare_def prog_simps on_db_def)
  define s1 where "s1 = s0\<lparr>srv_db := d1, srv_pstmt := Some q\<rparr>"
  have run: "run_stmt api q s = execute api s1" and s1: "srv_pstmt s1 = Some q" "tabs (srv_db s1) = tabs (srv_db s)"
    using s0 prep d1 by (simp_all add: s1_def run_stmt_def then_p_def bind_p_def)
  show thesis
  proof (rule that [of "srv_db s1"])
    show "tabs (srv_db s1) = tabs (srv_db s)" by (rule s1(2))
  next
    fix rs d'
    assume "api_execute_query api q (srv_db s1) = (Inr rs, d')"
    with s1(1) show "\<exists>s'. run_stmt api q s = (Inr (), s') \<and> srv_result s' = Some rs \<and> srv_db s' = d'"
      by (simp add: run execute_def prog_simps on_db_def)
  next
    fix e d'
    assume "api_execute_query api q (srv_db s1) = (Inl e, d')"
    with s1(1) show "\<exists>s'. run_stmt api q s = (Inl e, s') \<and> srv_db s' = d'"
      by (simp add: run execute_def prog_simps on_db_def)
  qed
qed

end
