(* ===== verification/Table_Service.thy ===== *)
theory Table_Service
  imports Schema
begin

text \<open>
  What a table object does to a database that serves its statements: looking a row up, and \<^verbatim>\<open>save\<close>, for
  every class at once.
\<close>

lemma mysql_servesD:
  assumes "mysql_serves coll api tabs"
  shows "calm api tabs"
    and "coll_numbers coll"
    and "(t, map fst conds) \<in> set find_shapes \<Longrightarrow> served_values t conds \<Longrightarrow>
      rest \<in> {'' LIMIT 1;'', ''  LIMIT 1;'', '';''} \<Longrightarrow>
      \<exists>rs d'. api_execute_query api (find_text t conds rest) d = (Inr (table_rs (td_columns (schema t)) rs), d')
        \<and> tabs d' = tabs d \<and> answers (rest \<noteq> '';'') {r \<in> tb_rows (tabs d) t. hits coll t conds r} rs"
    and "(t, map fst vals) \<in> set put_shapes \<Longrightarrow> served_values t vals \<Longrightarrow>
      (if put_allowed coll (tabs d) t vals
       then \<exists>rs i d'. api_execute_query api (put_text t vals) d = (Inr rs, d')
         \<and> tb_rows (tabs d') = put_rows coll (tb_rows (tabs d)) t i vals
         \<and> (needs_id t vals \<longrightarrow> fresh_id (tb_rows (tabs d)) t i)
       else \<exists>code why d'. api_execute_query api (put_text t vals) d = (Inl (Sql_exception code why), d')
         \<and> tb_rows (tabs d') = tb_rows (tabs d))"
  using assms unfolding mysql_serves_def by blast+

abbreviation db_tables :: "('db \<Rightarrow> sql_tables) \<Rightarrow> 'db server \<Rightarrow> string \<Rightarrow> string list set" where
  "db_tables tabs s \<equiv> tb_rows (tabs (srv_db s))"

lemma run_find:
  assumes sv: "mysql_serves coll api tabs"
    and "(t, map fst conds) \<in> set find_shapes" and "served_values t conds"
    and "rest \<in> {'' LIMIT 1;'', ''  LIMIT 1;'', '';''}"
  obtains s' rs where "run_stmt api (find_text t conds rest) s = (Inr (), s')"
    and "srv_result s' = Some (table_rs (td_columns (schema t)) rs)"
    and "tabs (srv_db s') = tabs (srv_db s)"
    and "answers (rest \<noteq> '';'') {r \<in> db_tables tabs s t. hits coll t conds r} rs"
proof -
  obtain d where d: "tabs d = tabs (srv_db s)"
    and run: "\<And>rs d'. api_execute_query api (find_text t conds rest) d = (Inr rs, d') \<Longrightarrow>
      \<exists>s'. run_stmt api (find_text t conds rest) s = (Inr (), s') \<and> srv_result s' = Some rs \<and> srv_db s' = d'"
    using run_stmt_executed [OF mysql_servesD(1) [OF sv], of "find_text t conds rest" s] served_find [OF assms(2-4)] by metis
  from mysql_servesD(3) [OF sv assms(2-4), of d] obtain rs d'
    where q: "api_execute_query api (find_text t conds rest) d = (Inr (table_rs (td_columns (schema t)) rs), d')"
      and "tabs d' = tabs d" and "answers (rest \<noteq> '';'') {r \<in> tb_rows (tabs d) t. hits coll t conds r} rs"
    by blast
  with run [OF q] d that show thesis by auto
qed

lemma run_put:
  assumes sv: "mysql_serves coll api tabs"
    and "(t, map fst vals) \<in> set put_shapes" and "served_values t vals"
  shows "if put_allowed coll (tabs (srv_db s)) t vals
    then \<exists>i s'. run_stmt api (put_text t vals) s = (Inr (), s')
      \<and> db_tables tabs s' = put_rows coll (db_tables tabs s) t i vals
      \<and> (needs_id t vals \<longrightarrow> fresh_id (db_tables tabs s) t i)
    else \<exists>e s'. run_stmt api (put_text t vals) s = (Inl e, s') \<and> is_sql_exception e
      \<and> db_tables tabs s' = db_tables tabs s"
proof -
  obtain d where d: "tabs d = tabs (srv_db s)"
    and run: "\<And>rs d'. api_execute_query api (put_text t vals) d = (Inr rs, d') \<Longrightarrow>
      \<exists>s'. run_stmt api (put_text t vals) s = (Inr (), s') \<and> srv_result s' = Some rs \<and> srv_db s' = d'"
    and fail: "\<And>e d'. api_execute_query api (put_text t vals) d = (Inl e, d') \<Longrightarrow>
      \<exists>s'. run_stmt api (put_text t vals) s = (Inl e, s') \<and> srv_db s' = d'"
    using run_stmt_executed [OF mysql_servesD(1) [OF sv], of "put_text t vals" s] served_put [OF assms(2,3)] by metis
  show ?thesis
  proof (cases "put_allowed coll (tabs (srv_db s)) t vals")
    case True
    with mysql_servesD(4) [OF sv assms(2,3), of d] d obtain rs i d'
      where q: "api_execute_query api (put_text t vals) d = (Inr rs, d')"
        and eff: "tb_rows (tabs d') = put_rows coll (db_tables tabs s) t i vals"
          "needs_id t vals \<longrightarrow> fresh_id (db_tables tabs s) t i"
      by auto
    from run [OF q] obtain s' where "run_stmt api (put_text t vals) s = (Inr (), s')" "srv_db s' = d'" by blast
    with True eff show ?thesis by auto
  next
    case False
    with mysql_servesD(4) [OF sv assms(2,3), of d] d obtain code why d'
      where q: "api_execute_query api (put_text t vals) d = (Inl (Sql_exception code why), d')"
        and eff: "tb_rows (tabs d') = db_tables tabs s"
      by auto
    from fail [OF q] obtain s' where "run_stmt api (put_text t vals) s = (Inl (Sql_exception code why), s')" "srv_db s' = d'" by blast
    with False eff show ?thesis by (auto intro!: exI [of _ "Sql_exception code why"])
  qed
qed

section \<open>Statement texts\<close>

lemma insert_put_text:
  assumes "fields_values t = vals" and "vals \<noteq> []" and "list_all (\<lambda>cv. sql_text (snd cv)) vals"
  shows "insert_stmt t = put_text (tablename t) vals"
proof -
  have "comma_join (map (\<lambda>fv. sql_value (snd fv)) vals) = comma_join (map (\<lambda>fv. quoted (snd fv)) vals)"
    using assms(3) by (simp add: list_all_iff sql_value_text cong: map_cong)
  with assms(1,2) show ?thesis
    by (simp add: insert_stmt_def put_text_def fields_comma sql_values_comma)
qed

lemma start_find:
  assumes "fields_values t = []"
  shows "start_stmt (Mysql_Table.fields t) (tablename t) f1 v1 f2 v2
    = find_text (tablename t) ((f1, v1) # (if v2 = [] then [] else [(f2, v2)])) (if v2 = [] then ''  LIMIT 1;'' else '' LIMIT 1;'')"
    and "start_list_stmt (Mysql_Table.fields t) (tablename t) f1 v1 = find_text (tablename t) [(f1, v1)] '';''"
  using assms by (simp_all add: start_stmt_def start_list_stmt_def find_text_def cond_text_def fields_comma)

definition key_conds :: "'a table_scheme \<Rightarrow> (string \<times> string) list" where
  "key_conds t = (key_field1 t, get_field (key_field1 t) t)
     # (if key_field2 t = [] then [] else [(key_field2 t, get_field (key_field2 t) t)])"

lemma reload_find: "reload_stmt t = find_text (tablename t) (key_conds t) '' LIMIT 1;''"
  by (simp add: reload_stmt_def key_cond_def find_text_def cond_text_def key_conds_def)

section \<open>Looking a row up\<close>

lemma fresh_table_rs [simp]: "fresh_rs (table_rs cols rows) \<longleftrightarrow> list_all (\<lambda>r. length r = length cols) rows"
  by (simp add: fresh_rs_def)

text \<open>Rows have a text for each column of their table.\<close>

definition rows_wide :: "(string \<Rightarrow> string list set) \<Rightarrow> bool" where
  "rows_wide rows \<longleftrightarrow> (\<forall>t. \<forall>r \<in> rows t. length r = length (td_columns (schema t)))"

definition start_conds :: "string \<Rightarrow> string \<Rightarrow> string \<Rightarrow> string \<Rightarrow> (string \<times> string) list" where
  "start_conds f1 v1 f2 v2 = (f1, v1) # (if v2 = [] then [] else [(f2, v2)])"

lemma start_served:
  assumes sv: "mysql_serves coll api tabs" and wide: "rows_wide (db_tables tabs s)"
    and t: "fields_values t = []" and vals: "served_values (tablename t) (start_conds f1 v1 f2 v2)"
    and shape: "(tablename t, map fst (start_conds f1 v1 f2 v2)) \<in> set find_shapes"
  obtains (found) s' r where "r \<in> db_tables tabs s (tablename t)" and "hits coll (tablename t) (start_conds f1 v1 f2 v2) r"
      and "start api f1 v1 f2 v2 (t, s) = (Inr True, (t\<lparr>sql_count := Suc (sql_count t), found_flag := True,
        fields_values := overlay (td_columns (schema (tablename t))) r []\<rparr>, s'))"
      and "tabs (srv_db s') = tabs (srv_db s)"
    | (absent) s' where "\<forall>r \<in> db_tables tabs s (tablename t). \<not> hits coll (tablename t) (start_conds f1 v1 f2 v2) r"
      and "start api f1 v1 f2 v2 (t, s) = (Inr False, (t\<lparr>sql_count := Suc (sql_count t), found_flag := False,
        fields_values := fold (\<lambda>(c, v). map_put c v) (start_conds f1 v1 f2 v2) []\<rparr>, s'))"
      and "tabs (srv_db s') = tabs (srv_db s)"
proof -
  let ?conds = "start_conds f1 v1 f2 v2" and ?T = "tablename t"
  let ?rest = "if v2 = [] then ''  LIMIT 1;'' else '' LIMIT 1;''"
  have stmt: "start_stmt (Mysql_Table.fields t) ?T f1 v1 f2 v2 = find_text ?T ?conds ?rest"
    using start_find(1) [OF t] by (simp add: start_conds_def)
  have v1: "sql_text v1" and v2: "v2 = [] \<or> sql_text v2"
    using served_valuesD [OF vals] by (auto simp: start_conds_def split: if_splits)
  have "?rest \<in> {'' LIMIT 1;'', ''  LIMIT 1;'', '';''}" by simp
  with vals obtain s1 rs where run: "run_stmt api (find_text ?T ?conds ?rest) s = (Inr (), s1)"
    and res: "srv_result s1 = Some (table_rs (td_columns (schema ?T)) rs)" and same: "tabs (srv_db s1) = tabs (srv_db s)"
    and ans: "answers (?rest \<noteq> '';'') {r \<in> db_tables tabs s ?T. hits coll ?T ?conds r} rs"
    using run_find [OF sv shape] by blast
  have lim: "?rest \<noteq> '';''" by simp
  have "list_all (\<lambda>r. length r = length (td_columns (schema ?T))) rs"
    using ans wide by (auto simp: answers_def rows_wide_def lim split: list.splits)
  then have frs: "fresh_rs (table_rs (td_columns (schema ?T)) rs)" by simp
  note sel = select_answer [OF run res frs, of t]
  note st = start_select [OF sql_text_ne [OF v1], of api t f1 f2 v2 s, unfolded stmt]
  show thesis
  proof (cases rs)
    case Nil
    with sel have "select api (find_text ?T ?conds ?rest) (t, s) =
        (Inr False, (t\<lparr>sql_count := Suc (sql_count t), found_flag := False\<rparr>, s1))" by simp
    from st [OF this] have "start api f1 v1 f2 v2 (t, s) = (Inr False,
        (t\<lparr>sql_count := Suc (sql_count t), found_flag := False,
           fields_values := fold (\<lambda>(c, v). map_put c v) ?conds []\<rparr>, s1))"
      using t v1 v2 by (auto simp: set_field_def start_conds_def)
    moreover have "\<forall>r \<in> db_tables tabs s ?T. \<not> hits coll ?T ?conds r"
      using ans Nil lim by (auto simp: answers_def)
    ultimately show thesis using absent same by blast
  next
    case (Cons r rest)
    with sel have "select api (find_text ?T ?conds ?rest) (t, s) =
        (Inr True, (t\<lparr>sql_count := Suc (sql_count t), found_flag := True,
           fields_values := overlay (td_columns (schema ?T)) r []\<rparr>,
         s1\<lparr>srv_result := Some ((table_rs (td_columns (schema ?T)) rs)\<lparr>rs_cursor := 1\<rparr>)\<rparr>))" by (simp add: t)
    from st [OF this] have run_start: "start api f1 v1 f2 v2 (t, s) = (Inr True, (t\<lparr>sql_count := Suc (sql_count t), found_flag := True,
           fields_values := overlay (td_columns (schema ?T)) r []\<rparr>,
         s1\<lparr>srv_result := Some ((table_rs (td_columns (schema ?T)) rs)\<lparr>rs_cursor := 1\<rparr>)\<rparr>))" by simp
    have "r \<in> db_tables tabs s ?T" "hits coll ?T ?conds r"
      using ans Cons lim by (auto simp: answers_def split: if_splits)
    from found [OF this run_start] show thesis using same by simp
  qed
qed

section \<open>Saving\<close>

definition covers :: "string \<Rightarrow> string list \<Rightarrow> bool" where
  "covers t cols \<longleftrightarrow> list_ex (\<lambda>key. set key \<subseteq> set cols) (td_keys (schema t)) \<and> set cols \<subseteq> set (td_columns (schema t))"

lemma cell_new_row:
  assumes "c \<in> set (td_columns (schema t))"
  shows "cell t (new_row t i vals) c = (case map_of vals c of Some v \<Rightarrow> v | None \<Rightarrow> decimal i)"
proof -
  have "map_of (zip cols (map f cols)) c = Some (f c)" if "c \<in> set cols" for cols and f :: "string \<Rightarrow> string"
    using that by (induction cols) auto
  with assms show ?thesis by (simp add: cell_def new_row_def)
qed

text \<open>Once a row has been put, a look-up that covers one of its keys finds it and nothing else.\<close>

lemma put_then_find:
  assumes keys: "covers t (map fst conds)" and given: "\<forall>(c, v) \<in> set conds. map_of vals c = Some v"
  shows "{r \<in> put_rows coll rows t i vals t. hits coll t conds r} = {new_row t i vals}"
proof (intro equalityI subsetI)
  fix r
  assume r: "r \<in> {r \<in> put_rows coll rows t i vals t. hits coll t conds r}"
  from keys obtain key where "key \<in> set (td_keys (schema t))" and sub: "set key \<subseteq> fst ` set conds"
    by (auto simp: covers_def list_ex_iff)
  moreover have "coll (cell t r c) = coll v" "map_of vals c = Some v" if "(c, v) \<in> set conds" for c v
    using r given that by (auto simp: hits_def list_all_iff)
  ultimately have "clash coll t vals r"
    unfolding clash_def list_ex_iff list_all_iff by (intro bexI [of _ key]) force+
  with r show "r \<in> {new_row t i vals}"
    by (auto simp: put_rows_def delete_rows_def clashing_def)
next
  fix r
  assume "r \<in> {new_row t i vals}"
  moreover have "hits coll t conds (new_row t i vals)"
    using keys given by (force simp: hits_def list_all_iff covers_def cell_new_row)
  ultimately show "r \<in> {r \<in> put_rows coll rows t i vals t. hits coll t conds r}"
    by (simp add: put_rows_def)
qed

context table_class
begin

lemma save_put:
  assumes sv: "mysql_serves coll api tabs"
    and pop: "v_populate vt t = (Inr (), t1)" and key: "key_field1 t1 \<noteq> ''id''"
    and vals: "fields_values t1 = vals" "vals \<noteq> []" and served: "served_values (tablename t1) vals"
    and put: "(tablename t1, map fst vals) \<in> set put_shapes"
    and find: "(tablename t1, map fst (key_conds t1)) \<in> set find_shapes" "covers (tablename t1) (map fst (key_conds t1))"
    and conds: "\<forall>(c, v) \<in> set (key_conds t1). map_of vals c = Some v"
  obtains (saved) i s' where "put_allowed coll (tabs (srv_db s)) (tablename t1) vals"
      and "needs_id (tablename t1) vals \<Longrightarrow> fresh_id (db_tables tabs s) (tablename t1) i"
      and "db_tables tabs s' = put_rows coll (db_tables tabs s) (tablename t1) i vals"
      and "save api vt (t, s) = then_p (on_fst (v_reset vt)) (v_save_related vt)
        (t1\<lparr>sql_count := sql_count t1 + 2, found_flag := True,
           fields_values := overlay (td_columns (schema (tablename t1))) (new_row (tablename t1) i vals) vals\<rparr>, s')"
    | (rejected) s' where "\<not> put_allowed coll (tabs (srv_db s)) (tablename t1) vals"
      and "save api vt (t, s) = (Inr False, (t1, s'))" and "db_tables tabs s' = db_tables tabs s"
proof (cases "put_allowed coll (tabs (srv_db s)) (tablename t1) vals")
  case True
  let ?T = "tablename t1"
  have ins: "insert_stmt t1 = put_text ?T vals" by (rule insert_put_text [OF vals served_valuesD [OF served]])
  from True run_put [OF sv put served, of s] obtain i s1
    where run: "run_stmt api (insert_stmt t1) s = (Inr (), s1)"
      and rows: "db_tables tabs s1 = put_rows coll (db_tables tabs s) ?T i vals"
      and fresh: "needs_id ?T vals \<longrightarrow> fresh_id (db_tables tabs s) ?T i"
    by (auto simp: ins)
  have texts: "served_values ?T (key_conds t1)"
    using served conds by (rule served_values_some)
  obtain s2 rs where run2: "run_stmt api (reload_stmt t1) s1 = (Inr (), s2)"
    and res: "srv_result s2 = Some (table_rs (td_columns (schema ?T)) rs)"
    and same: "tabs (srv_db s2) = tabs (srv_db s1)"
    and ans: "answers ('' LIMIT 1;'' \<noteq> '';'') {r \<in> db_tables tabs s1 ?T. hits coll ?T (key_conds t1) r} rs"
    using run_find [OF sv find(1) texts, of "'' LIMIT 1;''" s1] by (auto simp: reload_find)
  from ans have rs: "rs = [new_row ?T i vals]"
    unfolding rows put_then_find [OF find(2) conds] by (auto simp: answers_def split: list.splits)
  have fill: "key_fill t1 = t1"
    using conds by (intro key_fill_present) (auto simp: key_conds_def vals(1) split: if_splits)
  have frs: "fresh_rs (table_rs (td_columns (schema ?T)) rs)" by (simp add: rs new_row_def)
  from save_reloaded [OF pop key run run2 res frs, of "new_row ?T i vals" "[]"] rs
  have "save api vt (t, s) = then_p (on_fst (v_reset vt)) (v_save_related vt)
      (t1\<lparr>sql_count := sql_count t1 + 2, found_flag := True,
         fields_values := overlay (td_columns (schema ?T)) (new_row ?T i vals) vals\<rparr>,
       s2\<lparr>srv_result := Some ((table_rs (td_columns (schema ?T)) rs)\<lparr>rs_cursor := 1\<rparr>)\<rparr>)"
    by (simp add: fill vals(1))
  with True fresh rows same show thesis by (intro saved) simp_all
next
  case False
  have ins: "insert_stmt t1 = put_text (tablename t1) vals" by (rule insert_put_text [OF vals served_valuesD [OF served]])
  from False run_put [OF sv put served, of s] obtain e s1
    where "run_stmt api (insert_stmt t1) s = (Inl e, s1)" and "is_sql_exception e"
      and "db_tables tabs s1 = db_tables tabs s"
    by (auto simp: ins)
  with save_rejected [OF pop] False rejected show thesis by blast
qed

lemma save_unpopulated:
  assumes "v_populate vt t = (Inl e, t1)"
  shows "save api vt (t, s) = (if is_std_exception e then Inr False else Inl e, (t1, s))"
  using assms by (simp add: save_def prog_simps)

end

text \<open>
  An object that is ready to be written: its fields are values for a \<^verbatim>\<open>REPLACE\<close> that the classes issue, and the
  key fields are among them, cover a key of the table and are not the id.
\<close>

definition saveable :: "'a table_scheme \<Rightarrow> bool" where
  "saveable t \<longleftrightarrow> fields_values t \<noteq> [] \<and> served_values (tablename t) (fields_values t)
     \<and> (tablename t, map fst (fields_values t)) \<in> set put_shapes
     \<and> (tablename t, map fst (key_conds t)) \<in> set find_shapes \<and> covers (tablename t) (map fst (key_conds t))
     \<and> key_field1 t \<noteq> ''id'' \<and> list_all (\<lambda>(c, v). map_of (fields_values t) c = Some v) (key_conds t)"

text \<open>The object as it is read back from the row that has been written, before \<^verbatim>\<open>reset\<close>.\<close>

definition read_back :: "nat \<Rightarrow> 'a table_scheme \<Rightarrow> 'a table_scheme" where
  "read_back i t = t\<lparr>sql_count := sql_count t + 2, found_flag := True,
     fields_values := overlay (td_columns (schema (tablename t))) (new_row (tablename t) i (fields_values t)) (fields_values t)\<rparr>"

lemma save_saveable:
  assumes "mysql_serves coll api tabs" and "table_class vt" and "v_populate vt t = (Inr u, t1)" and "saveable t1"
  shows "if put_allowed coll (tabs (srv_db s)) (tablename t1) (fields_values t1)
    then \<exists>i s1. (needs_id (tablename t1) (fields_values t1) \<longrightarrow> fresh_id (db_tables tabs s) (tablename t1) i)
      \<and> db_tables tabs s1 = put_rows coll (db_tables tabs s) (tablename t1) i (fields_values t1)
      \<and> save api vt (t, s) = (case v_reset vt (read_back i t1) of
            (Inl e, t2) \<Rightarrow> (Inl e, (t2, s1))
          | (Inr _, t2) \<Rightarrow> v_save_related vt (t2, s1))
    else \<exists>s1. save api vt (t, s) = (Inr False, (t1, s1)) \<and> db_tables tabs s1 = db_tables tabs s"
proof -
  have pop: "v_populate vt t = (Inr (), t1)" using assms(3) by simp
  have ready: "key_field1 t1 \<noteq> ''id''" "fields_values t1 \<noteq> []" "served_values (tablename t1) (fields_values t1)"
    "(tablename t1, map fst (fields_values t1)) \<in> set put_shapes"
    "(tablename t1, map fst (key_conds t1)) \<in> set find_shapes" "covers (tablename t1) (map fst (key_conds t1))"
    "\<forall>(c, v) \<in> set (key_conds t1). map_of (fields_values t1) c = Some v"
    using assms(4) by (auto simp: saveable_def list_all_iff)
  show ?thesis
  proof (rule table_class.save_put [OF assms(2,1) pop ready(1) refl ready(2-7), of s])
    fix i s1
    assume "put_allowed coll (tabs (srv_db s)) (tablename t1) (fields_values t1)"
      and "needs_id (tablename t1) (fields_values t1) \<Longrightarrow> fresh_id (db_tables tabs s) (tablename t1) i"
      and "db_tables tabs s1 = put_rows coll (db_tables tabs s) (tablename t1) i (fields_values t1)"
      and "save api vt (t, s) = then_p (on_fst (v_reset vt)) (v_save_related vt) (t1\<lparr>sql_count := sql_count t1 + 2,
        found_flag := True, fields_values := overlay (td_columns (schema (tablename t1)))
          (new_row (tablename t1) i (fields_values t1)) (fields_values t1)\<rparr>, s1)"
    then show ?thesis
      by (auto simp: read_back_def then_p_def bind_p_def on_fst_def intro!: exI [of _ i] exI [of _ s1]
          split: prod.splits sum.splits)
  qed auto
qed

section \<open>Well-formed contents\<close>

text \<open>
  What the tables hold whatever has been done to them: as many texts as columns, numbers in the number
  columns, and no two rows with the same key.
\<close>

definition tables_ok :: "(string \<Rightarrow> string) \<Rightarrow> (string \<Rightarrow> string list set) \<Rightarrow> bool" where
  "tables_ok coll rows \<longleftrightarrow> rows_wide rows
     \<and> (\<forall>(t, c) \<in> set number_columns. \<forall>r \<in> rows t. \<exists>i. cell t r c = decimal i)
     \<and> (\<forall>t. \<forall>r \<in> rows t. \<forall>r' \<in> rows t. \<forall>key \<in> set (td_keys (schema t)).
          (\<forall>c \<in> set key. coll (cell t r c) = coll (cell t r' c)) \<longrightarrow> r = r')"

lemma tables_okD:
  assumes "tables_ok coll rows"
  shows "rows_wide rows"
    and "(t, c) \<in> set number_columns \<Longrightarrow> r \<in> rows t \<Longrightarrow> \<exists>i. cell t r c = decimal i"
    and "r \<in> rows t \<Longrightarrow> r' \<in> rows t \<Longrightarrow> key \<in> set (td_keys (schema t)) \<Longrightarrow>
      (\<And>c. c \<in> set key \<Longrightarrow> coll (cell t r c) = coll (cell t r' c)) \<Longrightarrow> r = r'"
  using assms unfolding tables_ok_def by blast+

text \<open>
  What the constraints of the tables guarantee: values that fit, references that have their row; that
  the texts the program reads back in order to write them again are plain ones, and that clubs have names.
\<close>

definition text_columns :: "(string \<times> string) list" where
  "text_columns = [(''championships'', ''country''), (''seasons'', ''year'')]"

definition row_fields :: "string \<Rightarrow> string list \<Rightarrow> (string \<times> string) list" where
  "row_fields t r = zip (td_columns (schema t)) r"

definition tables_sound :: "(string \<Rightarrow> string) \<Rightarrow> (string \<Rightarrow> string list set) \<Rightarrow> bool" where
  "tables_sound coll rows \<longleftrightarrow>
     (\<forall>t. \<forall>r \<in> rows t. fits t (row_fields t r) \<and> parents coll rows t (row_fields t r))
     \<and> (\<forall>(t, c) \<in> set text_columns. \<forall>r \<in> rows t. sql_text (cell t r c))
     \<and> (\<forall>r \<in> rows ''clubs''. cell ''clubs'' r ''name'' \<noteq> [])"

definition well_formed :: "(string \<Rightarrow> string) \<Rightarrow> (string \<Rightarrow> string list set) \<Rightarrow> bool" where
  "well_formed coll rows \<longleftrightarrow> tables_ok coll rows \<and> tables_sound coll rows"

text \<open>Columns named by keys, widths and references are columns.\<close>

lemma schema_columns_all:
  "list_all (\<lambda>(t, td). list_all (\<lambda>key. list_all (\<lambda>c. c \<in> set (td_columns td)) key) (td_keys td)
     \<and> list_all (\<lambda>(c, n). c \<in> set (td_columns td) \<and> c \<noteq> ''id'') (td_widths td)
     \<and> list_all (\<lambda>(c, pt, pc, cas). c \<in> set (td_columns td) \<and> pt \<noteq> t \<and> (t, c, pc, cas) \<in> set (refs_to pt))
         (td_refs td)) schema_tables"
  by code_simp

lemma schema_columns:
  shows "key \<in> set (td_keys (schema t)) \<Longrightarrow> c \<in> set key \<Longrightarrow> c \<in> set (td_columns (schema t))"
    and "(c, n) \<in> set (td_widths (schema t)) \<Longrightarrow> c \<in> set (td_columns (schema t)) \<and> c \<noteq> ''id''"
    and "(c, pt, pc, cas) \<in> set (td_refs (schema t)) \<Longrightarrow> c \<in> set (td_columns (schema t)) \<and> pt \<noteq> t
      \<and> (t, c, pc, cas) \<in> set (refs_to pt)"
proof -
  consider td where "(t, td) \<in> set schema_tables" "schema t = td" | "schema t = no_table"
    by (cases "map_of schema_tables t") (auto simp: schema_def dest: map_of_SomeD)
  note which = this
  show "key \<in> set (td_keys (schema t)) \<Longrightarrow> c \<in> set key \<Longrightarrow> c \<in> set (td_columns (schema t))"
    using schema_columns_all by (cases rule: which) (fastforce simp: list_all_iff no_table_def)+
  show "(c, n) \<in> set (td_widths (schema t)) \<Longrightarrow> c \<in> set (td_columns (schema t)) \<and> c \<noteq> ''id''"
    using schema_columns_all by (cases rule: which) (fastforce simp: list_all_iff no_table_def)+
  show "(c, pt, pc, cas) \<in> set (td_refs (schema t)) \<Longrightarrow> c \<in> set (td_columns (schema t)) \<and> pt \<noteq> t
      \<and> (t, c, pc, cas) \<in> set (refs_to pt)"
    using schema_columns_all by (cases rule: which) (fastforce simp: list_all_iff no_table_def)+
qed

lemma schema_simps [simp]:
  "schema ''championships'' = tbl_championships" "schema ''clubs'' = tbl_clubs"
  "schema ''clubs_seasons'' = tbl_clubs_seasons" "schema ''seasons'' = tbl_seasons"
  "schema ''countries'' = tbl_countries"
  by (simp_all add: schema_def schema_tables_def)

lemma columns_simps [simp]:
  "td_columns tbl_championships = [''id'', ''name'', ''country'']"
  "td_columns tbl_clubs = [''id'', ''name'', ''country'']"
  "td_columns tbl_clubs_seasons = [''season'', ''club'']"
  "td_columns tbl_seasons = [''id'', ''championship'', ''year'']"
  "td_columns tbl_countries = [''id'', ''phone_code'', ''country_code'', ''country_name'']"
  by (simp_all add: tbl_championships_def tbl_clubs_def tbl_clubs_seasons_def tbl_seasons_def tbl_countries_def)

lemma keys_simps [simp]:
  "td_keys tbl_championships = [[''id''], [''name'']]" "td_keys tbl_clubs = [[''id''], [''name'']]"
  "td_keys tbl_clubs_seasons = [[''season'', ''club'']]"
  "td_keys tbl_seasons = [[''id''], [''championship'', ''year'']]"
  by (simp_all add: tbl_championships_def tbl_clubs_def tbl_clubs_seasons_def tbl_seasons_def)

lemma refs_to_simps [simp]:
  "refs_to ''championships'' = [(''seasons'', ''championship'', ''id'', False)]"
  "refs_to ''clubs'' = [(''clubs_seasons'', ''club'', ''id'', True)]"
  "refs_to ''clubs_seasons'' = []"
  "refs_to ''seasons'' = [(''clubs_seasons'', ''season'', ''id'', True)]"
  by code_simp+

lemma cell_simps [simp]:
  "cell ''championships'' [a, b, c] ''id'' = a" "cell ''championships'' [a, b, c] ''name'' = b"
  "cell ''championships'' [a, b, c] ''country'' = c"
  "cell ''clubs'' [a, b, c] ''id'' = a" "cell ''clubs'' [a, b, c] ''name'' = b" "cell ''clubs'' [a, b, c] ''country'' = c"
  "cell ''clubs_seasons'' [a, b] ''season'' = a" "cell ''clubs_seasons'' [a, b] ''club'' = b"
  "cell ''seasons'' [a, b, c] ''id'' = a" "cell ''seasons'' [a, b, c] ''championship'' = b"
  "cell ''seasons'' [a, b, c] ''year'' = c"
  by (simp_all add: cell_def)

lemma row_of_three:
  assumes "rows_wide rows" and "r \<in> rows t" and "length (td_columns (schema t)) = 3"
  obtains a b c where "r = [a, b, c]"
proof -
  from assms have "length r = 3" by (auto simp: rows_wide_def)
  with that show thesis by (auto simp: numeral_3_eq_3 length_Suc_conv)
qed

lemma numbers_equal:
  assumes inj: "coll_numbers coll" and ok: "tables_ok coll rows"
    and r: "r \<in> rows t" "(t, c) \<in> set number_columns" and r': "r' \<in> rows t'" "(t', c') \<in> set number_columns"
  shows "coll (cell t r c) = coll (cell t' r' c') \<longleftrightarrow> cell t r c = cell t' r' c'"
proof -
  obtain i j where "cell t r c = decimal i" "cell t' r' c' = decimal j"
    using tables_okD(2) [OF ok r(2,1)] tables_okD(2) [OF ok r'(2,1)] by blast
  with inj show ?thesis by (auto simp: coll_numbers_def)
qed

lemma key_order [simp]:
  "''country'' < ''id''" "''country'' < ''name''" "''id'' < ''name''"
  "\<not> ''id'' < ''country''" "\<not> ''name'' < ''country''" "\<not> ''name'' < ''id''"
  "''championship'' < ''id''" "''championship'' < ''year''" "''id'' < ''year''" "''club'' < ''season''"
  "\<not> ''id'' < ''championship''" "\<not> ''year'' < ''championship''" "\<not> ''year'' < ''id''" "\<not> ''season'' < ''club''"
  by code_simp+

section \<open>A REPLACE keeps the contents well-formed\<close>

lemma row_fields_new:
  "map_of (row_fields t (new_row t i vals)) c = (if c \<in> set (td_columns (schema t))
     then Some (case map_of vals c of Some v \<Rightarrow> v | None \<Rightarrow> decimal i) else None)"
proof -
  have "map_of (zip cols (map f cols)) c = (if c \<in> set cols then Some (f c) else None)" for cols and f :: "string \<Rightarrow> string"
    by (induction cols) auto
  then show ?thesis by (simp add: row_fields_def new_row_def)
qed

lemma given_column:
  "given t vals \<Longrightarrow> c \<in> set (td_columns (schema t)) \<Longrightarrow> map_of vals c = None \<Longrightarrow> c = ''id'' \<and> needs_id t vals"
  by (auto simp: given_def list_all_iff needs_id_def)

lemma parentsD:
  "parents coll rows t vals \<Longrightarrow> (c, pt, pc, cas) \<in> set (td_refs (schema t)) \<Longrightarrow>
    \<exists>v. map_of vals c = Some v \<and> (\<exists>p \<in> rows pt. coll (cell pt p pc) = coll v)"
  by (fastforce simp: parents_def list_all_iff split: option.splits)

lemma parentsI:
  "(\<And>c pt pc cas. (c, pt, pc, cas) \<in> set (td_refs (schema t)) \<Longrightarrow>
    \<exists>v. map_of vals c = Some v \<and> (\<exists>p \<in> rows pt. coll (cell pt p pc) = coll v)) \<Longrightarrow> parents coll rows t vals"
  by (fastforce simp: parents_def list_all_iff)

lemma put_rows_old: "t' \<noteq> t \<Longrightarrow> r \<in> put_rows coll rows t i vals t' \<Longrightarrow> r \<in> rows t'"
  by (auto simp: put_rows_def delete_rows_def)

lemma put_rows_cases:
  assumes "r \<in> put_rows coll rows t i vals t'"
  obtains (old) "r \<in> rows t'" and "t' = t \<Longrightarrow> \<not> clash coll t vals r" | (new) "t' = t" and "r = new_row t i vals"
  using assms by (auto simp: put_rows_def delete_rows_def clashing_def split: if_splits)

text \<open>A row that stays has not lost the row it refers to: that one's deletion would have been refused, or would have taken it along.\<close>

lemma put_keeps_parent:
  assumes allowed: "put_allowed coll tb t vals" and rows: "tb_rows tb = rows"
    and ref: "(c, pt, pc, cas) \<in> set (td_refs (schema t'))"
    and r': "r' \<in> put_rows coll rows t i vals t'" and old: "r' \<in> rows t'"
    and p: "p \<in> rows pt" "coll (cell pt p pc) = coll (cell t' r' c)"
  shows "\<exists>p \<in> put_rows coll rows t i vals pt. coll (cell pt p pc) = coll (cell t' r' c)"
proof (cases "pt = t")
  case True
  note sc = schema_columns(3) [OF ref]
  have "p \<notin> clashing coll rows t vals"
  proof
    assume gone: "p \<in> clashing coll rows t vals"
    then have hit: "refers coll t' c r' t pc (clashing coll rows t vals)"
      using p True unfolding refers_def by (intro bexI [of _ p]) simp_all
    have "t' \<noteq> t" using sc True by blast
    with r' have stays: "\<not> list_ex (\<lambda>(ct, c, pc, cas). cas \<and> ct = t' \<and> refers coll t' c r' t pc (clashing coll rows t vals)) (refs_to t)"
      by (auto simp: put_rows_def delete_rows_def)
    show False
    proof (cases cas)
      case True
      with stays hit sc \<open>pt = t\<close> show False by (auto simp: list_ex_iff)
    next
      case False
      have "(t', c, pc, False) \<in> set (refs_to t)" using sc False \<open>pt = t\<close> by simp
      with hit old have "held coll rows t (clashing coll rows t vals)"
        unfolding held_def list_ex_iff by (intro bexI [of _ "(t', c, pc, False)"]) auto
      with allowed rows show False by (simp add: put_allowed_def)
    qed
  qed
  with p True show ?thesis by (auto simp: put_rows_def delete_rows_def)
next
  case False
  have "refs_to pt \<noteq> []" using schema_columns(3) [OF ref] by auto
  then have "(pt, c', pc', True) \<notin> set (refs_to t)" for c' pc'
    using cascade_depth by blast
  with p False show ?thesis
    by (intro bexI [of _ p]) (auto simp: put_rows_def delete_rows_def list_ex_iff)
qed

lemma put_keeps_sound:
  assumes sound: "tables_sound coll rows" and allowed: "put_allowed coll tb t vals" and rows: "tb_rows tb = rows"
    and texts: "\<And>c v. (t, c) \<in> set text_columns \<Longrightarrow> map_of vals c = Some v \<Longrightarrow> sql_text v"
    and names: "\<And>v. t = ''clubs'' \<Longrightarrow> map_of vals ''name'' = Some v \<Longrightarrow> v \<noteq> []"
  shows "tables_sound coll (put_rows coll rows t i vals)"
proof -
  let ?new = "put_rows coll rows t i vals"
  have "fits t' (row_fields t' r) \<and> parents coll ?new t' (row_fields t' r)" if r: "r \<in> ?new t'" for t' r
    using r
  proof (cases rule: put_rows_cases)
    case old
    then have old_ok: "fits t' (row_fields t' r)" "parents coll rows t' (row_fields t' r)"
      using sound by (auto simp: tables_sound_def)
    have "parents coll ?new t' (row_fields t' r)"
    proof (rule parentsI)
      fix c pt pc cas
      assume ref: "(c, pt, pc, cas) \<in> set (td_refs (schema t'))"
      from parentsD [OF old_ok(2) ref] obtain v p where v: "map_of (row_fields t' r) c = Some v"
        and p: "p \<in> rows pt" "coll (cell pt p pc) = coll v" by blast
      moreover from v have "cell t' r c = v" by (simp add: cell_def row_fields_def)
      ultimately show "\<exists>v. map_of (row_fields t' r) c = Some v \<and> (\<exists>p \<in> ?new pt. coll (cell pt p pc) = coll v)"
        using put_keeps_parent [OF allowed rows ref r old(1) p(1)] by simp
    qed
    with old_ok(1) show ?thesis by blast
  next
    case new
    have "map_of (row_fields t r) c = map_of vals c" if "map_of vals c \<noteq> None" "c \<in> set (td_columns (schema t))" for c
      using that by (auto simp: new row_fields_new)
    note same = this
    have par: "parents coll rows t vals" and fit: "fits t vals" using allowed rows by (simp_all add: put_allowed_def)
    have "map_of vals c \<noteq> None" if "(c, n) \<in> set (td_widths (schema t))" for c n
      using given_column [of t vals c] allowed schema_columns(2) [OF that] by (auto simp: put_allowed_def)
    then have "fits t (row_fields t r)"
      using fit same schema_columns(2) by (fastforce simp: fits_def list_all_iff)
    moreover have "parents coll ?new t (row_fields t r)"
    proof (rule parentsI)
      fix c pt pc cas
      assume ref: "(c, pt, pc, cas) \<in> set (td_refs (schema t))"
      from parentsD [OF par ref] obtain v p where v: "map_of vals c = Some v"
        and p: "p \<in> rows pt" "coll (cell pt p pc) = coll v" by blast
      have "refs_to pt \<noteq> []" "pt \<noteq> t" using schema_columns(3) [OF ref] by auto
      moreover from this have "(pt, c', pc', True) \<notin> set (refs_to t)" for c' pc' using cascade_depth by blast
      ultimately have "p \<in> ?new pt"
        using p by (auto simp: put_rows_def delete_rows_def list_ex_iff)
      with p v same [of c] schema_columns(3) [OF ref]
      show "\<exists>v. map_of (row_fields t r) c = Some v \<and> (\<exists>p \<in> ?new pt. coll (cell pt p pc) = coll v)" by auto
    qed
    ultimately show ?thesis using new(1) by simp
  qed
  moreover have "sql_text (cell t' r c)" if tc: "(t', c) \<in> set text_columns" and r: "r \<in> ?new t'" for t' c r
    using r
  proof (cases rule: put_rows_cases)
    case old
    with sound tc show ?thesis by (auto simp: tables_sound_def)
  next
    case new
    have "c \<in> set (td_columns (schema t)) \<and> c \<noteq> ''id''" using tc new(1) by (auto simp: text_columns_def)
    with allowed given_column [of t vals c] have "map_of vals c \<noteq> None" by (auto simp: put_allowed_def)
    then show ?thesis
      using texts tc new \<open>c \<in> _ \<and> _\<close> by (auto simp: cell_new_row)
  qed
  moreover have "cell ''clubs'' r ''name'' \<noteq> []" if r: "r \<in> ?new ''clubs''" for r
    using r
  proof (cases rule: put_rows_cases)
    case old
    with sound show ?thesis by (auto simp: tables_sound_def)
  next
    case new
    with allowed given_column [of t vals "''name''"] names show ?thesis
      by (auto simp: cell_new_row put_allowed_def split: option.splits)
  qed
  ultimately show ?thesis unfolding tables_sound_def by blast
qed

lemma put_keeps_ok:
  assumes inj: "coll_numbers coll"
    and ok: "tables_ok coll rows" and allowed: "put_allowed coll tb t vals" and rows: "tb_rows tb = rows"
    and fresh: "needs_id t vals \<Longrightarrow> fresh_id rows t i"
    and numbers: "\<And>c v. (t, c) \<in> set number_columns \<Longrightarrow> map_of vals c = Some v \<Longrightarrow> \<exists>j. v = decimal j"
  shows "tables_ok coll (put_rows coll rows t i vals)"
proof -
  let ?new = "put_rows coll rows t i vals" and ?row = "new_row t i vals"
  have given: "given t vals" using allowed by (simp add: put_allowed_def)
  have "length r = length (td_columns (schema t'))" if "r \<in> ?new t'" for t' r
    using that tables_okD(1) [OF ok]
    by (cases rule: put_rows_cases) (auto simp: rows_wide_def new_row_def)
  moreover have numbers_new: "\<exists>j. cell t' r c = decimal j" if tc: "(t', c) \<in> set number_columns" and r: "r \<in> ?new t'" for t' c r
    using r
  proof (cases rule: put_rows_cases)
    case old
    with tables_okD(2) [OF ok tc] show ?thesis by blast
  next
    case new
    have "c \<in> set (td_columns (schema t))" using tc new(1) by (auto simp: number_columns_def)
    with new numbers tc show ?thesis by (auto simp: cell_new_row split: option.splits)
  qed
  moreover have differ: False
    if r: "r \<in> rows t" "\<not> clash coll t vals r" and key: "key \<in> set (td_keys (schema t))"
      and eq: "\<forall>c \<in> set key. coll (cell t r c) = coll (cell t ?row c)" for r key
  proof (cases "\<exists>c \<in> set key. map_of vals c = None")
    case True
    then obtain c where c: "c \<in> set key" "map_of vals c = None" by blast
    from given_column [OF given schema_columns(1) [OF key c(1)] c(2)] have cid: "c = ''id''" and need: "needs_id t vals" by simp_all
    have "(t, ''id'') \<in> set number_columns"
      using need by (auto simp: needs_id_def number_columns_def schema_def schema_tables_def no_table_def tbl_clubs_seasons_def split: if_splits option.splits)
    then obtain j where j: "cell t r ''id'' = decimal j" using tables_okD(2) [OF ok _ r(1)] by blast
    moreover have "cell t ?row ''id'' = decimal i"
      using c cid schema_columns(1) [OF key c(1)] by (simp add: cell_new_row)
    ultimately have "j = i" using eq c(1) cid inj unfolding coll_numbers_def by metis
    with fresh [OF need] j r(1) show False by (auto simp: fresh_id_def)
  next
    case False
    then have "clash coll t vals r"
      using key eq schema_columns(1) [OF key]
      by (auto simp: clash_def list_ex_iff list_all_iff cell_new_row intro!: bexI [of _ key] split: option.splits)
    with r(2) show False ..
  qed
  have "r = r'" if r: "r \<in> ?new t'" and r': "r' \<in> ?new t'" and key: "key \<in> set (td_keys (schema t'))"
    and eq: "\<forall>c \<in> set key. coll (cell t' r c) = coll (cell t' r' c)" for t' r r' key
    using r
  proof (cases rule: put_rows_cases)
    case old: old
    from r' show ?thesis
    proof (cases rule: put_rows_cases)
      case old': old
      from tables_okD(3) [OF ok old(1) old'(1) key] eq show ?thesis by blast
    next
      case new
      with differ [of r key] old key eq show ?thesis by simp
    qed
  next
    case new: new
    from r' show ?thesis
    proof (cases rule: put_rows_cases)
      case old
      with differ [of r' key] new key eq show ?thesis by simp
    next
      case new': new
      with new show ?thesis by simp
    qed
  qed
  with calculation show ?thesis unfolding tables_ok_def rows_wide_def by blast
qed

text \<open>The fields of a championship or a club that is to be written, with its id if it has one.\<close>

definition named_vals :: "string \<Rightarrow> string \<Rightarrow> string option \<Rightarrow> (string \<times> string) list" where
  "named_vals n c idd = (case idd of None \<Rightarrow> [(''country'', c), (''name'', n)]
     | Some i \<Rightarrow> [(''country'', c), (''id'', i), (''name'', n)])"

lemma named_vals_simps [simp]:
  "map_of (named_vals n c idd) ''name'' = Some n" "map_of (named_vals n c idd) ''country'' = Some c"
  "map_of (named_vals n c idd) ''id'' = idd" "named_vals n c idd \<noteq> []"
  by (simp_all add: named_vals_def split: option.splits)

end
