(* ===== verification/Table_Engine.thy ===== *)
theory Table_Engine
  imports Table_Service
begin

text \<open>
  A small database that serves the statements of the program: it takes a statement apart at the quotes,
  recognises it by what is left, and does to lists of rows what \<open>mysql_serves\<close> says. It shows that the
  hypotheses of the services can hold, and the witnesses run on it.
\<close>

section \<open>Taking a statement apart\<close>

fun split_quotes :: "string \<Rightarrow> string list" where
  "split_quotes [] = [[]]"
| "split_quotes (c # cs) = (if c = CHR 0x27 then [] # split_quotes cs
     else case split_quotes cs of [] \<Rightarrow> [[c]] | p # ps \<Rightarrow> (c # p) # ps)"

lemma split_quotes_ne [simp]: "split_quotes s \<noteq> []"
  by (induction s) (auto split: list.splits)

lemma split_quotes_part:
  "CHR 0x27 \<notin> set n \<Longrightarrow> split_quotes (n @ CHR 0x27 # s) = n # split_quotes s"
  by (induction n) auto

lemma split_quoted:
  "CHR 0x27 \<notin> set pre \<Longrightarrow> CHR 0x27 \<notin> set n \<Longrightarrow>
   split_quotes (pre @ quoted n @ s) = pre # n # split_quotes s"
  by (simp add: quoted_def split_quotes_part)

lemma split_quoted_first: "CHR 0x27 \<notin> set n \<Longrightarrow> split_quotes (quoted n @ s) = [] # n # split_quotes s"
  using split_quoted [of "[]" n s] by simp

lemma split_quotes_end: "CHR 0x27 \<notin> set s \<Longrightarrow> split_quotes s = [s]"
  by (induction s) auto

lemma decimal_no_quote: "CHR 0x27 \<notin> set (decimal i)"
proof
  assume "CHR 0x27 \<in> set (decimal i)"
  then obtain d where "d < 10" "CHR 0x27 = digit_char d" using decimal_digits by blast
  then show False using digit_char_props(6) [of d] by simp
qed

fun evens :: "'a list \<Rightarrow> 'a list" where
  "evens (x # y # zs) = x # evens zs"
| "evens xs = xs"

fun odds :: "'a list \<Rightarrow> 'a list" where
  "odds (x # y # zs) = y # odds zs"
| "odds xs = []"

definition find_pieces :: "string \<Rightarrow> string list \<Rightarrow> string \<Rightarrow> string list" where
  "find_pieces t cols rest = (case cols of
      [c] \<Rightarrow> [''SELECT * FROM '' @ t @ '' WHERE '' @ c @ '' = '', rest]
    | [c, c'] \<Rightarrow> [''SELECT * FROM '' @ t @ '' WHERE '' @ c @ '' = '', '' AND '' @ c' @ '' = '', rest]
    | _ \<Rightarrow> [])"

definition put_pieces :: "string \<Rightarrow> string list \<Rightarrow> string list" where
  "put_pieces t cols = (''REPLACE INTO '' @ t @ '' ('' @ comma_join cols @ '') VALUES ('')
     # replicate (length cols - 1) '', '' @ ['');'']"

definition find_rests :: "string list" where
  "find_rests = ['' LIMIT 1;'', ''  LIMIT 1;'', '';'']"

definition forms :: "(string list \<times> (string \<times> string list \<times> string + string \<times> string list)) list" where
  "forms = concat (map (\<lambda>(t, cols). map (\<lambda>rest. (find_pieces t cols rest, Inl (t, cols, rest))) find_rests) find_shapes)
     @ map (\<lambda>(t, cols). (put_pieces t cols, Inr (t, cols))) put_shapes"

lemma forms_distinct: "distinct (map fst forms)"
  by code_simp

lemma shapes_quoteless_all:
  "list_all (\<lambda>(t, cols). CHR 0x27 \<notin> set t \<and> list_all (\<lambda>c. CHR 0x27 \<notin> set c) cols) (find_shapes @ put_shapes)"
  by code_simp

lemma shapes_quoteless:
  assumes "(t, cols) \<in> set find_shapes \<union> set put_shapes"
  shows "CHR 0x27 \<notin> set t" and "\<forall>c \<in> set cols. CHR 0x27 \<notin> set c"
  using assms shapes_quoteless_all unfolding list_all_iff set_append by blast+

lemma shapes_length:
  "list_all (\<lambda>(t, cols). length cols = 1 \<or> length cols = 2) find_shapes" "list_all (\<lambda>(t, cols). cols \<noteq> []) put_shapes"
  by code_simp+

lemma find_form:
  "(t, cols) \<in> set find_shapes \<Longrightarrow> rest \<in> set find_rests \<Longrightarrow> map_of forms (find_pieces t cols rest) = Some (Inl (t, cols, rest))"
  by (rule map_of_is_SomeI [OF forms_distinct]) (force simp: forms_def)

lemma put_form: "(t, cols) \<in> set put_shapes \<Longrightarrow> map_of forms (put_pieces t cols) = Some (Inr (t, cols))"
  by (rule map_of_is_SomeI [OF forms_distinct]) (force simp: forms_def)

lemma sql_text_quoteless: "sql_text v \<Longrightarrow> CHR 0x27 \<notin> set v"
  by (auto simp: sql_text_def list_all_iff)

lemma split_find:
  assumes "(t, map fst conds) \<in> set find_shapes" and "list_all (\<lambda>cv. sql_text (snd cv)) conds" and "rest \<in> set find_rests"
  shows "evens (split_quotes (find_text t conds rest)) = find_pieces t (map fst conds) rest
    \<and> odds (split_quotes (find_text t conds rest)) = map snd conds"
proof -
  have rest: "CHR 0x27 \<notin> set rest" using assms(3) by (auto simp: find_rests_def)
  have quoteless: "CHR 0x27 \<notin> set t" "\<forall>c \<in> set (map fst conds). CHR 0x27 \<notin> set c"
    using shapes_quoteless [of t "map fst conds"] assms(1) by blast+
  from assms(1) shapes_length(1) have "length conds = 1 \<or> length conds = 2" by (auto simp: list_all_iff)
  then consider c v where "conds = [(c, v)]" | c v c' v' where "conds = [(c, v), (c', v')]"
    by (auto simp: length_Suc_conv numeral_2_eq_2)
  then show ?thesis
  proof cases
    case (1 c v)
    then have "find_text t conds rest = (''SELECT * FROM '' @ t @ '' WHERE '' @ c @ '' = '') @ quoted v @ rest"
      by (simp add: find_text_def cond_text_def)
    moreover have "CHR 0x27 \<notin> set (''SELECT * FROM '' @ t @ '' WHERE '' @ c @ '' = '')"
      using quoteless 1 by simp
    ultimately show ?thesis
      using assms(2) rest 1 split_quoted [of "''SELECT * FROM '' @ t @ '' WHERE '' @ c @ '' = ''" v rest]
      by (simp add: split_quotes_end sql_text_quoteless find_pieces_def)
  next
    case (2 c v c' v')
    then have "find_text t conds rest = (''SELECT * FROM '' @ t @ '' WHERE '' @ c @ '' = '') @ quoted v
        @ ('' AND '' @ c' @ '' = '') @ quoted v' @ rest"
      by (simp add: find_text_def cond_text_def)
    moreover have "CHR 0x27 \<notin> set (''SELECT * FROM '' @ t @ '' WHERE '' @ c @ '' = '')" "CHR 0x27 \<notin> set ('' AND '' @ c' @ '' = '')"
      using quoteless 2 by simp_all
    ultimately show ?thesis
      using assms(2) rest 2 split_quoted [of "''SELECT * FROM '' @ t @ '' WHERE '' @ c @ '' = ''" v]
        split_quoted [of "'' AND '' @ c' @ '' = ''" v' rest]
      by (simp add: split_quotes_end sql_text_quoteless find_pieces_def)
  qed
qed

lemma split_values:
  assumes "vals \<noteq> []" and "list_all (\<lambda>v. CHR 0x27 \<notin> set v) vals" and "CHR 0x27 \<notin> set pre"
  shows "evens (split_quotes (pre @ comma_join (map quoted vals) @ '');'')) = pre # replicate (length vals - 1) '', '' @ ['');'']
    \<and> odds (split_quotes (pre @ comma_join (map quoted vals) @ '');'')) = vals"
  using assms
proof (induction vals arbitrary: pre)
  case (Cons v vals)
  show ?case
  proof (cases vals)
    case Nil
    with Cons.prems show ?thesis by (simp add: split_quoted split_quotes_end)
  next
    case (Cons w ws)
    from Cons Cons.prems Cons.IH [of "'', ''"] show ?thesis by (simp add: split_quoted)
  qed
qed simp

lemma split_put:
  assumes "(t, map fst vals) \<in> set put_shapes" and "list_all (\<lambda>cv. sql_text (snd cv)) vals"
  shows "evens (split_quotes (put_text t vals)) = put_pieces t (map fst vals)
    \<and> odds (split_quotes (put_text t vals)) = map snd vals"
proof -
  have join: "CHR 0x27 \<notin> set (comma_join cols)" if "list_all (\<lambda>c. CHR 0x27 \<notin> set c) cols" for cols
    using that by (induction cols rule: comma_join.induct) auto
  have t: "CHR 0x27 \<notin> set t" and cols: "list_all (\<lambda>c. CHR 0x27 \<notin> set c) (map fst vals)"
    using shapes_quoteless [of t "map fst vals"] assms(1) unfolding list_all_iff by blast+
  define pre where "pre = ''REPLACE INTO '' @ t @ '' ('' @ comma_join (map fst vals) @ '') VALUES (''"
  have text_eq: "put_text t vals = pre @ comma_join (map quoted (map snd vals)) @ '');''"
    by (simp add: put_text_def pre_def o_def)
  from assms(1) shapes_length(2) have nonempty: "map snd vals \<noteq> []" by (auto simp: list_all_iff)
  have quoteless: "list_all (\<lambda>v. CHR 0x27 \<notin> set v) (map snd vals)"
    using assms(2) by (auto simp: list_all_iff sql_text_quoteless)
  have "CHR 0x27 \<notin> set pre"
    using t join [OF cols] by (simp add: pre_def)
  from split_values [OF nonempty quoteless this] show ?thesis
    unfolding text_eq put_pieces_def pre_def [symmetric] length_map .
qed

section \<open>The database\<close>

type_synonym mem_db = "string \<Rightarrow> string list list"

definition next_id :: "mem_db \<Rightarrow> string \<Rightarrow> nat" where
  "next_id d t = Suc (fold max (map (\<lambda>r. digits_val (cell t r ''id'')) (d t)) 0)"

definition mem_tables :: "mem_db \<Rightarrow> sql_tables" where
  "mem_tables d = \<lparr>tb_rows = (\<lambda>t. set (d t)), tb_full = (\<lambda>t. 2 ^ 32 \<le> next_id d t)\<rparr>"

definition mem_find :: "string \<Rightarrow> (string \<times> string) list \<Rightarrow> bool \<Rightarrow> mem_db \<Rightarrow> string list list" where
  "mem_find t conds limit d =
     (let found = filter (hits (\<lambda>v. v) t conds) (remdups (d t)) in if limit then take 1 found else found)"

definition mem_put :: "string \<Rightarrow> (string \<times> string) list \<Rightarrow> mem_db \<Rightarrow> mem_db" where
  "mem_put t vals d = (\<lambda>t'.
     if t' = t then new_row t (next_id d t) vals # filter (\<lambda>r. \<not> clash (\<lambda>v. v) t vals r) (d t)
     else filter (\<lambda>r'. \<not> list_ex (\<lambda>(ct, c, pc, cas). cas \<and> ct = t'
       \<and> list_ex (\<lambda>r. clash (\<lambda>v. v) t vals r \<and> cell t' r' c = cell t r pc) (d t)) (refs_to t)) (d t'))"

definition mem_query :: "string \<Rightarrow> (mem_db, result_set) prog" where
  "mem_query stmt = (\<lambda>d. case map_of forms (evens (split_quotes stmt)) of
      None \<Rightarrow> (Inl (Sql_exception 1064 ''syntax''), d)
    | Some (Inl (t, cols, rest)) \<Rightarrow>
        (Inr (table_rs (td_columns (schema t)) (mem_find t (zip cols (odds (split_quotes stmt))) (rest \<noteq> '';'') d)), d)
    | Some (Inr (t, cols)) \<Rightarrow>
        (let vals = zip cols (odds (split_quotes stmt)) in
         if put_allowed (\<lambda>v. v) (mem_tables d) t vals then (Inr empty_rs, mem_put t vals d)
         else (Inl (Sql_exception 1451 ''refused''), d)))"

definition mem_api :: "mem_db sql_api" where
  "mem_api = \<lparr>api_connect = (\<lambda>_ _ _. return_p ()), api_set_schema = (\<lambda>_. return_p ()),
     api_is_closed = (\<lambda>_. False), api_reconnect = return_p (), api_prepare = (\<lambda>_. return_p ()),
     api_execute_query = mem_query, api_set_savepoint = return_p 1, api_commit = return_p (),
     api_rollback = (\<lambda>_. return_p ()), api_get_uint64 = (\<lambda>_. 0)\<rparr>"

definition mem_server :: "mem_db \<Rightarrow> mem_db server" where
  "mem_server d = \<lparr>srv_env = \<lparr>env_server = ''localhost'', env_port = ''3306'',
       env_username = ''u'', env_password = ''p'', env_database = ''football''\<rparr>,
     srv_driver = False, srv_connection = False, srv_pstmt = None, srv_result = None,
     srv_savepoint = None, srv_db = d\<rparr>"

lemma mem_find_answers:
  "answers limit {r \<in> tb_rows (mem_tables d) t. hits (\<lambda>v. v) t conds r} (mem_find t conds limit d)"
proof -
  let ?found = "filter (hits (\<lambda>v. v) t conds) (remdups (d t))"
  have "set ?found = {r \<in> tb_rows (mem_tables d) t. hits (\<lambda>v. v) t conds r}" by (auto simp: mem_tables_def)
  moreover have "distinct ?found" by simp
  ultimately show ?thesis
    by (cases ?found) (auto simp: answers_def mem_find_def Let_def)
qed

lemma mem_put_rows:
  "tb_rows (mem_tables (mem_put t vals d)) = put_rows (\<lambda>v. v) (tb_rows (mem_tables d)) t (next_id d t) vals"
  by (auto simp: mem_tables_def mem_put_def put_rows_def delete_rows_def clashing_def refers_def list_ex_iff fun_eq_iff)

lemma fold_max_ge: "x \<in> set xs \<or> x \<le> (m :: nat) \<Longrightarrow> x \<le> fold max xs m"
  by (induction xs arbitrary: m) (auto simp: max_def split: if_splits)

lemma next_id_fresh: "\<not> tb_full (mem_tables d) t \<Longrightarrow> fresh_id (tb_rows (mem_tables d)) t (next_id d t)"
proof -
  have "cell t r ''id'' \<noteq> decimal (next_id d t)" if "r \<in> set (d t)" for r
  proof
    assume eq: "cell t r ''id'' = decimal (next_id d t)"
    have "digits_val (cell t r ''id'') \<le> fold max (map (\<lambda>r. digits_val (cell t r ''id'')) (d t)) 0"
      using that by (intro fold_max_ge) auto
    then show False by (simp add: eq next_id_def)
  qed
  then show "\<not> tb_full (mem_tables d) t \<Longrightarrow> ?thesis"
    by (auto simp: fresh_id_def mem_tables_def) (simp add: next_id_def)
qed

theorem mem_serves: "mysql_serves (\<lambda>v. v) mem_api mem_tables"
  unfolding mysql_serves_def
proof (intro conjI allI impI)
  show "calm mem_api mem_tables"
    by (simp add: calm_def mem_api_def return_p_def)
next
  fix t conds rest d
  assume shape: "(t, map fst conds) \<in> set find_shapes" and texts: "served_values t conds"
    and "rest \<in> {'' LIMIT 1;'', ''  LIMIT 1;'', '';''}"
  then have rest: "rest \<in> set find_rests" by (auto simp: find_rests_def)
  have "mem_query (find_text t conds rest) d
      = (Inr (table_rs (td_columns (schema t)) (mem_find t conds (rest \<noteq> '';'') d)), d)"
    using split_find [OF shape served_valuesD [OF texts] rest] find_form [OF shape rest] by (simp add: mem_query_def zip_map_fst_snd)
  then show "\<exists>rs d'. api_execute_query mem_api (find_text t conds rest) d = (Inr (table_rs (td_columns (schema t)) rs), d')
      \<and> mem_tables d' = mem_tables d \<and> answers (rest \<noteq> '';'') {r \<in> tb_rows (mem_tables d) t. hits (\<lambda>v. v) t conds r} rs"
    using mem_find_answers by (auto simp: mem_api_def)
next
  fix t vals d
  assume shape: "(t, map fst vals) \<in> set put_shapes" and texts: "served_values t vals"
  have run: "mem_query (put_text t vals) d = (if put_allowed (\<lambda>v. v) (mem_tables d) t vals
      then (Inr empty_rs, mem_put t vals d) else (Inl (Sql_exception 1451 ''refused''), d))"
    using split_put [OF shape served_valuesD [OF texts]] put_form [OF shape] by (simp add: mem_query_def zip_map_fst_snd)
  show "if put_allowed (\<lambda>v. v) (mem_tables d) t vals
     then \<exists>rs i d'. api_execute_query mem_api (put_text t vals) d = (Inr rs, d')
       \<and> tb_rows (mem_tables d') = put_rows (\<lambda>v. v) (tb_rows (mem_tables d)) t i vals
       \<and> (needs_id t vals \<longrightarrow> fresh_id (tb_rows (mem_tables d)) t i)
     else \<exists>code why d'. api_execute_query mem_api (put_text t vals) d = (Inl (Sql_exception code why), d')
       \<and> tb_rows (mem_tables d') = tb_rows (mem_tables d)"
  proof (cases "put_allowed (\<lambda>v. v) (mem_tables d) t vals")
    case True
    with run have "api_execute_query mem_api (put_text t vals) d = (Inr empty_rs, mem_put t vals d)"
      by (simp add: mem_api_def)
    moreover from True have "needs_id t vals \<longrightarrow> fresh_id (tb_rows (mem_tables d)) t (next_id d t)"
      using next_id_fresh by (auto simp: put_allowed_def)
    ultimately show ?thesis using True mem_put_rows by auto
  next
    case False
    with run show ?thesis by (auto simp: mem_api_def)
  qed
qed (simp add: coll_numbers_def)

end
