(* ===== verification/Championship_Service.thy ===== *)
theory Championship_Service
  imports Event_Action Table_Engine
begin

text \<open>
  The request \<^verbatim>\<open>new_championship\<close> against the tables of \<^verbatim>\<open>football.sql\<close>: what is answered and what the
  tables hold afterwards. The row of a championship cannot be replaced as long as a season refers to it.
\<close>

section \<open>What the request promises\<close>

text \<open>
  The id and the success that are answered, and the tables afterwards. A championship that is known by
  name keeps id and country; the request fails if it has seasons. A new one needs a known country.
\<close>

definition championship_reply ::
    "(string \<Rightarrow> string) \<Rightarrow> sql_tables \<Rightarrow> string \<Rightarrow> string \<Rightarrow> string \<Rightarrow> bool \<Rightarrow> (string \<Rightarrow> string list set) \<Rightarrow> bool" where
  "championship_reply coll tb n c idd success rows' \<longleftrightarrow>
     (let rows = tb_rows tb; known = {r \<in> rows ''championships''. coll (cell ''championships'' r ''name'') = coll n} in
      if known \<noteq> {} then
        \<exists>r \<in> known. idd = cell ''championships'' r ''id''
          \<and> success = (\<forall>ss \<in> rows ''seasons''. cell ''seasons'' ss ''championship'' \<noteq> idd)
          \<and> rows' = (if success then rows(''championships'' :=
              insert [idd, n, cell ''championships'' r ''country''] (rows ''championships'' - {r})) else rows)
      else
        success = ((\<exists>k \<in> rows ''countries''. coll (cell ''countries'' k ''country_code'') = coll c) \<and> \<not> tb_full tb ''championships'')
        \<and> (if success then \<exists>i. fresh_id rows ''championships'' i \<and> idd = decimal i
             \<and> rows' = rows(''championships'' := insert [idd, n, c] (rows ''championships''))
           else idd = [] \<and> rows' = rows))"

section \<open>The object\<close>

text \<open>The object that \<^verbatim>\<open>championship(name, country)\<close> makes, given the row that was found.\<close>

definition champ_made :: "string \<Rightarrow> string \<Rightarrow> string list option \<Rightarrow> championship" where
  "champ_made n c found = (case found of
      None \<Rightarrow> (championship_fresh [] n c)\<lparr>sql_count := 1, fields_values := [(''name'', n)]\<rparr>
    | Some r \<Rightarrow> (championship_fresh (cell ''championships'' r ''id'') n (cell ''championships'' r ''country''))\<lparr>sql_count := 1,
        found_flag := True, fields_values := [(''country'', cell ''championships'' r ''country''),
          (''id'', cell ''championships'' r ''id''), (''name'', cell ''championships'' r ''name'')]\<rparr>)"

lemma championship_new_served:
  assumes sv: "mysql_serves coll api tabs" and ok: "tables_ok coll (db_tables tabs s)" and n: "sql_text n"
  obtains (known) s' r where "r \<in> db_tables tabs s ''championships''" and "coll (cell ''championships'' r ''name'') = coll n"
      and "championship_new api n c s = (Inr (champ_made n c (Some r)), s')" and "tabs (srv_db s') = tabs (srv_db s)"
    | (unknown) s' where "\<forall>r \<in> db_tables tabs s ''championships''. coll (cell ''championships'' r ''name'') \<noteq> coll n"
      and "championship_new api n c s = (Inr (champ_made n c None), s')" and "tabs (srv_db s') = tabs (srv_db s)"
proof -
  let ?t = "championship_fresh [] n c"
  have t: "fields_values ?t = []" "tablename ?t = ''championships''" "sql_count ?t = 0"
    by (simp_all add: championship_fresh_def table_ctor_def championship.defs)
  have shape: "(tablename ?t, map fst (start_conds ''name'' n [] [])) \<in> set find_shapes"
    by (simp add: t start_conds_def find_shapes_def)
  have vals: "served_values (tablename ?t) (start_conds ''name'' n [] [])"
    using n by (simp add: t served_values_def start_conds_def number_columns_def)
  from sv tables_okD(1) [OF ok] t(1) vals shape show thesis
  proof (rule start_served [where s = s and t = "championship_fresh [] n c"])
    fix s' r
    assume r: "r \<in> db_tables tabs s (tablename ?t)" and hit: "hits coll (tablename ?t) (start_conds ''name'' n [] []) r"
      and run: "start api ''name'' n [] [] (?t, s) = (Inr True, (?t\<lparr>sql_count := Suc (sql_count ?t), found_flag := True,
        fields_values := overlay (td_columns (schema (tablename ?t))) r []\<rparr>, s'))"
      and same: "tabs (srv_db s') = tabs (srv_db s)"
    from r tables_okD(1) [OF ok] obtain i n' c' where row: "r = [i, n', c']"
      by (auto simp: t elim: row_of_three)
    have "championship_new api n c s = (Inr (champ_made n c (Some r)), s')"
      using run by (simp add: championship_new_def construct_def prog_simps t row champ_made_def get_field_def)
        (simp add: championship_fresh_def table_ctor_def championship.defs)
    with r hit same show thesis
      by (intro known [of r s']) (auto simp: t hits_def start_conds_def)
  next
    fix s'
    assume no: "\<forall>r \<in> db_tables tabs s (tablename ?t). \<not> hits coll (tablename ?t) (start_conds ''name'' n [] []) r"
      and run: "start api ''name'' n [] [] (?t, s) = (Inr False, (?t\<lparr>sql_count := Suc (sql_count ?t), found_flag := False,
        fields_values := fold (\<lambda>(c, v). map_put c v) (start_conds ''name'' n [] []) []\<rparr>, s'))"
      and same: "tabs (srv_db s') = tabs (srv_db s)"
    have "championship_new api n c s = (Inr (champ_made n c None), s')"
      using run by (simp add: championship_new_def construct_def prog_simps t start_conds_def champ_made_def)
        (simp add: championship_fresh_def table_ctor_def championship.defs)
    with no same show thesis
      by (intro unknown [of s']) (auto simp: t hits_def start_conds_def)
  qed
qed

section \<open>Saving it\<close>

text \<open>What is written: the country the object has, that is the stored one if there was a row.\<close>

definition champ_vals :: "string \<Rightarrow> string \<Rightarrow> string list option \<Rightarrow> (string \<times> string) list" where
  "champ_vals n c found = (case found of None \<Rightarrow> named_vals n c None
     | Some r \<Rightarrow> named_vals n (cell ''championships'' r ''country'') (Some (cell ''championships'' r ''id'')))"

lemma champ_save_served:
  assumes sv: "mysql_serves coll api tabs" and n: "sql_text n" and c: "sql_text c"
    and found: "\<And>r. found = Some r \<Longrightarrow> (\<exists>j. cell ''championships'' r ''id'' = decimal j) \<and> sql_text (cell ''championships'' r ''country'')"
  obtains (saved) i s' cs where "put_allowed coll (tabs (srv_db s)) ''championships'' (champ_vals n c found)"
      and "found = None \<Longrightarrow> fresh_id (db_tables tabs s) ''championships'' i"
      and "db_tables tabs s' = put_rows coll (db_tables tabs s) ''championships'' i (champ_vals n c found)"
      and "save_local api championship_vtable (champ_made n c found) s = (Inr (True, cs), s')"
      and "cs_id cs = (case found of None \<Rightarrow> decimal i | Some r \<Rightarrow> cell ''championships'' r ''id'')"
    | (rejected) s' cs where "\<not> put_allowed coll (tabs (srv_db s)) ''championships'' (champ_vals n c found)"
      and "save_local api championship_vtable (champ_made n c found) s = (Inr (False, cs), s')"
      and "cs_id cs = (case found of None \<Rightarrow> [] | Some r \<Rightarrow> cell ''championships'' r ''id'')"
      and "db_tables tabs s' = db_tables tabs s"
proof -
  let ?t = "champ_made n c found" and ?vals = "champ_vals n c found"
  let ?t1 = "?t\<lparr>fields_values := ?vals\<rparr>"
  have made: "cs_id ?t = (case found of None \<Rightarrow> [] | Some r \<Rightarrow> cell ''championships'' r ''id'')"
    "tablename ?t = ''championships''" "key_field1 ?t = ''name''" "key_field2 ?t = []" "sql_count ?t = 1"
    by (auto simp: champ_made_def championship_fresh_def table_ctor_def championship.defs split: option.splits)
  have vals: "fields_values ?t1 = ?vals" "?vals \<noteq> []" "map_of ?vals ''name'' = Some n"
    by (simp_all add: champ_vals_def split: option.splits)
  have pop: "v_populate championship_vtable ?t = (Inr (), ?t1)"
    using n c found
    by (cases found) (auto simp: championship_vtable_def championship_populate_run champ_made_def champ_vals_def
        named_vals_def set_field_def championship_fresh_def table_ctor_def championship.defs)
  have conds: "key_conds ?t1 = [(''name'', n)]"
    by (simp add: key_conds_def made get_field_def vals)
  have texts: "served_values (tablename ?t1) ?vals"
    using n c found by (auto simp: made served_values_def number_columns_def champ_vals_def named_vals_def split: option.splits)
  have put: "(tablename ?t1, map fst ?vals) \<in> set put_shapes"
    by (auto simp: made champ_vals_def named_vals_def put_shapes_def split: option.splits)
  have find: "(tablename ?t1, map fst (key_conds ?t1)) \<in> set find_shapes" "covers (tablename ?t1) (map fst (key_conds ?t1))"
    by (simp_all add: conds made find_shapes_def covers_def)
  have key: "key_field1 ?t1 \<noteq> ''id''" by (simp add: made)
  have sub: "\<forall>(c', v) \<in> set (key_conds ?t1). map_of ?vals c' = Some v"
    by (simp add: conds vals)
  show thesis
  proof (rule table_class.save_put [OF champ.table_class_axioms sv pop key vals(1,2) texts put find sub, of s])
    fix i s'
    let ?row = "new_row (tablename ?t1) i ?vals"
    let ?t2 = "?t1\<lparr>sql_count := sql_count ?t1 + 2, found_flag := True,
      fields_values := overlay (td_columns (schema (tablename ?t1))) ?row ?vals\<rparr>"
    assume allowed: "put_allowed coll (tabs (srv_db s)) (tablename ?t1) ?vals"
      and fresh: "needs_id (tablename ?t1) ?vals \<Longrightarrow> fresh_id (db_tables tabs s) (tablename ?t1) i"
      and rows: "db_tables tabs s' = put_rows coll (db_tables tabs s) (tablename ?t1) i ?vals"
      and run: "save api championship_vtable (?t, s) = then_p (on_fst (v_reset championship_vtable)) (v_save_related championship_vtable) (?t2, s')"
    have "save_local api championship_vtable ?t s = (Inr (True, snd (championship_reset ?t2)), s')"
      using run by (simp add: save_local_def championship_vtable_def championship_reset_def prog_simps)
    moreover have "cs_id (snd (championship_reset ?t2)) = (case found of None \<Rightarrow> decimal i | Some r \<Rightarrow> cell ''championships'' r ''id'')"
      by (simp add: championship_reset_def modify_p_def get_field_def made new_row_def champ_vals_def split: option.splits)
    moreover have "tablename ?t1 = ''championships''" using made(2) by simp
    then have "found = None \<Longrightarrow> needs_id (tablename ?t1) ?vals"
      by (simp only:) (simp add: needs_id_def tbl_championships_def champ_vals_def)
    ultimately show thesis
      using allowed fresh rows made(2) by (intro saved [of i s' "snd (championship_reset ?t2)"]) simp_all
  next
    fix s'
    assume "\<not> put_allowed coll (tabs (srv_db s)) (tablename ?t1) ?vals"
      and "save api championship_vtable (?t, s) = (Inr False, (?t1, s'))" and "db_tables tabs s' = db_tables tabs s"
    then show thesis
      using made by (intro rejected [of ?t1 s']) (simp_all add: save_local_def)
  qed
qed

section \<open>The tables\<close>

lemma put_championships:
  "put_rows coll rows ''championships'' i vals = rows(''championships'' :=
     insert (new_row ''championships'' i vals) (rows ''championships'' - clashing coll rows ''championships'' vals))"
  by (auto simp: put_rows_def delete_rows_def fun_eq_iff)

lemma put_allowed_championships:
  assumes "map_of vals ''name'' = Some n" and "map_of vals ''country'' = Some c"
  shows "put_allowed coll tb ''championships'' vals \<longleftrightarrow> length n \<le> 100 \<and> length c \<le> 2
    \<and> (\<exists>k \<in> tb_rows tb ''countries''. coll (cell ''countries'' k ''country_code'') = coll c)
    \<and> \<not> held coll (tb_rows tb) ''championships'' (clashing coll (tb_rows tb) ''championships'' vals)
    \<and> (map_of vals ''id'' = None \<longrightarrow> \<not> tb_full tb ''championships'')"
  using assms
  by (auto simp: put_allowed_def given_def fits_def parents_def needs_id_def tbl_championships_def)

lemma clashing_championship:
  assumes ok: "tables_ok coll rows" and r: "r \<in> rows ''championships''" "coll (cell ''championships'' r ''name'') = coll n"
  shows "clashing coll rows ''championships'' (champ_vals n c (Some r)) = {r}"
proof -
  have uniq: "r' = r" if "r' \<in> rows ''championships''" "coll (cell ''championships'' r' k) = coll (cell ''championships'' r k)"
      "k = ''id'' \<or> k = ''name''" for r' k
    using that by (intro tables_okD(3) [OF ok that(1) r(1), of "[k]"]) auto
  have "r' = r" if "r' \<in> rows ''championships''" "clash coll ''championships'' (champ_vals n c (Some r)) r'" for r'
    using uniq [OF that(1), of "''id''"] uniq [OF that(1), of "''name''"] that(2) r(2)
    by (auto simp: clash_def champ_vals_def)
  moreover have "clash coll ''championships'' (champ_vals n c (Some r)) r"
    by (simp add: clash_def champ_vals_def)
  ultimately show ?thesis using r(1) by (auto simp: clashing_def)
qed

lemma held_championship:
  assumes inj: "coll_numbers coll" and ok: "tables_ok coll rows"
    and r: "r \<in> rows ''championships''"
  shows "held coll rows ''championships'' {r}
    \<longleftrightarrow> (\<exists>ss \<in> rows ''seasons''. cell ''seasons'' ss ''championship'' = cell ''championships'' r ''id'')"
proof -
  have "coll (cell ''seasons'' ss ''championship'') = coll (cell ''championships'' r ''id'')
      \<longleftrightarrow> cell ''seasons'' ss ''championship'' = cell ''championships'' r ''id''" if ss: "ss \<in> rows ''seasons''" for ss
    by (rule numbers_equal [OF inj ok ss _ r]) (simp_all add: number_columns_def)
  then show ?thesis by (auto simp: held_def refers_def)
qed

lemma row_country:
  assumes sound: "tables_sound coll rows" and ok: "tables_ok coll rows" and r: "r \<in> rows ''championships''"
  shows "sql_text (cell ''championships'' r ''country'')" and "length (cell ''championships'' r ''country'') \<le> 2"
    and "\<exists>k \<in> rows ''countries''. coll (cell ''countries'' k ''country_code'') = coll (cell ''championships'' r ''country'')"
proof -
  obtain i n c where row: "r = [i, n, c]"
    using tables_okD(1) [OF ok] r by (rule row_of_three) simp
  show "sql_text (cell ''championships'' r ''country'')"
    using sound r by (auto simp: tables_sound_def text_columns_def)
  have "fits ''championships'' (row_fields ''championships'' r)" "parents coll rows ''championships'' (row_fields ''championships'' r)"
    using sound r by (auto simp: tables_sound_def)
  then show "length (cell ''championships'' r ''country'') \<le> 2"
    and "\<exists>k \<in> rows ''countries''. coll (cell ''countries'' k ''country_code'') = coll (cell ''championships'' r ''country'')"
    by (simp_all add: row row_fields_def fits_def parents_def tbl_championships_def)
qed

lemma championship_reply_known:
  fixes c :: string
  assumes inj: "coll_numbers coll" and ok: "tables_ok coll (tb_rows tb)"
    and sound: "tables_sound coll (tb_rows tb)" and n: "length n \<le> 100"
    and r: "r \<in> tb_rows tb ''championships''" "coll (cell ''championships'' r ''name'') = coll n"
  defines "vals \<equiv> champ_vals n c (Some r)"
  shows "championship_reply coll tb n c (cell ''championships'' r ''id'') (put_allowed coll tb ''championships'' vals)
    (if put_allowed coll tb ''championships'' vals then put_rows coll (tb_rows tb) ''championships'' i vals else tb_rows tb)"
proof -
  note clash = clashing_championship [OF ok r, of c, folded vals_def]
  have known: "{r \<in> tb_rows tb ''championships''. coll (cell ''championships'' r ''name'') = coll n} = {r}"
    using clash r by (auto simp: clashing_def clash_def vals_def champ_vals_def)
  have maps: "map_of vals ''name'' = Some n" "map_of vals ''country'' = Some (cell ''championships'' r ''country'')"
    "map_of vals ''id'' = Some (cell ''championships'' r ''id'')"
    by (simp_all add: vals_def champ_vals_def)
  then have "put_allowed coll tb ''championships'' vals
      \<longleftrightarrow> (\<forall>ss \<in> tb_rows tb ''seasons''. cell ''seasons'' ss ''championship'' \<noteq> cell ''championships'' r ''id'')"
    using put_allowed_championships [of vals n "cell ''championships'' r ''country''"] row_country [OF sound ok r(1)] n
      held_championship [OF inj ok r(1)] by (simp add: clash)
  then show ?thesis
    unfolding championship_reply_def Let_def known put_championships clash by (simp add: new_row_def maps)
qed

lemma championship_reply_new:
  fixes c :: string
  assumes none: "\<forall>r \<in> tb_rows tb ''championships''. coll (cell ''championships'' r ''name'') \<noteq> coll n"
    and n: "length n \<le> 100" and c: "length c \<le> 2"
  defines "vals \<equiv> champ_vals n c None"
  assumes fresh: "put_allowed coll tb ''championships'' vals \<Longrightarrow> fresh_id (tb_rows tb) ''championships'' i"
  shows "championship_reply coll tb n c (if put_allowed coll tb ''championships'' vals then decimal i else [])
    (put_allowed coll tb ''championships'' vals)
    (if put_allowed coll tb ''championships'' vals then put_rows coll (tb_rows tb) ''championships'' i vals else tb_rows tb)"
proof -
  have known: "{r \<in> tb_rows tb ''championships''. coll (cell ''championships'' r ''name'') = coll n} = {}"
    using none by auto
  have clash: "clashing coll (tb_rows tb) ''championships'' vals = {}"
    using none by (auto simp: clashing_def clash_def vals_def champ_vals_def)
  have maps: "map_of vals ''name'' = Some n" "map_of vals ''country'' = Some c" "map_of vals ''id'' = None"
    by (simp_all add: vals_def champ_vals_def)
  then have "put_allowed coll tb ''championships'' vals \<longleftrightarrow>
      (\<exists>k \<in> tb_rows tb ''countries''. coll (cell ''countries'' k ''country_code'') = coll c) \<and> \<not> tb_full tb ''championships''"
    using put_allowed_championships [of vals n c] n c clash by (auto simp: held_def refers_def)
  then show ?thesis
    unfolding championship_reply_def Let_def known put_championships clash using fresh by (simp add: new_row_def maps)
qed

section \<open>The request\<close>

lemma champ_request_served:
  assumes sv: "mysql_serves coll api tabs" and ok: "tables_ok coll (db_tables tabs s)" and sound: "tables_sound coll (db_tables tabs s)"
    and n: "sql_text n" "length n \<le> 100" and c: "sql_text c" "length c \<le> 2"
  obtains success cs s' where "bind_p (championship_new api n c) (\<lambda>cs. save_local api championship_vtable cs) s = (Inr (success, cs), s')"
    and "championship_reply coll (tabs (srv_db s)) n c (cs_id cs) success (db_tables tabs s')"
    and "tables_ok coll (db_tables tabs s')" and "tables_sound coll (db_tables tabs s')"
proof -
  let ?rows = "db_tables tabs s"
  note finish = that
  have thesis if found: "\<And>r. found = Some r \<Longrightarrow> r \<in> ?rows ''championships''"
      and new: "championship_new api n c s = (Inr (champ_made n c found), s1)" and same: "tabs (srv_db s1) = tabs (srv_db s)"
      and reply: "\<And>i. (found = None \<Longrightarrow> put_allowed coll (tabs (srv_db s)) ''championships'' (champ_vals n c found) \<Longrightarrow>
          fresh_id ?rows ''championships'' i) \<Longrightarrow>
        championship_reply coll (tabs (srv_db s)) n c (case found of Some r \<Rightarrow> cell ''championships'' r ''id''
            | None \<Rightarrow> if put_allowed coll (tabs (srv_db s)) ''championships'' (champ_vals n c found) then decimal i else [])
          (put_allowed coll (tabs (srv_db s)) ''championships'' (champ_vals n c found))
          (if put_allowed coll (tabs (srv_db s)) ''championships'' (champ_vals n c found)
           then put_rows coll ?rows ''championships'' i (champ_vals n c found) else ?rows)"
    for found s1
  proof -
    let ?vals = "champ_vals n c found"
    have id_ok: "\<exists>j. cell ''championships'' r ''id'' = decimal j" if "found = Some r" for r
      using tables_okD(2) [OF ok _ found [OF that], of "''id''"] by (auto simp: number_columns_def)
    have country: "sql_text (cell ''championships'' r ''country'')" if "found = Some r" for r
      using row_country(1) [OF sound ok found [OF that]] .
    from id_ok country have texts: "(\<exists>j. cell ''championships'' r ''id'' = decimal j) \<and> sql_text (cell ''championships'' r ''country'')"
      if "found = Some r" for r using that by fastforce
    from sv n(1) c(1) texts show thesis
    proof (rule champ_save_served [where found = found and s = s1])
      fix i s' cs
      assume put: "put_allowed coll (tabs (srv_db s1)) ''championships'' ?vals"
        and fresh: "found = None \<Longrightarrow> fresh_id (db_tables tabs s1) ''championships'' i"
        and rows: "db_tables tabs s' = put_rows coll (db_tables tabs s1) ''championships'' i ?vals"
        and run: "save_local api championship_vtable (champ_made n c found) s1 = (Inr (True, cs), s')"
        and idd: "cs_id cs = (case found of None \<Rightarrow> decimal i | Some r \<Rightarrow> cell ''championships'' r ''id'')"
      have need: "needs_id ''championships'' ?vals \<Longrightarrow> fresh_id ?rows ''championships'' i"
        using fresh same by (auto simp: needs_id_def champ_vals_def split: option.splits)
      have "tables_ok coll (db_tables tabs s')"
        unfolding rows same using put same id_ok
        by (intro put_keeps_ok [OF mysql_servesD(2) [OF sv] ok _ refl need])
          (auto simp: number_columns_def champ_vals_def split: option.splits)
      moreover have "tables_sound coll (db_tables tabs s')"
        unfolding rows same using put same c(1) country
        by (intro put_keeps_sound [OF sound _ refl]) (auto simp: text_columns_def champ_vals_def split: option.splits)
      ultimately show thesis
        using reply [of i] fresh put rows same idd new run
        by (intro finish [of True cs s']) (simp_all add: bind_p_def split: option.splits)
    next
      fix s' cs
      assume "\<not> put_allowed coll (tabs (srv_db s1)) ''championships'' ?vals"
        and "save_local api championship_vtable (champ_made n c found) s1 = (Inr (False, cs), s')"
        and "cs_id cs = (case found of None \<Rightarrow> [] | Some r \<Rightarrow> cell ''championships'' r ''id'')"
        and "db_tables tabs s' = db_tables tabs s1"
      then show thesis
        using reply [of 0] new same ok sound by (intro finish [of False cs s']) (simp_all add: bind_p_def split: option.splits)
    qed
  qed
  note step = this
  show thesis
  proof (rule championship_new_served [OF sv ok n(1), of c])
    fix s1 r
    assume r: "r \<in> ?rows ''championships''" "coll (cell ''championships'' r ''name'') = coll n"
      and "championship_new api n c s = (Inr (champ_made n c (Some r)), s1)" and "tabs (srv_db s1) = tabs (srv_db s)"
    then show thesis
      using championship_reply_known [OF mysql_servesD(2) [OF sv] ok sound n(2) r, of c] by (intro step [of "Some r" s1]) auto
  next
    fix s1
    assume none: "\<forall>r \<in> ?rows ''championships''. coll (cell ''championships'' r ''name'') \<noteq> coll n"
      and "championship_new api n c s = (Inr (champ_made n c None), s1)" and "tabs (srv_db s1) = tabs (srv_db s)"
    then show thesis
      using championship_reply_new [OF none n(2) c(2)] by (intro step [of None s1]) auto
  qed
qed

lemma new_championship_served:
  assumes sv: "mysql_serves coll api tabs" and wf: "well_formed coll (db_tables tabs s)"
    and shape: "new_championship_ok ch" and texts: "sql_text (wide_text (nch_name ch))" "sql_text (map narrow (nch_country ch))"
  obtains idd success s' where "event_action_new_championship api ch s = respond idd success s'"
    and "championship_reply coll (tabs (srv_db s)) (wide_text (nch_name ch)) (map narrow (nch_country ch)) idd success (db_tables tabs s')"
    and "well_formed coll (db_tables tabs s')"
proof -
  let ?n = "wide_text (nch_name ch)" and ?c = "map narrow (nch_country ch)"
  have len: "length ?n \<le> 100" "length ?c \<le> 2"
    using shape wide_text_length [of "nch_name ch"] by (simp_all add: new_championship_ok_def)
  have split: "event_action_new_championship api ch = bind_p (bind_p (championship_new api ?n ?c)
      (\<lambda>cs. save_local api championship_vtable cs)) (\<lambda>(success, cs). respond (cs_id cs) success)"
    by (simp add: event_action_new_championship_def bind_p_assoc)
  show thesis
  proof (rule champ_request_served [OF sv wf [unfolded well_formed_def, THEN conjunct1] wf [unfolded well_formed_def, THEN conjunct2] texts(1) len(1) texts(2) len(2)])
    fix success cs s'
    assume "bind_p (championship_new api ?n ?c) (\<lambda>cs. save_local api championship_vtable cs) s = (Inr (success, cs), s')"
      and "championship_reply coll (tabs (srv_db s)) ?n ?c (cs_id cs) success (db_tables tabs s')"
      and "tables_ok coll (db_tables tabs s')" and "tables_sound coll (db_tables tabs s')"
    then show thesis
      using that [of "cs_id cs" success s'] by (simp add: well_formed_def split bind_p_def [where m = "bind_p _ _"])
  qed
qed

end
