(* ===== verification/Club_Service.thy ===== *)
theory Club_Service
  imports Event_Action Table_Service
begin

text \<open>
  The request \<^verbatim>\<open>new_club\<close> against the tables of \<^verbatim>\<open>football.sql\<close>. A club is looked up by name and country,
  but the table's key is the name alone, and \<^verbatim>\<open>REPLACE\<close> deletes the row it replaces, with the memberships
  that refer to it.
\<close>

section \<open>What the request promises\<close>

text \<open>
  A name longer than the column is refused. Otherwise there is one row for the name afterwards, with the
  id of the club of that name and country, if there is one, or else a fresh one; every club that had the
  name is gone with its memberships, the known one's included.
\<close>

definition club_reply ::
    "(string \<Rightarrow> string) \<Rightarrow> sql_tables \<Rightarrow> string \<Rightarrow> string \<Rightarrow> string \<Rightarrow> bool \<Rightarrow> (string \<Rightarrow> string list set) \<Rightarrow> bool" where
  "club_reply coll tb n c idd success rows' \<longleftrightarrow>
     (let rows = tb_rows tb; named = {r \<in> rows ''clubs''. coll (cell ''clubs'' r ''name'') = coll n};
          known = {r \<in> named. coll (cell ''clubs'' r ''country'') = coll c} in
      success = (length n \<le> 50 \<and> (known \<noteq> {} \<or> \<not> tb_full tb ''clubs''))
      \<and> (if known \<noteq> {} then \<exists>r \<in> known. idd = cell ''clubs'' r ''id''
         else if success then \<exists>i. fresh_id rows ''clubs'' i \<and> idd = decimal i else idd = [])
      \<and> rows' = (if success then rows(''clubs'' := insert [idd, n, c] (rows ''clubs'' - named),
          ''clubs_seasons'' := {m \<in> rows ''clubs_seasons''. cell ''clubs_seasons'' m ''club'' \<notin> (\<lambda>r. cell ''clubs'' r ''id'') ` named})
        else rows))"

section \<open>The object\<close>

lemma delete_clubs:
  "delete_rows coll rows ''clubs'' gone = rows(''clubs'' := rows ''clubs'' - gone,
     ''clubs_seasons'' := {m \<in> rows ''clubs_seasons''. \<forall>r \<in> gone. coll (cell ''clubs_seasons'' m ''club'') \<noteq> coll (cell ''clubs'' r ''id'')})"
  by (auto simp: delete_rows_def refers_def fun_eq_iff)

lemma put_allowed_clubs:
  assumes "map_of vals ''name'' = Some n" and "map_of vals ''country'' = Some c"
  shows "put_allowed coll tb ''clubs'' vals \<longleftrightarrow> length n \<le> 50 \<and> length c \<le> 2 \<and> (map_of vals ''id'' = None \<longrightarrow> \<not> tb_full tb ''clubs'')"
  using assms
  by (auto simp: put_allowed_def given_def fits_def parents_def held_def needs_id_def tbl_clubs_def)

text \<open>The club object made for a name and a country, given the row that was found.\<close>

definition club_made :: "string \<Rightarrow> string \<Rightarrow> string list option \<Rightarrow> club" where
  "club_made n c found = (case found of
      None \<Rightarrow> (club_fresh [] n c)\<lparr>sql_count := 1, fields_values := [(''country'', c), (''name'', n)]\<rparr>
    | Some r \<Rightarrow> (club_fresh (cell ''clubs'' r ''id'') n c)\<lparr>sql_count := 1, found_flag := True,
        fields_values := [(''country'', cell ''clubs'' r ''country''), (''id'', cell ''clubs'' r ''id''),
          (''name'', cell ''clubs'' r ''name'')]\<rparr>)"

lemma club_new_served:
  assumes sv: "mysql_serves coll api tabs" and ok: "tables_ok coll (db_tables tabs s)"
    and n: "sql_text n" and c: "sql_text c"
  obtains (known) s' r where "r \<in> db_tables tabs s ''clubs''" and "coll (cell ''clubs'' r ''name'') = coll n"
      and "coll (cell ''clubs'' r ''country'') = coll c"
      and "club_new api n c s = (Inr (club_made n c (Some r)), s')" and "tabs (srv_db s') = tabs (srv_db s)"
    | (unknown) s' where "\<forall>r \<in> db_tables tabs s ''clubs''. coll (cell ''clubs'' r ''name'') = coll n \<longrightarrow>
        coll (cell ''clubs'' r ''country'') \<noteq> coll c"
      and "club_new api n c s = (Inr (club_made n c None), s')" and "tabs (srv_db s') = tabs (srv_db s)"
proof -
  let ?t = "club_fresh [] n c"
  have t: "fields_values ?t = []" "tablename ?t = ''clubs''" "sql_count ?t = 0" "cl_id ?t = []"
    by (simp_all add: club_fresh_def table_ctor_def club.defs)
  have shape: "(tablename ?t, map fst (start_conds ''name'' n ''country'' c)) \<in> set find_shapes"
    using c by (simp add: t start_conds_def find_shapes_def)
  have vals: "served_values (tablename ?t) (start_conds ''name'' n ''country'' c)"
    using n c by (simp add: t served_values_def start_conds_def number_columns_def)
  from sv tables_okD(1) [OF ok] t(1) vals shape show thesis
  proof (rule start_served [where s = s and t = "club_fresh [] n c"])
    fix s' r
    assume r: "r \<in> db_tables tabs s (tablename ?t)" and hit: "hits coll (tablename ?t) (start_conds ''name'' n ''country'' c) r"
      and run: "start api ''name'' n ''country'' c (?t, s) = (Inr True, (?t\<lparr>sql_count := Suc (sql_count ?t), found_flag := True,
        fields_values := overlay (td_columns (schema (tablename ?t))) r []\<rparr>, s'))"
      and same: "tabs (srv_db s') = tabs (srv_db s)"
    from r tables_okD(1) [OF ok] obtain i n' c' where row: "r = [i, n', c']"
      by (auto simp: t elim: row_of_three)
    have "club_new api n c s = (Inr (club_made n c (Some r)), s')"
      using run by (simp add: club_new_def construct_def prog_simps t row club_made_def get_field_def)
        (simp add: club_fresh_def table_ctor_def club.defs)
    with r hit c same show thesis
      by (intro known [of r s']) (auto simp: t hits_def start_conds_def)
  next
    fix s'
    assume no: "\<forall>r \<in> db_tables tabs s (tablename ?t). \<not> hits coll (tablename ?t) (start_conds ''name'' n ''country'' c) r"
      and run: "start api ''name'' n ''country'' c (?t, s) = (Inr False, (?t\<lparr>sql_count := Suc (sql_count ?t), found_flag := False,
        fields_values := fold (\<lambda>(c, v). map_put c v) (start_conds ''name'' n ''country'' c) []\<rparr>, s'))"
      and same: "tabs (srv_db s') = tabs (srv_db s)"
    have "club_new api n c s = (Inr (club_made n c None), s')"
      using run c by (simp add: club_new_def construct_def prog_simps t start_conds_def club_made_def)
        (simp add: club_fresh_def table_ctor_def club.defs)
    with no c same show thesis
      by (intro unknown [of s']) (auto simp: t hits_def start_conds_def)
  qed
qed

lemma club_save_served:
  assumes sv: "mysql_serves coll api tabs" and n: "sql_text n" and c: "sql_text c"
    and found: "\<And>r. found = Some r \<Longrightarrow> \<exists>j. cell ''clubs'' r ''id'' = decimal j"
  defines "idd \<equiv> map_option (\<lambda>r. cell ''clubs'' r ''id'') found"
  obtains (saved) i s' cl where "put_allowed coll (tabs (srv_db s)) ''clubs'' (named_vals n c idd)"
      and "idd = None \<Longrightarrow> fresh_id (db_tables tabs s) ''clubs'' i"
      and "db_tables tabs s' = put_rows coll (db_tables tabs s) ''clubs'' i (named_vals n c idd)"
      and "save_local api club_vtable (club_made n c found) s = (Inr (True, cl), s')"
      and "cl_id cl = (case idd of None \<Rightarrow> decimal i | Some j \<Rightarrow> j)"
    | (rejected) s' cl where "\<not> put_allowed coll (tabs (srv_db s)) ''clubs'' (named_vals n c idd)"
      and "save_local api club_vtable (club_made n c found) s = (Inr (False, cl), s')"
      and "cl_id cl = (case idd of None \<Rightarrow> [] | Some j \<Rightarrow> j)" and "db_tables tabs s' = db_tables tabs s"
proof -
  let ?t = "club_made n c found"
  let ?t1 = "?t\<lparr>fields_values := named_vals n c idd\<rparr>"
  have made: "cl_id ?t = (case idd of None \<Rightarrow> [] | Some j \<Rightarrow> j)" "cl_name ?t = n" "cl_country ?t = c"
    "tablename ?t = ''clubs''" "key_field1 ?t = ''name''" "key_field2 ?t = ''country''" "sql_count ?t = 1"
    by (auto simp: club_made_def idd_def club_fresh_def table_ctor_def club.defs split: option.splits)
  have pop: "v_populate club_vtable ?t = (Inr (), ?t1)"
    using n c found
    by (cases found) (auto simp: club_vtable_def club_populate_run club_made_def named_vals_def idd_def
        set_field_def club_fresh_def table_ctor_def club.defs)
  have conds: "key_conds ?t1 = [(''name'', n), (''country'', c)]"
    by (simp add: key_conds_def made get_field_def)
  have texts: "served_values (tablename ?t1) (named_vals n c idd)"
    using n c found by (auto simp: made served_values_def number_columns_def named_vals_def idd_def split: option.splits)
  have put: "(tablename ?t1, map fst (named_vals n c idd)) \<in> set put_shapes"
    by (auto simp: made named_vals_def put_shapes_def split: option.splits)
  have find: "(tablename ?t1, map fst (key_conds ?t1)) \<in> set find_shapes" "covers (tablename ?t1) (map fst (key_conds ?t1))"
    by (simp_all add: conds made find_shapes_def covers_def)
  have key: "key_field1 ?t1 \<noteq> ''id''" by (simp add: made)
  have sub: "\<forall>(c', v) \<in> set (key_conds ?t1). map_of (named_vals n c idd) c' = Some v"
    by (simp add: conds)
  have vals: "fields_values ?t1 = named_vals n c idd" "named_vals n c idd \<noteq> []" by simp_all
  show thesis
  proof (rule table_class.save_put [OF clubs.table_class_axioms sv pop key vals texts put find sub, of s])
    fix i s'
    let ?row = "new_row (tablename ?t1) i (named_vals n c idd)"
    let ?t2 = "?t1\<lparr>sql_count := sql_count ?t1 + 2, found_flag := True,
      fields_values := overlay (td_columns (schema (tablename ?t1))) ?row (named_vals n c idd)\<rparr>"
    assume allowed: "put_allowed coll (tabs (srv_db s)) (tablename ?t1) (named_vals n c idd)"
      and fresh: "needs_id (tablename ?t1) (named_vals n c idd) \<Longrightarrow> fresh_id (db_tables tabs s) (tablename ?t1) i"
      and rows: "db_tables tabs s' = put_rows coll (db_tables tabs s) (tablename ?t1) i (named_vals n c idd)"
      and run: "save api club_vtable (?t, s) = then_p (on_fst (v_reset club_vtable)) (v_save_related club_vtable) (?t2, s')"
    have "save_local api club_vtable ?t s = (Inr (True, snd (club_reset ?t2)), s')"
      using run by (simp add: save_local_def club_vtable_def club_reset_def prog_simps)
    moreover have "cl_id (snd (club_reset ?t2)) = (case idd of None \<Rightarrow> decimal i | Some j \<Rightarrow> j)"
      by (simp add: club_reset_def modify_p_def get_field_def made new_row_def split: option.splits)
    moreover have "idd = None \<Longrightarrow> needs_id (tablename ?t1) (named_vals n c idd)"
      by (simp add: needs_id_def made tbl_clubs_def)
    ultimately show thesis
      using allowed fresh rows made(4) by (intro saved [of i s' "snd (club_reset ?t2)"]) simp_all
  next
    fix s'
    assume "\<not> put_allowed coll (tabs (srv_db s)) (tablename ?t1) (named_vals n c idd)"
      and "save api club_vtable (?t, s) = (Inr False, (?t1, s'))" and "db_tables tabs s' = db_tables tabs s"
    then show thesis
      using made by (intro rejected [of ?t1 s']) (simp_all add: save_local_def)
  qed
qed

section \<open>The tables\<close>

definition club_found :: "(string \<Rightarrow> string) \<Rightarrow> (string \<Rightarrow> string list set) \<Rightarrow> string \<Rightarrow> string \<Rightarrow> string list option \<Rightarrow> bool" where
  "club_found coll rows n c found \<longleftrightarrow> (case found of
      Some r \<Rightarrow> r \<in> rows ''clubs'' \<and> coll (cell ''clubs'' r ''name'') = coll n \<and> coll (cell ''clubs'' r ''country'') = coll c
    | None \<Rightarrow> \<forall>r \<in> rows ''clubs''. coll (cell ''clubs'' r ''name'') = coll n \<longrightarrow> coll (cell ''clubs'' r ''country'') \<noteq> coll c)"

abbreviation club_fields :: "string \<Rightarrow> string \<Rightarrow> string list option \<Rightarrow> (string \<times> string) list" where
  "club_fields n c found \<equiv> named_vals n c (map_option (\<lambda>r. cell ''clubs'' r ''id'') found)"

lemma clashing_clubs:
  assumes ok: "tables_ok coll rows" and found: "club_found coll rows n c found"
  shows "clashing coll rows ''clubs'' (club_fields n c found) = {r \<in> rows ''clubs''. coll (cell ''clubs'' r ''name'') = coll n}"
proof -
  have "r' = r" if "found = Some r" "r' \<in> rows ''clubs''" "coll (cell ''clubs'' r' ''id'') = coll (cell ''clubs'' r ''id'')" for r r'
  proof -
    from found that(1) have "r \<in> rows ''clubs''" by (simp add: club_found_def)
    from tables_okD(3) [OF ok that(2) this, of "[''id'']"] that(3) show ?thesis by simp
  qed
  with found show ?thesis by (cases found) (auto simp: clashing_def clash_def club_found_def)
qed

lemma put_clubs:
  assumes inj: "coll_numbers coll" and ok: "tables_ok coll rows"
    and clash: "clashing coll rows ''clubs'' vals = old"
  shows "put_rows coll rows ''clubs'' i vals = rows(''clubs'' := insert (new_row ''clubs'' i vals) (rows ''clubs'' - old),
    ''clubs_seasons'' := {m \<in> rows ''clubs_seasons''. cell ''clubs_seasons'' m ''club'' \<notin> (\<lambda>r. cell ''clubs'' r ''id'') ` old})"
proof -
  have "coll (cell ''clubs_seasons'' m ''club'') = coll (cell ''clubs'' r ''id'') \<longleftrightarrow> cell ''clubs_seasons'' m ''club'' = cell ''clubs'' r ''id''"
    if m: "m \<in> rows ''clubs_seasons''" and r: "r \<in> old" for m r
    by (rule numbers_equal [OF inj ok m]) (use r clash in \<open>auto simp: clashing_def number_columns_def\<close>)
  then show ?thesis
    by (auto simp: put_rows_def delete_clubs clash fun_eq_iff)
qed

lemma club_reply_put:
  fixes c :: string
  assumes inj: "coll_numbers coll" and ok: "tables_ok coll (tb_rows tb)"
    and found: "club_found coll (tb_rows tb) n c found" and c: "length c \<le> 2"
  defines "allowed \<equiv> put_allowed coll tb ''clubs'' (club_fields n c found)"
  assumes fresh: "found = None \<Longrightarrow> allowed \<Longrightarrow> fresh_id (tb_rows tb) ''clubs'' i"
  shows "club_reply coll tb n c (case found of Some r \<Rightarrow> cell ''clubs'' r ''id'' | None \<Rightarrow> if allowed then decimal i else [])
    allowed (if allowed then put_rows coll (tb_rows tb) ''clubs'' i (club_fields n c found) else tb_rows tb)"
proof -
  have allowed: "allowed \<longleftrightarrow> length n \<le> 50 \<and> (found \<noteq> None \<or> \<not> tb_full tb ''clubs'')"
    using c by (auto simp: allowed_def put_allowed_clubs)
  have row: "new_row ''clubs'' i (club_fields n c found) = [case found of Some r \<Rightarrow> cell ''clubs'' r ''id'' | None \<Rightarrow> decimal i, n, c]"
    by (simp add: new_row_def split: option.splits)
  note put = put_clubs [OF inj ok clashing_clubs [OF ok found], of i, unfolded row]
  let ?known = "{r \<in> {r \<in> tb_rows tb ''clubs''. coll (cell ''clubs'' r ''name'') = coll n}. coll (cell ''clubs'' r ''country'') = coll c}"
  show ?thesis
  proof (cases found)
    case None
    with found have "?known = {}" by (auto simp: club_found_def)
    with None fresh allowed show ?thesis
      unfolding club_reply_def Let_def using put by simp
  next
    case (Some r)
    with found have "r \<in> ?known" by (simp add: club_found_def)
    moreover from this have "?known \<noteq> {}" by blast
    ultimately show ?thesis
      using Some allowed
      unfolding club_reply_def Let_def put by auto
  qed
qed

section \<open>The request\<close>

lemma club_request_served:
  assumes sv: "mysql_serves coll api tabs" and ok: "tables_ok coll (db_tables tabs s)" and sound: "tables_sound coll (db_tables tabs s)"
    and n: "sql_text n" and c: "sql_text c" "length c \<le> 2"
  obtains success cl s' where "bind_p (club_new api n c) (\<lambda>cl. save_local api club_vtable cl) s = (Inr (success, cl), s')"
    and "club_reply coll (tabs (srv_db s)) n c (cl_id cl) success (db_tables tabs s')"
    and "tables_ok coll (db_tables tabs s')" and "tables_sound coll (db_tables tabs s')"
proof -
  let ?rows = "db_tables tabs s"
  note inj = mysql_servesD(2) [OF sv]
  obtain found s1 where new: "club_new api n c s = (Inr (club_made n c found), s1)"
    and same: "tabs (srv_db s1) = tabs (srv_db s)" and found: "club_found coll ?rows n c found"
  proof (rule club_new_served [OF sv ok n c(1)])
    fix s1 r
    assume "r \<in> ?rows ''clubs''" and "coll (cell ''clubs'' r ''name'') = coll n" and "coll (cell ''clubs'' r ''country'') = coll c"
      and "club_new api n c s = (Inr (club_made n c (Some r)), s1)" and "tabs (srv_db s1) = tabs (srv_db s)"
    then show thesis using that [of "Some r" s1] by (simp add: club_found_def)
  next
    fix s1
    assume "\<forall>r \<in> ?rows ''clubs''. coll (cell ''clubs'' r ''name'') = coll n \<longrightarrow> coll (cell ''clubs'' r ''country'') \<noteq> coll c"
      and "club_new api n c s = (Inr (club_made n c None), s1)" and "tabs (srv_db s1) = tabs (srv_db s)"
    then show thesis using that [of None s1] by (simp add: club_found_def)
  qed
  have id_ok: "\<exists>j. cell ''clubs'' r ''id'' = decimal j" if "found = Some r" for r
    using tables_okD(2) [OF ok _, of "''clubs''" "''id''" r] found that by (auto simp: number_columns_def club_found_def)
  note reply = club_reply_put [OF inj ok found c(2)]
  from sv n c(1) id_ok show thesis
  proof (rule club_save_served [where found = found and s = s1])
    fix i s' cl
    assume put: "put_allowed coll (tabs (srv_db s1)) ''clubs'' (club_fields n c found)"
      and fresh: "map_option (\<lambda>r. cell ''clubs'' r ''id'') found = None \<Longrightarrow> fresh_id (db_tables tabs s1) ''clubs'' i"
      and rows: "db_tables tabs s' = put_rows coll (db_tables tabs s1) ''clubs'' i (club_fields n c found)"
      and run: "save_local api club_vtable (club_made n c found) s1 = (Inr (True, cl), s')"
      and idd: "cl_id cl = (case map_option (\<lambda>r. cell ''clubs'' r ''id'') found of None \<Rightarrow> decimal i | Some j \<Rightarrow> j)"
    have need: "needs_id ''clubs'' (club_fields n c found) \<Longrightarrow> fresh_id ?rows ''clubs'' i"
      using fresh same by (auto simp: needs_id_def)
    have "tables_ok coll (db_tables tabs s')"
      unfolding rows same using put same id_ok
      by (intro put_keeps_ok [OF inj ok _ refl need]) (auto simp: number_columns_def)
    moreover have "tables_sound coll (db_tables tabs s')"
      unfolding rows same using put same n
      by (intro put_keeps_sound [OF sound _ refl]) (auto simp: text_columns_def)
    ultimately show thesis
      using reply [of i] fresh put rows same idd new run
      by (intro that [of True cl s']) (simp_all add: bind_p_def split: option.splits)
  next
    fix s' cl
    assume "\<not> put_allowed coll (tabs (srv_db s1)) ''clubs'' (club_fields n c found)"
      and "save_local api club_vtable (club_made n c found) s1 = (Inr (False, cl), s')"
      and "cl_id cl = (case map_option (\<lambda>r. cell ''clubs'' r ''id'') found of None \<Rightarrow> [] | Some j \<Rightarrow> j)"
      and "db_tables tabs s' = db_tables tabs s1"
    then show thesis
      using reply [of 0] new same ok sound
      by (intro that [of False cl s']) (simp_all add: bind_p_def split: option.splits)
  qed
qed

lemma new_club_served:
  assumes sv: "mysql_serves coll api tabs" and wf: "well_formed coll (db_tables tabs s)"
    and shape: "new_club_ok cl" and texts: "sql_text (wide_text (ncl_name cl))" "sql_text (map narrow (ncl_country cl))"
  obtains idd success s' where "event_action_new_club api cl s = respond idd success s'"
    and "club_reply coll (tabs (srv_db s)) (wide_text (ncl_name cl)) (map narrow (ncl_country cl)) idd success (db_tables tabs s')"
    and "well_formed coll (db_tables tabs s')"
proof -
  let ?n = "wide_text (ncl_name cl)" and ?c = "map narrow (ncl_country cl)"
  have len: "length ?c \<le> 2" using shape by (simp add: new_club_ok_def)
  have split: "event_action_new_club api cl = bind_p (bind_p (club_new api ?n ?c)
      (\<lambda>cl. save_local api club_vtable cl)) (\<lambda>(success, cl). respond (cl_id cl) success)"
    by (simp add: event_action_new_club_def bind_p_assoc)
  show thesis
  proof (rule club_request_served [OF sv wf [unfolded well_formed_def, THEN conjunct1] wf [unfolded well_formed_def, THEN conjunct2] texts len])
    fix success x s'
    assume "bind_p (club_new api ?n ?c) (\<lambda>cl. save_local api club_vtable cl) s = (Inr (success, x), s')"
      and "club_reply coll (tabs (srv_db s)) ?n ?c (cl_id x) success (db_tables tabs s')"
      and "tables_ok coll (db_tables tabs s')" and "tables_sound coll (db_tables tabs s')"
    then show thesis
      using that [of "cl_id x" success s'] by (simp add: well_formed_def split bind_p_def [where m = "bind_p _ _"])
  qed
qed

end
