(* ===== verification/Season_Service.thy ===== *)
theory Season_Service
  imports Event_Action Table_Service
begin

text \<open>
  The requests \<^verbatim>\<open>new_season\<close> and \<^verbatim>\<open>new_season_club\<close> against the tables of \<^verbatim>\<open>football.sql\<close>. A season is
  read with its memberships, its row is replaced, which takes the memberships along, and the memberships
  of the object are written again, one statement each.
\<close>

section \<open>Reading a season's clubs\<close>

lemma start_list_served:
  assumes sv: "mysql_serves coll api tabs" and t: "fields_values t = []" and v: "served_values (tablename t) [(f, v)]"
    and shape: "(tablename t, [f]) \<in> set find_shapes"
  obtains b t' s' rs where "start_list api f v (t, s) = (Inr b, (t', s'))"
    and "srv_result s' = Some (table_rs (td_columns (schema (tablename t))) rs)"
    and "tabs (srv_db s') = tabs (srv_db s)"
    and "set rs = {r \<in> db_tables tabs s (tablename t). coll (cell (tablename t) r f) = coll v}"
proof -
  obtain s' rs where run: "run_stmt api (find_text (tablename t) [(f, v)] '';'') s = (Inr (), s')"
    and res: "srv_result s' = Some (table_rs (td_columns (schema (tablename t))) rs)"
    and same: "tabs (srv_db s') = tabs (srv_db s)"
    and ans: "answers ('';'' \<noteq> '';'') {r \<in> db_tables tabs s (tablename t). hits coll (tablename t) [(f, v)] r} rs"
    using run_find [OF sv, of "tablename t" "[(f, v)]" "'';''" s] shape v by auto
  have "v \<noteq> []" using served_valuesD [OF v] by simp
  with run res have "start_list api f v (t, s) = (Inr (rs \<noteq> []), ((if rs \<noteq> [] then set_field f v else (\<lambda>t. t))
      (t\<lparr>sql_count := Suc (sql_count t), found_flag := rs \<noteq> []\<rparr>), s'))"
    using start_find(2) [OF t, of f v]
    by (simp add: start_list_def select_list_def issue_run prog_simps has_rows_def)
  from that [OF this res same] ans show thesis by (simp add: answers_def hits_def)
qed

lemma collect_ids_rows:
  assumes "srv_result s = Some ((table_rs [''season'', ''club''] rs)\<lparr>rs_cursor := k\<rparr>)"
    and "list_all (\<lambda>r. length r = 2) rs" and "k \<le> length rs"
  shows "\<exists>s'. collect_ids s ids = (Inr (ids @ map (\<lambda>m. cell ''clubs_seasons'' m ''club'') (drop k rs)), s')
    \<and> srv_db s' = srv_db s"
  using assms
proof (induction "length rs - k" arbitrary: s ids k)
  case 0
  then show ?case
    by (subst collect_ids.simps) (simp add: srv_next_def rs_next_def table_rs_def)
next
  case (Suc n)
  let ?m = "rs ! k" and ?s = "s\<lparr>srv_result := Some ((table_rs [''season'', ''club''] rs)\<lparr>rs_cursor := Suc k\<rparr>)\<rparr>"
  from Suc have k: "k < length rs" by simp
  then obtain a b where m: "?m = [a, b]"
    using Suc.prems(2) by (fastforce simp: list_all_length numeral_2_eq_2 length_Suc_conv)
  have "srv_next s = (Inr True, ?s)"
    using Suc.prems(1) k by (simp add: srv_next_def rs_next_def table_rs_def)
  moreover have "srv_get_value ''club'' ?s = Inr b"
    using k m by (simp add: srv_get_value_def rs_get_string_def table_rs_def)
  moreover obtain s' where "collect_ids ?s (ids @ [b]) =
      (Inr ((ids @ [b]) @ map (\<lambda>m. cell ''clubs_seasons'' m ''club'') (drop (Suc k) rs)), s')" and "srv_db s' = srv_db ?s"
  proof -
    have "n = length rs - Suc k" using Suc.hyps(2) by simp
    from Suc.hyps(1) [OF this, of ?s "ids @ [b]"] Suc.prems(2) k that show thesis by auto
  qed
  moreover have "drop k rs = [a, b] # drop (Suc k) rs" using k m by (simp add: Cons_nth_drop_Suc [symmetric])
  ultimately show ?case by (subst collect_ids.simps) simp
qed

text \<open>What is loaded for an id: the club's name and country, or nothing if there is no such club.\<close>

definition loaded_club :: "(string \<Rightarrow> string list set) \<Rightarrow> string \<Rightarrow> club \<Rightarrow> bool" where
  "loaded_club rows idd cl \<longleftrightarrow> cl_id cl = idd
     \<and> (\<forall>r \<in> rows ''clubs''. cell ''clubs'' r ''id'' = idd \<longrightarrow> club_key cl = (cell ''clubs'' r ''name'', cell ''clubs'' r ''country''))
     \<and> ((\<forall>r \<in> rows ''clubs''. cell ''clubs'' r ''id'' \<noteq> idd) \<longrightarrow> club_key cl = ([], []))"

lemma club_by_id_served:
  assumes sv: "mysql_serves coll api tabs" and ok: "tables_ok coll (db_tables tabs s)"
  obtains cl s' where "club_by_id api (decimal k) s = (Inr cl, s')" and "loaded_club (db_tables tabs s) (decimal k) cl"
    and "tabs (srv_db s') = tabs (srv_db s)"
proof -
  let ?t = "club_fresh (decimal k) [] []"
  have t: "fields_values ?t = []" "tablename ?t = ''clubs''" "cl_id ?t = decimal k" "cl_name ?t = []" "cl_country ?t = []"
    by (simp_all add: club_fresh_def table_ctor_def club.defs)
  have id_eq: "coll (cell ''clubs'' r ''id'') = coll (decimal k) \<longleftrightarrow> cell ''clubs'' r ''id'' = decimal k"
    if r: "r \<in> db_tables tabs s ''clubs''" for r
    using tables_okD(2) [OF ok _ r, of "''id''"] mysql_servesD(2) [OF sv] by (auto simp: number_columns_def coll_numbers_def)
  have shape: "(tablename ?t, map fst (start_conds ''id'' (decimal k) [] [])) \<in> set find_shapes"
    by (simp add: t start_conds_def find_shapes_def)
  have vals: "served_values (tablename ?t) (start_conds ''id'' (decimal k) [] [])"
    by (simp add: t served_values_def start_conds_def number_columns_def)
  from sv tables_okD(1) [OF ok] t(1) vals shape show thesis
  proof (rule start_served [where s = s and t = "club_fresh (decimal k) [] []"])
    fix s' r
    assume r: "r \<in> db_tables tabs s (tablename ?t)" and hit: "hits coll (tablename ?t) (start_conds ''id'' (decimal k) [] []) r"
      and run: "start api ''id'' (decimal k) [] [] (?t, s) = (Inr True, (?t\<lparr>sql_count := Suc (sql_count ?t), found_flag := True,
        fields_values := overlay (td_columns (schema (tablename ?t))) r []\<rparr>, s'))"
      and same: "tabs (srv_db s') = tabs (srv_db s)"
    from r tables_okD(1) [OF ok] obtain i n c where row: "r = [i, n, c]"
      by (auto simp: t elim: row_of_three)
    have idd: "cell ''clubs'' r ''id'' = decimal k"
      using hit id_eq r by (auto simp: t hits_def start_conds_def)
    have "r' = r" if "r' \<in> db_tables tabs s ''clubs''" "cell ''clubs'' r' ''id'' = decimal k" for r'
      using r that idd by (intro tables_okD(3) [OF ok that(1), of r "[''id'']"]) (auto simp: t)
    note uniq = this
    have loaded: "loaded_club (db_tables tabs s) (decimal k) cl" if "cl_id cl = decimal k" "club_key cl = (n, c)" for cl
      unfolding loaded_club_def
    proof (intro conjI ballI impI)
      show "club_key cl = (cell ''clubs'' r' ''name'', cell ''clubs'' r' ''country'')"
        if "r' \<in> db_tables tabs s ''clubs''" "cell ''clubs'' r' ''id'' = decimal k" for r'
        using \<open>club_key cl = (n, c)\<close> by (simp add: uniq [OF that] row)
      show "club_key cl = ([], [])" if "\<forall>r \<in> db_tables tabs s ''clubs''. cell ''clubs'' r ''id'' \<noteq> decimal k"
        using that r idd by (simp add: t)
    qed (rule that(1))
    define cl where "cl = ?t\<lparr>sql_count := Suc (sql_count ?t), found_flag := True,
      fields_values := overlay (td_columns (schema (tablename ?t))) r [], cl_name := n, cl_country := c\<rparr>"
    have "club_by_id api (decimal k) s = (Inr cl, s')"
      using run by (simp add: club_by_id_def construct_def prog_simps cl_def row t get_field_def)
    moreover have "cl_id cl = decimal k" "club_key cl = (n, c)" by (simp_all add: cl_def t club_key_def)
    ultimately show thesis using that loaded same by blast
  next
    fix s'
    assume no: "\<forall>r \<in> db_tables tabs s (tablename ?t). \<not> hits coll (tablename ?t) (start_conds ''id'' (decimal k) [] []) r"
      and run: "start api ''id'' (decimal k) [] [] (?t, s) = (Inr False, (?t\<lparr>sql_count := Suc (sql_count ?t), found_flag := False,
        fields_values := fold (\<lambda>(c, v). map_put c v) (start_conds ''id'' (decimal k) [] []) []\<rparr>, s'))"
      and same: "tabs (srv_db s') = tabs (srv_db s)"
    have "\<forall>r \<in> db_tables tabs s ''clubs''. cell ''clubs'' r ''id'' \<noteq> decimal k"
      using no id_eq by (auto simp: t hits_def start_conds_def)
    then have "loaded_club (db_tables tabs s) (decimal k) (?t\<lparr>sql_count := sc, found_flag := ff, fields_values := fv\<rparr>)" for sc ff fv
      by (auto simp: loaded_club_def club_key_def t)
    moreover have "club_by_id api (decimal k) s = (Inr (?t\<lparr>sql_count := Suc (sql_count ?t), found_flag := False,
        fields_values := fold (\<lambda>(c, v). map_put c v) (start_conds ''id'' (decimal k) [] []) []\<rparr>), s')"
      using run by (simp add: club_by_id_def construct_def prog_simps)
    ultimately show thesis using that same by blast
  qed
qed

lemma emplace_clubs_served:
  assumes sv: "mysql_serves coll api tabs" and "tables_ok coll (db_tables tabs s)" and "list_all (\<lambda>v. \<exists>k. v = decimal k) ids"
  shows "\<exists>cls s'. emplace_clubs api ids (ss, s) = (Inr (), (ss\<lparr>ss_clubs := ss_clubs ss @ cls\<rparr>, s'))
    \<and> list_all2 (loaded_club (db_tables tabs s)) ids cls \<and> tabs (srv_db s') = tabs (srv_db s)"
  using assms(2,3)
proof (induction ids arbitrary: ss s)
  case Nil
  show ?case by (intro exI [of _ "[]"] exI [of _ s]) (simp add: prog_simps)
next
  case (Cons idd ids)
  from Cons.prems(2) obtain k where k: "idd = decimal k" by auto
  obtain cl s1 where cl: "club_by_id api idd s = (Inr cl, s1)" "loaded_club (db_tables tabs s) idd cl"
    and same: "tabs (srv_db s1) = tabs (srv_db s)"
    using club_by_id_served [OF sv Cons.prems(1), of k] k by metis
  from Cons.IH [of s1 "ss\<lparr>ss_clubs := ss_clubs ss @ [cl]\<rparr>"] Cons.prems same obtain cls s2
    where "emplace_clubs api ids (ss\<lparr>ss_clubs := ss_clubs ss @ [cl]\<rparr>, s1) = (Inr (), (ss\<lparr>ss_clubs := (ss_clubs ss @ [cl]) @ cls\<rparr>, s2))"
      and "list_all2 (loaded_club (db_tables tabs s)) ids cls" and "tabs (srv_db s2) = tabs (srv_db s)"
    by auto
  with cl show ?case
    by (intro exI [of _ "cl # cls"] exI [of _ s2]) (simp add: prog_simps)
qed

definition members :: "(string \<Rightarrow> string list set) \<Rightarrow> string \<Rightarrow> string set" where
  "members rows sid = {cid. [sid, cid] \<in> rows ''clubs_seasons''}"

lemma row_of_two:
  assumes "rows_wide rows" and "m \<in> rows ''clubs_seasons''"
  obtains a b where "m = [a, b]"
proof -
  from assms have "length m = 2" by (force simp: rows_wide_def)
  with that show thesis by (auto simp: numeral_2_eq_2 length_Suc_conv)
qed

lemma start_related_served:
  assumes sv: "mysql_serves coll api tabs" and ok: "tables_ok coll (db_tables tabs s)" and ss: "ss_id ss = decimal k"
  shows "\<exists>ids cls s'. season_start_related api (ss, s) = (Inr (), (ss\<lparr>ss_clubs := ss_clubs ss @ cls\<rparr>, s'))
    \<and> set ids = members (db_tables tabs s) (decimal k) \<and> list_all2 (loaded_club (db_tables tabs s)) ids cls
    \<and> tabs (srv_db s') = tabs (srv_db s)"
proof -
  let ?t = "table_ctor ''clubs_seasons'' ''season'' [] (club_season.fields [] (decimal k))" and ?rows = "db_tables tabs s"
  have t: "fields_values ?t = []" "tablename ?t = ''clubs_seasons''" by (simp_all add: table_ctor_def)
  have shape: "(tablename ?t, [''season'']) \<in> set find_shapes" by (simp add: t find_shapes_def)
  have vals: "served_values (tablename ?t) [(''season'', decimal k)]"
    by (auto simp: t served_values_def number_columns_def)
  obtain b t' s1 rs where list: "start_list api ''season'' (decimal k) (?t, s) = (Inr b, (t', s1))"
    and res: "srv_result s1 = Some (table_rs (td_columns (schema (tablename ?t))) rs)" and same: "tabs (srv_db s1) = tabs (srv_db s)"
    and rs': "set rs = {r \<in> ?rows (tablename ?t). coll (cell (tablename ?t) r ''season'') = coll (decimal k)}"
    by (rule start_list_served [OF sv t(1) vals shape])
  note rs = rs' [unfolded t(2)]
  have season_eq: "coll (cell ''clubs_seasons'' m ''season'') = coll (decimal k) \<longleftrightarrow> cell ''clubs_seasons'' m ''season'' = decimal k"
    if m: "m \<in> ?rows ''clubs_seasons''" for m
    using tables_okD(2) [OF ok _ m, of "''season''"] mysql_servesD(2) [OF sv] by (auto simp: number_columns_def coll_numbers_def)
  let ?ids = "map (\<lambda>m. cell ''clubs_seasons'' m ''club'') rs"
  have wide: "list_all (\<lambda>r. length r = 2) rs"
    using rs tables_okD(1) [OF ok] by (auto simp: list_all_iff elim: row_of_two)
  have res0: "srv_result s1 = Some ((table_rs [''season'', ''club''] rs)\<lparr>rs_cursor := 0\<rparr>)"
    using res by (simp add: table_rs_def t(2))
  from collect_ids_rows [OF this wide, of "[]"] obtain s2 where ids: "collect_ids s1 [] = (Inr ?ids, s2)" "srv_db s2 = srv_db s1"
    by auto
  have "list_all (\<lambda>v. \<exists>k. v = decimal k) ?ids"
    using rs tables_okD(2) [OF ok] by (fastforce simp: list_all_iff number_columns_def)
  from emplace_clubs_served [OF sv _ this, of s2 ss] ok ids(2) same obtain cls s3
    where emp: "emplace_clubs api ?ids (ss, s2) = (Inr (), (ss\<lparr>ss_clubs := ss_clubs ss @ cls\<rparr>, s3))"
      and "list_all2 (loaded_club ?rows) ?ids cls" and "tabs (srv_db s3) = tabs (srv_db s)" by auto
  moreover have "set ?ids = members ?rows (decimal k)"
  proof -
    have "\<exists>c. m = [decimal k, c]" if "m \<in> set rs" for m
    proof -
      have m: "m \<in> ?rows ''clubs_seasons''" using that by (simp add: rs)
      from tables_okD(1) [OF ok] m obtain a b where "m = [a, b]" by (rule row_of_two)
      with season_eq [OF m] that show ?thesis by (simp add: rs)
    qed
    then have "set rs = {m \<in> ?rows ''clubs_seasons''. \<exists>c. m = [decimal k, c]}"
      by (auto simp: rs)
    then show ?thesis by (force simp: members_def)
  qed
  moreover have "season_start_related api (ss, s) = (Inr (), (ss\<lparr>ss_clubs := ss_clubs ss @ cls\<rparr>, s3))"
    using list ids emp by (simp add: season_start_related_def club_season_list_def construct_def prog_simps ss)
  ultimately show ?thesis by blast
qed

section \<open>Writing memberships\<close>

definition known_id :: "(string \<Rightarrow> string list set) \<Rightarrow> string \<Rightarrow> string \<Rightarrow> bool" where
  "known_id rows t idd \<longleftrightarrow> (\<exists>r \<in> rows t. cell t r ''id'' = idd)"

lemma known_id_coll:
  assumes "coll_numbers coll" and "tables_ok coll rows" and "(t, ''id'') \<in> set number_columns"
  shows "(\<exists>r \<in> rows t. coll (cell t r ''id'') = coll (decimal k)) \<longleftrightarrow> known_id rows t (decimal k)"
proof -
  have "coll (cell t r ''id'') = coll (decimal k) \<longleftrightarrow> cell t r ''id'' = decimal k" if "r \<in> rows t" for r
    using tables_okD(2) [OF assms(2,3) that] assms(1) by (auto simp: coll_numbers_def)
  then show ?thesis by (auto simp: known_id_def)
qed

abbreviation member_fields :: "nat \<Rightarrow> nat \<Rightarrow> (string \<times> string) list" where
  "member_fields c k \<equiv> [(''club'', decimal c), (''season'', decimal k)]"

lemma put_allowed_members:
  assumes "coll_numbers coll" and "tables_ok coll (tb_rows tb)"
  shows "put_allowed coll tb ''clubs_seasons'' (member_fields c k)
    \<longleftrightarrow> known_id (tb_rows tb) ''clubs'' (decimal c) \<and> known_id (tb_rows tb) ''seasons'' (decimal k)"
  using known_id_coll [OF assms, of "''clubs''" c] known_id_coll [OF assms, of "''seasons''" k]
  by (simp add: put_allowed_def given_def fits_def parents_def held_def needs_id_def tbl_clubs_seasons_def number_columns_def)

lemma put_members:
  assumes num: "coll_numbers coll" and ok: "tables_ok coll rows"
  shows "put_rows coll rows ''clubs_seasons'' i (member_fields c k)
    = rows(''clubs_seasons'' := insert [decimal k, decimal c] (rows ''clubs_seasons''))"
proof -
  have "m = [decimal k, decimal c]" if "m \<in> clashing coll rows ''clubs_seasons'' (member_fields c k)" for m
  proof -
    from that have m: "m \<in> rows ''clubs_seasons''" by (simp add: clashing_def)
    from tables_okD(1) [OF ok] m obtain a b where row: "m = [a, b]" by (rule row_of_two)
    obtain x y where "a = decimal x" "b = decimal y"
      using tables_okD(2) [OF ok _ m, of "''season''"] tables_okD(2) [OF ok _ m, of "''club''"]
      by (auto simp: number_columns_def row)
    with that num show ?thesis by (auto simp: clashing_def clash_def row coll_numbers_def)
  qed
  then have "insert [decimal k, decimal c] (rows ''clubs_seasons'' - clashing coll rows ''clubs_seasons'' (member_fields c k))
      = insert [decimal k, decimal c] (rows ''clubs_seasons'')" by blast
  then show ?thesis
    by (auto simp: put_rows_def delete_rows_def new_row_def fun_eq_iff)
qed

lemma save_membership:
  fixes c k :: nat
  assumes sv: "mysql_serves coll api tabs" and wf: "well_formed coll (db_tables tabs s)"
  defines "success \<equiv> known_id (db_tables tabs s) ''clubs'' (decimal c) \<and> known_id (db_tables tabs s) ''seasons'' (decimal k)"
  obtains s' where "save_new api club_season_vtable (club_season_new (decimal c) (decimal k)) s = (Inr success, s')"
    and "db_tables tabs s' = (if success then (db_tables tabs s)(''clubs_seasons'' :=
        insert [decimal k, decimal c] (db_tables tabs s ''clubs_seasons'')) else db_tables tabs s)"
    and "well_formed coll (db_tables tabs s')"
proof -
  let ?t = "club_season_new (decimal c) (decimal k)" and ?vals = "member_fields c k"
  have ok: "tables_ok coll (db_tables tabs s)" and sound: "tables_sound coll (db_tables tabs s)"
    using wf by (simp_all add: well_formed_def)
  note num = mysql_servesD(2) [OF sv]
  have vals: "fields_values ?t = ?vals" "csn_club_id ?t = decimal c" "csn_season_id ?t = decimal k"
    by (simp_all add: club_season_new_def club_season_populate_def prog_simps set_field_def
        table_ctor_def club_season.defs)
  then have pop: "v_populate club_season_vtable ?t = (Inr (), ?t)"
    by (simp add: club_season_vtable_def club_season_populate_def prog_simps set_field_def)
  have conds: "key_conds ?t = ?vals" by (simp add: key_conds_def club_season_new_fields)
  have key: "key_field1 ?t \<noteq> ''id''" by (simp add: club_season_new_fields)
  have texts: "served_values (tablename ?t) ?vals"
    by (simp add: club_season_new_fields served_values_def number_columns_def)
  have put: "(tablename ?t, map fst ?vals) \<in> set put_shapes" by (simp add: club_season_new_fields put_shapes_def)
  have find: "(tablename ?t, map fst (key_conds ?t)) \<in> set find_shapes" "covers (tablename ?t) (map fst (key_conds ?t))"
    by (simp_all add: conds club_season_new_fields find_shapes_def covers_def)
  have sub: "\<forall>(c', v) \<in> set (key_conds ?t). map_of ?vals c' = Some v" by (simp add: conds)
  note allowed = put_allowed_members [OF num ok, where c = c and k = k, folded success_def]
  show thesis
  proof (rule table_class.save_put [OF membership.table_class_axioms sv pop key vals(1) _ texts put find sub, of s];
      (simp only: club_season_new_fields)?)
    show "?vals \<noteq> []" by simp
  next
    fix i s'
    assume may: "put_allowed coll (tabs (srv_db s)) ''clubs_seasons'' ?vals"
      and rows: "db_tables tabs s' = put_rows coll (db_tables tabs s) ''clubs_seasons'' i ?vals"
      and run: "save api club_season_vtable (?t, s) = then_p (on_fst (v_reset club_season_vtable))
        (v_save_related club_season_vtable) (?t\<lparr>sql_count := sql_count ?t + 2, found_flag := True,
          fields_values := overlay (td_columns (schema ''clubs_seasons'')) (new_row ''clubs_seasons'' i ?vals) ?vals\<rparr>, s')"
    have success using may allowed by simp
    have "save_new api club_season_vtable ?t s = (Inr True, s')"
      unfolding save_new_def run by (simp add: club_season_vtable_def club_season_reset_def prog_simps)
    then have "save_new api club_season_vtable ?t s = (Inr success, s')" using \<open>success\<close> by simp
    moreover have "db_tables tabs s' = (if success then (db_tables tabs s)(''clubs_seasons'' :=
        insert [decimal k, decimal c] (db_tables tabs s ''clubs_seasons'')) else db_tables tabs s)"
      using rows put_members [OF num ok] \<open>success\<close> by simp
    moreover have "well_formed coll (db_tables tabs s')"
      unfolding well_formed_def rows
    proof
      show "tables_ok coll (put_rows coll (db_tables tabs s) ''clubs_seasons'' i ?vals)"
        by (rule put_keeps_ok [OF num ok may refl]) (auto simp: needs_id_def tbl_clubs_seasons_def split: if_splits)
      show "tables_sound coll (put_rows coll (db_tables tabs s) ''clubs_seasons'' i ?vals)"
        by (rule put_keeps_sound [OF sound may refl]) (simp_all add: text_columns_def)
    qed
    ultimately show thesis by (rule that)
  next
    fix s'
    assume "\<not> put_allowed coll (tabs (srv_db s)) ''clubs_seasons'' ?vals"
      and "save api club_season_vtable (?t, s) = (Inr False, (?t, s'))" and "db_tables tabs s' = db_tables tabs s"
    then show thesis using allowed wf by (intro that [of s']) (simp_all add: save_new_def)
  qed
qed

text \<open>The loop tries every club; those the table of clubs knows are members afterwards.\<close>

definition member_rows :: "(string \<Rightarrow> string list set) \<Rightarrow> string \<Rightarrow> club list \<Rightarrow> string list set" where
  "member_rows rows sid cs = {[sid, cl_id c] |c. c \<in> set cs \<and> known_id rows ''clubs'' (cl_id c)}"

lemma save_related_served:
  assumes sv: "mysql_serves coll api tabs" and "well_formed coll (db_tables tabs s)"
    and "list_all (\<lambda>c. \<exists>j. cl_id c = decimal j) cs" and "known_id (db_tables tabs s) ''seasons'' (decimal k)"
  shows "\<exists>s'. save_related_loop api (decimal k) cs r s
      = (Inr (if cs = [] then r else known_id (db_tables tabs s) ''clubs'' (cl_id (last cs))), s')
    \<and> db_tables tabs s' = (db_tables tabs s)(''clubs_seasons'' :=
        db_tables tabs s ''clubs_seasons'' \<union> member_rows (db_tables tabs s) (decimal k) cs)
    \<and> well_formed coll (db_tables tabs s')"
  using assms(2-4)
proof (induction cs arbitrary: r s)
  case Nil
  then show ?case by (simp add: prog_simps member_rows_def)
next
  case (Cons c cs)
  let ?rows = "db_tables tabs s"
  from Cons.prems(2) obtain j where j: "cl_id c = decimal j" by auto
  obtain s1 where step: "save_new api club_season_vtable (club_season_new (cl_id c) (decimal k)) s
        = (Inr (known_id ?rows ''clubs'' (cl_id c)), s1)"
    and rows: "db_tables tabs s1 = (if known_id ?rows ''clubs'' (cl_id c)
        then ?rows(''clubs_seasons'' := insert [decimal k, cl_id c] (?rows ''clubs_seasons'')) else ?rows)"
    and wf: "well_formed coll (db_tables tabs s1)"
    unfolding j
  proof (rule save_membership [OF sv Cons.prems(1), of j k])
    fix s1
    assume "save_new api club_season_vtable (club_season_new (decimal j) (decimal k)) s
        = (Inr (known_id ?rows ''clubs'' (decimal j) \<and> known_id ?rows ''seasons'' (decimal k)), s1)"
      and "db_tables tabs s1 = (if known_id ?rows ''clubs'' (decimal j) \<and> known_id ?rows ''seasons'' (decimal k)
        then ?rows(''clubs_seasons'' := insert [decimal k, decimal j] (?rows ''clubs_seasons'')) else ?rows)"
      and "well_formed coll (db_tables tabs s1)"
    with that [of s1, unfolded j] Cons.prems(3) show thesis by simp
  qed
  have known: "known_id (db_tables tabs s1) t = known_id ?rows t" if "t \<noteq> ''clubs_seasons''" for t
    using that by (auto simp: rows known_id_def fun_eq_iff)
  have clubs: "known_id (db_tables tabs s1) ''clubs'' = known_id ?rows ''clubs''" by (rule known) simp
  have rel: "member_rows (db_tables tabs s1) = member_rows ?rows"
    by (simp add: fun_eq_iff member_rows_def clubs)
  have "list_all (\<lambda>c. \<exists>j. cl_id c = decimal j) cs" "known_id (db_tables tabs s1) ''seasons'' (decimal k)"
    using Cons.prems(2,3) known by simp_all
  from Cons.IH [OF wf this, of "known_id ?rows ''clubs'' (cl_id c)", unfolded rel clubs] obtain s2
    where loop: "save_related_loop api (decimal k) cs (known_id ?rows ''clubs'' (cl_id c)) s1
        = (Inr (if cs = [] then known_id ?rows ''clubs'' (cl_id c) else known_id ?rows ''clubs'' (cl_id (last cs))), s2)"
      and rows2: "db_tables tabs s2 = (db_tables tabs s1)(''clubs_seasons'' :=
        db_tables tabs s1 ''clubs_seasons'' \<union> member_rows ?rows (decimal k) cs)"
      and wf2: "well_formed coll (db_tables tabs s2)"
    by blast
  have more: "member_rows ?rows (decimal k) (c # cs) =
      (if known_id ?rows ''clubs'' (cl_id c) then {[decimal k, cl_id c]} else {}) \<union> member_rows ?rows (decimal k) cs"
    by (auto simp: member_rows_def)
  have "db_tables tabs s2 = ?rows(''clubs_seasons'' := ?rows ''clubs_seasons'' \<union> member_rows ?rows (decimal k) (c # cs))"
    unfolding rows2 rows more by simp
  moreover have "save_related_loop api (decimal k) (c # cs) r s
      = (Inr (if c # cs = [] then r else known_id ?rows ''clubs'' (cl_id (last (c # cs)))), s2)"
    using step loop by (simp add: bind_p_def)
  ultimately show ?case using wf2 by blast
qed

section \<open>Writing a season\<close>

definition season_vals :: "nat \<Rightarrow> string \<Rightarrow> nat option \<Rightarrow> (string \<times> string) list" where
  "season_vals h y idd = (case idd of None \<Rightarrow> [(''championship'', decimal h), (''year'', y)]
     | Some k \<Rightarrow> [(''championship'', decimal h), (''id'', decimal k), (''year'', y)])"

lemma season_vals_simps [simp]:
  "map_of (season_vals h y idd) ''championship'' = Some (decimal h)" "map_of (season_vals h y idd) ''year'' = Some y"
  "map_of (season_vals h y idd) ''id'' = map_option decimal idd" "season_vals h y idd \<noteq> []"
  by (simp_all add: season_vals_def split: option.splits)

lemma put_allowed_seasons:
  assumes "coll_numbers coll" and "tables_ok coll (tb_rows tb)"
  shows "put_allowed coll tb ''seasons'' (season_vals h y idd) \<longleftrightarrow> length y \<le> 10
    \<and> known_id (tb_rows tb) ''championships'' (decimal h) \<and> (idd = None \<longrightarrow> \<not> tb_full tb ''seasons'')"
  using known_id_coll [OF assms, of "''championships''" h]
  by (auto simp: put_allowed_def given_def fits_def parents_def held_def needs_id_def tbl_seasons_def number_columns_def)

text \<open>A deleted season takes its memberships along.\<close>

lemma put_seasons:
  assumes num: "coll_numbers coll" and ok: "tables_ok coll rows"
    and clash: "clashing coll rows ''seasons'' vals = old"
  shows "put_rows coll rows ''seasons'' i vals = rows(''seasons'' := insert (new_row ''seasons'' i vals) (rows ''seasons'' - old),
    ''clubs_seasons'' := {m \<in> rows ''clubs_seasons''. cell ''clubs_seasons'' m ''season'' \<notin> (\<lambda>r. cell ''seasons'' r ''id'') ` old})"
proof -
  have "coll (cell ''clubs_seasons'' m ''season'') = coll (cell ''seasons'' r ''id'') \<longleftrightarrow> cell ''clubs_seasons'' m ''season'' = cell ''seasons'' r ''id''"
    if m: "m \<in> rows ''clubs_seasons''" and r: "r \<in> old" for m r
    by (rule numbers_equal [OF num ok m]) (use r clash in \<open>auto simp: clashing_def number_columns_def\<close>)
  then show ?thesis
    by (auto simp: put_rows_def delete_rows_def refers_def clash fun_eq_iff)
qed

definition add_members :: "(string \<Rightarrow> string list set) \<Rightarrow> string \<Rightarrow> club list \<Rightarrow> string \<Rightarrow> string list set" where
  "add_members rows sid cs = rows(''clubs_seasons'' := rows ''clubs_seasons'' \<union> member_rows rows sid cs)"

lemma season_save_served:
  assumes sv: "mysql_serves coll api tabs" and wf: "well_formed coll (db_tables tabs s)" and y: "sql_text y"
    and pop: "season_populate heap ss = (Inr (), ss\<lparr>fields_values := season_vals h y idd\<rparr>)"
    and keys: "tablename ss = ''seasons''" "key_field1 ss = ''championship''" "key_field2 ss = ''year''"
    and cls: "list_all (\<lambda>c. \<exists>j. cl_id c = decimal j) (ss_clubs ss)"
  obtains (saved) i ss' s' where "put_allowed coll (tabs (srv_db s)) ''seasons'' (season_vals h y idd)"
      and "idd = None \<Longrightarrow> fresh_id (db_tables tabs s) ''seasons'' i" and "\<And>k. idd = Some k \<Longrightarrow> i = k"
      and "save_local api (season_vtable api heap) ss s = (Inr (ss_clubs ss = []
          \<or> known_id (db_tables tabs s) ''clubs'' (cl_id (last (ss_clubs ss))), ss'), s')"
      and "ss_id ss' = decimal i"
      and "db_tables tabs s' = add_members (put_rows coll (db_tables tabs s) ''seasons'' i (season_vals h y idd)) (decimal i) (ss_clubs ss)"
      and "well_formed coll (db_tables tabs s')"
    | (rejected) s' where "\<not> put_allowed coll (tabs (srv_db s)) ''seasons'' (season_vals h y idd)"
      and "save_local api (season_vtable api heap) ss s = (Inr (False, ss\<lparr>fields_values := season_vals h y idd\<rparr>), s')"
      and "db_tables tabs s' = db_tables tabs s"
proof -
  let ?vals = "season_vals h y idd"
  let ?t1 = "ss\<lparr>fields_values := ?vals\<rparr>"
  have ok: "tables_ok coll (db_tables tabs s)" and sound: "tables_sound coll (db_tables tabs s)"
    using wf by (simp_all add: well_formed_def)
  note num = mysql_servesD(2) [OF sv]
  have keys1: "tablename ?t1 = ''seasons''" "key_field1 ?t1 = ''championship''" "key_field2 ?t1 = ''year''"
    using keys by simp_all
  have pop': "v_populate (season_vtable api heap) ss = (Inr (), ?t1)" using pop by (simp add: season_vtable_def)
  have conds: "key_conds ?t1 = [(''championship'', decimal h), (''year'', y)]"
    by (simp add: key_conds_def keys1 get_field_def del: table.simps)
  have key: "key_field1 ?t1 \<noteq> ''id''" by (simp add: keys)
  have texts: "served_values (tablename ?t1) ?vals"
    using y by (simp add: keys1 served_values_def number_columns_def season_vals_def split: option.splits)
  have put: "(tablename ?t1, map fst ?vals) \<in> set put_shapes"
    by (auto simp: keys season_vals_def put_shapes_def split: option.splits)
  have find: "(tablename ?t1, map fst (key_conds ?t1)) \<in> set find_shapes" "covers (tablename ?t1) (map fst (key_conds ?t1))"
    unfolding conds keys1 by (simp_all add: find_shapes_def covers_def)
  have sub: "\<forall>(c', v) \<in> set (key_conds ?t1). map_of ?vals c' = Some v" unfolding conds by simp
  have vals: "fields_values ?t1 = ?vals" "?vals \<noteq> []" by simp_all
  show thesis
  proof (rule table_class.save_put [OF season_table_class sv pop' key vals texts put find sub, of s]; (simp only: keys1)?)
    fix i s1
    assume may: "put_allowed coll (tabs (srv_db s)) ''seasons'' ?vals"
      and fresh: "needs_id ''seasons'' ?vals \<Longrightarrow> fresh_id (db_tables tabs s) ''seasons'' i"
      and rows: "db_tables tabs s1 = put_rows coll (db_tables tabs s) ''seasons'' i ?vals"
      and run: "save api (season_vtable api heap) (ss, s) = then_p (on_fst (v_reset (season_vtable api heap)))
        (v_save_related (season_vtable api heap)) (?t1\<lparr>sql_count := sql_count ?t1 + 2, found_flag := True,
          fields_values := overlay (td_columns (schema ''seasons'')) (new_row ''seasons'' i ?vals) ?vals\<rparr>, s1)"
    define j where "j = (case idd of None \<Rightarrow> i | Some k \<Rightarrow> k)"
    have same: "put_rows coll (db_tables tabs s) ''seasons'' i ?vals = put_rows coll (db_tables tabs s) ''seasons'' j ?vals"
      and row: "new_row ''seasons'' i ?vals = [decimal j, decimal h, y]"
      by (auto simp: j_def put_rows_def new_row_def fun_eq_iff split: option.splits)
    define ss' where "ss' = snd (season_reset (?t1\<lparr>sql_count := sql_count ?t1 + 2, found_flag := True,
          fields_values := overlay (td_columns (schema ''seasons'')) (new_row ''seasons'' i ?vals) ?vals\<rparr>))"
    have ss': "ss_id ss' = decimal j" "ss_clubs ss' = ss_clubs ss"
      by (simp_all add: ss'_def season_reset_def modify_p_def get_field_def row)
    have need: "needs_id ''seasons'' ?vals = (idd = None)" by (auto simp: needs_id_def tbl_seasons_def)
    have wf1: "well_formed coll (db_tables tabs s1)"
      unfolding well_formed_def rows
    proof
      show "tables_ok coll (put_rows coll (db_tables tabs s) ''seasons'' i ?vals)"
        by (rule put_keeps_ok [OF num ok may refl fresh]) (auto simp: number_columns_def)
      show "tables_sound coll (put_rows coll (db_tables tabs s) ''seasons'' i ?vals)"
        by (rule put_keeps_sound [OF sound may refl]) (auto simp: text_columns_def y)
    qed
    have known: "known_id (db_tables tabs s1) ''seasons'' (decimal j)"
      by (auto simp: rows known_id_def put_rows_def row)
    have clubs: "known_id (db_tables tabs s1) ''clubs'' = known_id (db_tables tabs s) ''clubs''"
      by (simp add: rows known_id_def put_rows_def delete_rows_def fun_eq_iff)
    from save_related_served [OF sv wf1 cls known, of True, unfolded clubs] obtain s2
      where loop: "save_related_loop api (decimal j) (ss_clubs ss) True s1
          = (Inr (if ss_clubs ss = [] then True else known_id (db_tables tabs s) ''clubs'' (cl_id (last (ss_clubs ss)))), s2)"
        and rows2: "db_tables tabs s2 = add_members (db_tables tabs s1) (decimal j) (ss_clubs ss)"
        and wf2: "well_formed coll (db_tables tabs s2)"
      unfolding add_members_def by blast
    have "save_local api (season_vtable api heap) ss s = (Inr (ss_clubs ss = []
          \<or> known_id (db_tables tabs s) ''clubs'' (cl_id (last (ss_clubs ss))), ss'), s2)"
      using loop ss' unfolding save_local_def run
      by (simp add: season_vtable_def prog_simps season_save_related_def ss'_def season_reset_def)
    moreover have "idd = None \<Longrightarrow> fresh_id (db_tables tabs s) ''seasons'' j" "\<And>k. idd = Some k \<Longrightarrow> j = k"
      using fresh need by (auto simp: j_def)
    ultimately show thesis using saved may ss'(1) rows2 wf2 rows same by metis
  next
    fix s'
    assume "\<not> put_allowed coll (tabs (srv_db s)) ''seasons'' ?vals"
      and "save api (season_vtable api heap) (ss, s) = (Inr False, (?t1, s'))" and "db_tables tabs s' = db_tables tabs s"
    then show thesis by (intro rejected [of s']) (simp_all add: save_local_def)
  qed
qed

section \<open>The objects\<close>

text \<open>The season objects the requests work with: their fields are those of the row, or of the look-up.\<close>

definition season_made :: "nat \<Rightarrow> string \<Rightarrow> nat option \<Rightarrow> club list \<Rightarrow> season \<Rightarrow> bool" where
  "season_made h y idd cls ss \<longleftrightarrow> tablename ss = ''seasons'' \<and> key_field1 ss = ''championship'' \<and> key_field2 ss = ''year''
     \<and> ss_id ss = (case idd of None \<Rightarrow> [] | Some k \<Rightarrow> decimal k) \<and> ss_championship ss = Some 0 \<and> ss_year ss = y
     \<and> fields_values ss = season_vals h y idd \<and> ss_clubs ss = cls"

lemma season_made_populate:
  assumes "season_made h y idd cls ss" and "cs_id cs = [] \<or> cs_id cs = decimal h" and "y \<noteq> []"
  shows "season_populate (local_store cs) ss = (Inr (), ss\<lparr>fields_values := season_vals h y idd\<rparr>)"
  using assms
  by (auto simp: season_made_def season_populate_def prog_simps season_championship_def local_store_def set_field_def
      season_vals_def split: option.splits)

lemma championship_by_id_served:
  assumes sv: "mysql_serves coll api tabs" and wide: "rows_wide (db_tables tabs s)"
  shows "\<exists>cs s'. championship_by_id api (decimal h) s = (Inr cs, s') \<and> cs_id cs = decimal h \<and> tabs (srv_db s') = tabs (srv_db s)"
proof -
  let ?t = "championship_fresh (decimal h) [] []"
  have t: "fields_values ?t = []" "tablename ?t = ''championships''" "cs_id ?t = decimal h"
    by (simp_all add: championship_fresh_def table_ctor_def championship.defs)
  have shape: "(tablename ?t, map fst (start_conds ''id'' (decimal h) [] [])) \<in> set find_shapes"
    by (simp add: t start_conds_def find_shapes_def)
  have vals: "served_values (tablename ?t) (start_conds ''id'' (decimal h) [] [])"
    by (simp add: t served_values_def start_conds_def number_columns_def)
  show ?thesis
    by (rule start_served [OF sv wide t(1) vals shape])
      (simp_all add: championship_by_id_def construct_def prog_simps t)
qed

lemma season_row:
  assumes ok: "tables_ok coll rows" and r: "r \<in> rows ''seasons''"
  obtains k h y where "r = [decimal k, decimal h, y]"
proof -
  obtain a b y where row: "r = [a, b, y]" using tables_okD(1) [OF ok] r by (rule row_of_three) simp
  obtain k h where "a = decimal k" "b = decimal h"
    using tables_okD(2) [OF ok _ r, of "''id''"] tables_okD(2) [OF ok _ r, of "''championship''"]
    by (auto simp: number_columns_def row)
  with row that show thesis by blast
qed

lemma season_loaded_served:
  assumes sv: "mysql_serves coll api tabs" and ok: "tables_ok coll (db_tables tabs s)"
    and t: "tablename t = ''seasons''" "key_field1 t = ''championship''" "key_field2 t = ''year''"
      "ss_championship t = Some 0" "ss_clubs t = []" "fields_values t = season_vals h y (Some k)"
  obtains cls ids ss s' where "season_loaded api True (t, s) = (Inr (), (ss, s'))" and "season_made h y (Some k) cls ss"
    and "set ids = members (db_tables tabs s) (decimal k)" and "list_all2 (loaded_club (db_tables tabs s)) ids cls"
    and "tabs (srv_db s') = tabs (srv_db s)"
proof -
  let ?ss = "t\<lparr>ss_id := decimal k, ss_year := y\<rparr>"
  obtain ids cls s' where rel: "season_start_related api (?ss, s) = (Inr (), (?ss\<lparr>ss_clubs := ss_clubs ?ss @ cls\<rparr>, s'))"
    and rest: "set ids = members (db_tables tabs s) (decimal k)" "list_all2 (loaded_club (db_tables tabs s)) ids cls"
      "tabs (srv_db s') = tabs (srv_db s)"
    using start_related_served [OF sv ok, of ?ss k] by auto
  have "season_loaded api True (t, s) = (Inr (), (?ss\<lparr>ss_clubs := cls\<rparr>, s'))"
    using rel by (simp add: season_loaded_def prog_simps get_field_def t)
  moreover have "season_made h y (Some k) cls (?ss\<lparr>ss_clubs := cls\<rparr>)"
    by (simp add: season_made_def t)
  ultimately show thesis using that rest by blast
qed

text \<open>A season asked for by championship and year.\<close>

lemma season_new_served:
  assumes sv: "mysql_serves coll api tabs" and ok: "tables_ok coll (db_tables tabs s)" and y: "sql_text y"
    and cs: "cs_id cs = decimal h"
  obtains (known) k y' cls ids ss s' where "[decimal k, decimal h, y'] \<in> db_tables tabs s ''seasons''" and "coll y' = coll y"
      and "season_new api (local_store cs) 0 y s = (Inr ss, s')" and "season_made h y' (Some k) cls ss"
      and "set ids = members (db_tables tabs s) (decimal k)" and "list_all2 (loaded_club (db_tables tabs s)) ids cls"
      and "tabs (srv_db s') = tabs (srv_db s)"
    | (unknown) ss s' where "\<forall>k y'. [decimal k, decimal h, y'] \<in> db_tables tabs s ''seasons'' \<longrightarrow> coll y' \<noteq> coll y"
      and "season_new api (local_store cs) 0 y s = (Inr ss, s')" and "season_made h y None [] ss"
      and "tabs (srv_db s') = tabs (srv_db s)"
proof -
  let ?t = "season_fresh [] (Some 0) y"
  have t: "tablename ?t = ''seasons''" "key_field1 ?t = ''championship''" "key_field2 ?t = ''year''" "fields_values ?t = []"
    "ss_championship ?t = Some 0" "ss_clubs ?t = []" "ss_id ?t = []" "ss_year ?t = y"
    by (simp_all add: season_fresh_def table_ctor_def season.defs)
  have champ: "season_championship (local_store cs) ?t = Inr cs"
    by (simp add: season_championship_def t local_store_def)
  let ?conds = "start_conds ''championship'' (decimal h) ''year'' y"
  have y': "y \<noteq> []" using y by simp
  have shape: "(tablename ?t, map fst ?conds) \<in> set find_shapes"
    by (simp add: t y' start_conds_def find_shapes_def)
  have new: "season_new api (local_store cs) 0 y s =
      construct ?t (bind_p (start api ''championship'' (decimal h) ''year'' y) (season_loaded api)) s"
    by (simp add: season_new_def construct_def prog_simps champ cs)
  have vals: "served_values (tablename ?t) ?conds"
    using y by (simp add: t served_values_def start_conds_def number_columns_def)
  from sv tables_okD(1) [OF ok] t(4) vals shape show thesis
  proof (rule start_served [where s = s and t = "season_fresh [] (Some 0) y"])
    fix s1 r
    assume r: "r \<in> db_tables tabs s (tablename ?t)" and hit: "hits coll (tablename ?t) ?conds r"
      and run: "start api ''championship'' (decimal h) ''year'' y (?t, s) = (Inr True, (?t\<lparr>sql_count := Suc (sql_count ?t),
        found_flag := True, fields_values := overlay (td_columns (schema (tablename ?t))) r []\<rparr>, s1))"
      and same: "tabs (srv_db s1) = tabs (srv_db s)"
    from r have r': "r \<in> db_tables tabs s ''seasons''" by (simp add: t)
    then obtain k h' y' where row: "r = [decimal k, decimal h', y']" by (rule season_row [OF ok])
    have h': "h' = h" "coll y' = coll y"
      using hit y' mysql_servesD(2) [OF sv] by (auto simp: t row hits_def start_conds_def coll_numbers_def)
    let ?u = "?t\<lparr>sql_count := Suc (sql_count ?t), found_flag := True,
      fields_values := overlay (td_columns (schema (tablename ?t))) r []\<rparr>"
    have u: "tablename ?u = ''seasons''" "key_field1 ?u = ''championship''" "key_field2 ?u = ''year''"
      "ss_championship ?u = Some 0" "ss_clubs ?u = []" "fields_values ?u = season_vals h y' (Some k)"
      by (simp_all add: t row h' season_vals_def)
    have ok1: "tables_ok coll (db_tables tabs s1)" using ok same by simp
    obtain cls ids ss s2 where load: "season_loaded api True (?u, s1) = (Inr (), (ss, s2))"
      and made: "season_made h y' (Some k) cls ss" "set ids = members (db_tables tabs s1) (decimal k)"
        "list_all2 (loaded_club (db_tables tabs s1)) ids cls" "tabs (srv_db s2) = tabs (srv_db s1)"
      by (rule season_loaded_served [OF sv ok1 u])
    have "season_new api (local_store cs) 0 y s = (Inr ss, s2)"
      using run load unfolding new by (simp add: construct_def bind_p_def)
    from r' [unfolded row h'(1)] h'(2) this made [unfolded same] show thesis by (rule known)
  next
    fix s1
    assume no: "\<forall>r \<in> db_tables tabs s (tablename ?t). \<not> hits coll (tablename ?t) ?conds r"
      and run: "start api ''championship'' (decimal h) ''year'' y (?t, s) = (Inr False, (?t\<lparr>sql_count := Suc (sql_count ?t),
        found_flag := False, fields_values := fold (\<lambda>(c, v). map_put c v) ?conds []\<rparr>, s1))"
      and same: "tabs (srv_db s1) = tabs (srv_db s)"
    let ?u = "?t\<lparr>sql_count := Suc (sql_count ?t), found_flag := False, fields_values := fold (\<lambda>(c, v). map_put c v) ?conds []\<rparr>"
    have "season_new api (local_store cs) 0 y s = (Inr ?u, s1)"
      using run unfolding new by (simp add: construct_def prog_simps season_loaded_def)
    moreover have "season_made h y None [] ?u"
      using y' by (simp add: season_made_def t start_conds_def season_vals_def)
    moreover have "coll y' \<noteq> coll y" if row: "[decimal k, decimal h, y'] \<in> db_tables tabs s ''seasons''" for k y'
    proof -
      have "\<not> hits coll ''seasons'' ?conds [decimal k, decimal h, y']"
        using no [unfolded t, THEN bspec, OF row] .
      then show ?thesis by (simp add: \<open>y \<noteq> []\<close> hits_def start_conds_def)
    qed
    ultimately show thesis using unknown same by blast
  qed
qed

text \<open>A season asked for by its id.\<close>

lemma season_by_id_served:
  assumes sv: "mysql_serves coll api tabs" and ok: "tables_ok coll (db_tables tabs s)"
  obtains (known) h y cls ids ss s' where "[decimal k, decimal h, y] \<in> db_tables tabs s ''seasons''"
      and "season_by_id api (decimal k) 0 s = (Inr ss, s')" and "season_made h y (Some k) cls ss"
      and "set ids = members (db_tables tabs s) (decimal k)" and "list_all2 (loaded_club (db_tables tabs s)) ids cls"
      and "tabs (srv_db s') = tabs (srv_db s)"
    | (unknown) ss s' where "\<not> known_id (db_tables tabs s) ''seasons'' (decimal k)"
      and "season_by_id api (decimal k) 0 s = (Inr ss, s')" and "tablename ss = ''seasons''"
      and "ss_id ss = decimal k" and "ss_year ss = []" and "ss_championship ss = Some 0"
      and "fields_values ss = [(''id'', decimal k)]" and "tabs (srv_db s') = tabs (srv_db s)"
proof -
  let ?t = "season_fresh (decimal k) (Some 0) []"
  have t: "tablename ?t = ''seasons''" "key_field1 ?t = ''championship''" "key_field2 ?t = ''year''" "fields_values ?t = []"
    "ss_championship ?t = Some 0" "ss_clubs ?t = []" "ss_id ?t = decimal k" "ss_year ?t = []"
    by (simp_all add: season_fresh_def table_ctor_def season.defs)
  let ?conds = "start_conds ''id'' (decimal k) [] []"
  have shape: "(tablename ?t, map fst ?conds) \<in> set find_shapes"
    by (simp add: t start_conds_def find_shapes_def)
  have vals: "served_values (tablename ?t) ?conds"
    by (simp add: t served_values_def start_conds_def number_columns_def)
  from sv tables_okD(1) [OF ok] t(4) vals shape show thesis
  proof (rule start_served [where s = s and t = "season_fresh (decimal k) (Some 0) []"])
    fix s1 r
    assume r: "r \<in> db_tables tabs s (tablename ?t)" and hit: "hits coll (tablename ?t) ?conds r"
      and run: "start api ''id'' (decimal k) [] [] (?t, s) = (Inr True, (?t\<lparr>sql_count := Suc (sql_count ?t),
        found_flag := True, fields_values := overlay (td_columns (schema (tablename ?t))) r []\<rparr>, s1))"
      and same: "tabs (srv_db s1) = tabs (srv_db s)"
    from r have r': "r \<in> db_tables tabs s ''seasons''" by (simp add: t)
    then obtain k' h y where row: "r = [decimal k', decimal h, y]" by (rule season_row [OF ok])
    have k': "k' = k"
      using hit mysql_servesD(2) [OF sv] by (auto simp: t row hits_def start_conds_def coll_numbers_def)
    let ?u = "?t\<lparr>sql_count := Suc (sql_count ?t), found_flag := True,
      fields_values := overlay (td_columns (schema (tablename ?t))) r []\<rparr>"
    have u: "tablename ?u = ''seasons''" "key_field1 ?u = ''championship''" "key_field2 ?u = ''year''"
      "ss_championship ?u = Some 0" "ss_clubs ?u = []" "fields_values ?u = season_vals h y (Some k)"
      by (simp_all add: t row k' season_vals_def)
    have ok1: "tables_ok coll (db_tables tabs s1)" using ok same by simp
    obtain cls ids ss s2 where load: "season_loaded api True (?u, s1) = (Inr (), (ss, s2))"
      and made: "season_made h y (Some k) cls ss" "set ids = members (db_tables tabs s1) (decimal k)"
        "list_all2 (loaded_club (db_tables tabs s1)) ids cls" "tabs (srv_db s2) = tabs (srv_db s1)"
      by (rule season_loaded_served [OF sv ok1 u])
    have "season_by_id api (decimal k) 0 s = (Inr ss, s2)"
      using run load by (simp add: season_by_id_def construct_def bind_p_def)
    from r' [unfolded row k'] this made [unfolded same] show thesis by (rule known)
  next
    fix s1
    assume no: "\<forall>r \<in> db_tables tabs s (tablename ?t). \<not> hits coll (tablename ?t) ?conds r"
      and run: "start api ''id'' (decimal k) [] [] (?t, s) = (Inr False, (?t\<lparr>sql_count := Suc (sql_count ?t),
        found_flag := False, fields_values := fold (\<lambda>(c, v). map_put c v) ?conds []\<rparr>, s1))"
      and same: "tabs (srv_db s1) = tabs (srv_db s)"
    let ?u = "?t\<lparr>sql_count := Suc (sql_count ?t), found_flag := False, fields_values := fold (\<lambda>(c, v). map_put c v) ?conds []\<rparr>"
    have "\<not> known_id (db_tables tabs s) ''seasons'' (decimal k)"
      using no by (auto simp: t known_id_def hits_def start_conds_def)
    moreover have "season_by_id api (decimal k) 0 s = (Inr ?u, s1)"
      using run by (simp add: season_by_id_def construct_def prog_simps season_loaded_def)
    ultimately show thesis by (rule unknown) (simp_all add: t start_conds_def same)
  qed
qed

section \<open>What the requests promise\<close>

text \<open>
  A season that is known, by championship and year, is answered with its id, and the tables are as
  before. A new one needs its championship.
\<close>

definition season_reply ::
    "(string \<Rightarrow> string) \<Rightarrow> sql_tables \<Rightarrow> nat \<Rightarrow> string \<Rightarrow> string \<Rightarrow> bool \<Rightarrow> (string \<Rightarrow> string list set) \<Rightarrow> bool" where
  "season_reply coll tb h y idd success rows' \<longleftrightarrow>
     (let rows = tb_rows tb;
          known = {r \<in> rows ''seasons''. cell ''seasons'' r ''championship'' = decimal h \<and> coll (cell ''seasons'' r ''year'') = coll y} in
      if known \<noteq> {} then (\<exists>r \<in> known. idd = cell ''seasons'' r ''id'') \<and> success \<and> rows' = rows
      else
        success = (known_id rows ''championships'' (decimal h) \<and> length y \<le> 10 \<and> \<not> tb_full tb ''seasons'')
        \<and> (if success then \<exists>i. fresh_id rows ''seasons'' i \<and> idd = decimal i
             \<and> rows' = rows(''seasons'' := insert [idd, decimal h, y] (rows ''seasons''))
           else idd = [] \<and> rows' = rows))"

text \<open>The club is a member of the season afterwards, and nothing else has changed; or one of the two is not known.\<close>

definition member_reply ::
    "(string \<Rightarrow> string list set) \<Rightarrow> nat \<Rightarrow> nat \<Rightarrow> string \<Rightarrow> bool \<Rightarrow> (string \<Rightarrow> string list set) \<Rightarrow> bool" where
  "member_reply rows k c idd success rows' \<longleftrightarrow> idd = decimal k
     \<and> success = (known_id rows ''seasons'' (decimal k) \<and> known_id rows ''clubs'' (decimal c))
     \<and> rows' = (if success then rows(''clubs_seasons'' := insert [decimal k, decimal c] (rows ''clubs_seasons'')) else rows)"

section \<open>The tables\<close>

lemma season_parts:
  assumes num: "coll_numbers coll" and wf: "well_formed coll rows" and r: "[decimal k, decimal h, y] \<in> rows ''seasons''"
  shows "sql_text y" and "length y \<le> 10" and "known_id rows ''championships'' (decimal h)"
    and "clashing coll rows ''seasons'' (season_vals h y (Some k)) = {[decimal k, decimal h, y]}"
proof -
  have ok: "tables_ok coll rows" and sound: "tables_sound coll rows" using wf by (simp_all add: well_formed_def)
  show "sql_text y" using sound r by (force simp: tables_sound_def text_columns_def)
  have "fits ''seasons'' (row_fields ''seasons'' [decimal k, decimal h, y])"
    "parents coll rows ''seasons'' (row_fields ''seasons'' [decimal k, decimal h, y])"
    using sound r by (auto simp: tables_sound_def)
  then show "length y \<le> 10" and "known_id rows ''championships'' (decimal h)"
    using known_id_coll [OF num ok, of "''championships''" h]
    by (simp_all add: row_fields_def fits_def parents_def tbl_seasons_def number_columns_def)
  have "r' = [decimal k, decimal h, y]" if r': "r' \<in> rows ''seasons''" and c: "clash coll ''seasons'' (season_vals h y (Some k)) r'" for r'
  proof (cases "coll (cell ''seasons'' r' ''id'') = coll (decimal k)")
    case True
    then show ?thesis by (intro tables_okD(3) [OF ok r' r, of "[''id'']"]) simp_all
  next
    case False
    with c have "coll (cell ''seasons'' r' ''championship'') = coll (decimal h)" "coll (cell ''seasons'' r' ''year'') = coll y"
      by (simp_all add: clash_def)
    then have same: "coll (cell ''seasons'' r' x) = coll (cell ''seasons'' [decimal k, decimal h, y] x)"
      if "x \<in> set [''championship'', ''year'']" for x
      using that by (cases "x = ''championship''") simp_all
    show ?thesis by (rule tables_okD(3) [OF ok r' r, where key = "[''championship'', ''year'']", OF _ same]) simp_all
  qed
  moreover have "clash coll ''seasons'' (season_vals h y (Some k)) [decimal k, decimal h, y]"
    by (simp add: clash_def)
  ultimately show "clashing coll rows ''seasons'' (season_vals h y (Some k)) = {[decimal k, decimal h, y]}"
    unfolding clashing_def using r by blast
qed

lemma member_parts:
  assumes num: "coll_numbers coll" and wf: "well_formed coll rows" and m: "cid \<in> members rows sid"
  shows "known_id rows ''clubs'' cid"
proof -
  have ok: "tables_ok coll rows" and sound: "tables_sound coll rows" using wf by (simp_all add: well_formed_def)
  from m have row: "[sid, cid] \<in> rows ''clubs_seasons''" by (simp add: members_def)
  from tables_okD(2) [OF ok _ row, of "''club''"] obtain j where j: "cid = decimal j" by (auto simp: number_columns_def)
  have "parents coll rows ''clubs_seasons'' (row_fields ''clubs_seasons'' [sid, cid])"
    using sound row by (auto simp: tables_sound_def)
  then show ?thesis
    using known_id_coll [OF num ok, of "''clubs''" j]
    by (simp add: row_fields_def parents_def tbl_clubs_seasons_def number_columns_def j)
qed

text \<open>
  Replacing the row of a season by itself and writing its memberships again, with one club extra or not,
  adds that club if it is known, and changes nothing else.
\<close>

lemma season_rewritten:
  assumes num: "coll_numbers coll" and wf: "well_formed coll rows" and r: "[decimal k, decimal h, y] \<in> rows ''seasons''"
    and cls: "cl_id ` set cls = members rows (decimal k) \<union> extra"
  shows "add_members (put_rows coll rows ''seasons'' k (season_vals h y (Some k))) (decimal k) cls
    = rows(''clubs_seasons'' := rows ''clubs_seasons'' \<union> {[decimal k, c] |c. c \<in> extra \<and> known_id rows ''clubs'' c})"
proof -
  have ok: "tables_ok coll rows" using wf by (simp add: well_formed_def)
  let ?put = "put_rows coll rows ''seasons'' k (season_vals h y (Some k))"
  have put: "?put = rows(''clubs_seasons'' := {m \<in> rows ''clubs_seasons''. cell ''clubs_seasons'' m ''season'' \<noteq> decimal k})"
    unfolding put_seasons [OF num ok season_parts(4) [OF num wf r]] using r
    by (auto simp: new_row_def season_vals_def fun_eq_iff)
  have clubs: "known_id ?put ''clubs'' = known_id rows ''clubs''"
    unfolding put by (simp add: known_id_def fun_eq_iff)
  have added: "member_rows ?put (decimal k) cls = {[decimal k, c] |c. c \<in> members rows (decimal k) \<union> extra \<and> known_id rows ''clubs'' c}"
    unfolding member_rows_def clubs cls [symmetric] by auto
  have old: "m \<in> rows ''clubs_seasons'' \<longleftrightarrow> m \<in> rows ''clubs_seasons'' \<and> cell ''clubs_seasons'' m ''season'' \<noteq> decimal k
      \<or> (\<exists>c. m = [decimal k, c] \<and> c \<in> members rows (decimal k) \<and> known_id rows ''clubs'' c)" for m
  proof (cases "m \<in> rows ''clubs_seasons''")
    case True
    then obtain a b where "m = [a, b]" by (rule row_of_two [OF tables_okD(1) [OF ok]])
    with True member_parts [OF num wf, of b "decimal k"] show ?thesis by (auto simp: members_def)
  qed (auto simp: members_def)
  have "?put ''clubs_seasons'' \<union> member_rows ?put (decimal k) cls
      = rows ''clubs_seasons'' \<union> {[decimal k, c] |c. c \<in> extra \<and> known_id rows ''clubs'' c}"
    unfolding added by (subst put) (use old in auto)
  then show ?thesis
    unfolding add_members_def by (simp add: put fun_upd_upd)
qed

section \<open>The requests\<close>

lemma loaded_ids:
  assumes "list_all2 (loaded_club rows) ids cls"
  shows "cl_id ` set cls = set ids" and "\<And>c. c \<in> set cls \<Longrightarrow> loaded_club rows (cl_id c) c"
proof -
  have "map cl_id cls = ids"
    using assms by (induction rule: list_all2_induct) (auto simp: loaded_club_def)
  then show "cl_id ` set cls = set ids" by (metis list.set_map)
  show "loaded_club rows (cl_id c) c" if "c \<in> set cls" for c
    using assms that by (auto simp: list_all2_conv_all_nth in_set_conv_nth loaded_club_def)
qed

lemma decimal_members:
  assumes "tables_ok coll rows" and "cl_id ` set cls = members rows sid"
  shows "list_all (\<lambda>c. \<exists>j. cl_id c = decimal j) cls"
proof -
  have "\<exists>j. cid = decimal j" if "[sid, cid] \<in> rows ''clubs_seasons''" for cid
    using tables_okD(2) [OF assms(1) _ that, of "''club''"] by (auto simp: number_columns_def)
  moreover have "cl_id c \<in> members rows sid" if "c \<in> set cls" for c using assms(2) that by blast
  ultimately show ?thesis by (auto simp: list_all_iff members_def)
qed

text \<open>Saving a season that is stored, with the clubs it was read with and perhaps one more.\<close>

lemma season_saved_again:
  assumes sv: "mysql_serves coll api tabs" and wf: "well_formed coll (db_tables tabs s)"
    and r: "[decimal k, decimal h, y] \<in> db_tables tabs s ''seasons''"
    and made: "season_made h y (Some k) cls ss" and cs: "cs_id cs = [] \<or> cs_id cs = decimal h"
    and cls: "list_all (\<lambda>c. \<exists>j. cl_id c = decimal j) cls" "cl_id ` set cls = members (db_tables tabs s) (decimal k) \<union> extra"
  obtains ss' s' where "save_local api (season_vtable api (local_store cs)) ss s
      = (Inr (cls = [] \<or> known_id (db_tables tabs s) ''clubs'' (cl_id (last cls)), ss'), s')"
    and "ss_id ss' = decimal k" and "well_formed coll (db_tables tabs s')"
    and "db_tables tabs s' = (db_tables tabs s)(''clubs_seasons'' := db_tables tabs s ''clubs_seasons''
      \<union> {[decimal k, c] |c. c \<in> extra \<and> known_id (db_tables tabs s) ''clubs'' c})"
proof -
  let ?rows = "db_tables tabs s" and ?vals = "season_vals h y (Some k)"
  have ok: "tables_ok coll ?rows" using wf by (simp add: well_formed_def)
  note num = mysql_servesD(2) [OF sv]
  note parts = season_parts [OF num wf r]
  have ss: "tablename ss = ''seasons''" "key_field1 ss = ''championship''" "key_field2 ss = ''year''" "ss_clubs ss = cls"
    using made by (simp_all add: season_made_def)
  have pop: "season_populate (local_store cs) ss = (Inr (), ss\<lparr>fields_values := ?vals\<rparr>)"
    by (rule season_made_populate [OF made cs]) (use parts(1) in simp)
  note rewritten = season_rewritten [OF num wf r cls(2)]
  show thesis
  proof (rule season_save_served [OF sv wf parts(1) pop ss(1-3)]; (unfold ss(4))?)
    fix i ss' s'
    assume i: "\<And>k'. Some k = Some k' \<Longrightarrow> i = k'"
      and run: "save_local api (season_vtable api (local_store cs)) ss s
        = (Inr (cls = [] \<or> known_id ?rows ''clubs'' (cl_id (last cls)), ss'), s')"
      and idd: "ss_id ss' = decimal i" and wf': "well_formed coll (db_tables tabs s')"
      and rows: "db_tables tabs s' = add_members (put_rows coll ?rows ''seasons'' i ?vals) (decimal i) cls"
    have i: "i = k" using i by simp
    show thesis using run idd [unfolded i] wf' rows [unfolded i rewritten] by (rule that)
  next
    fix s'
    assume "\<not> put_allowed coll (tabs (srv_db s)) ''seasons'' ?vals"
    with put_allowed_seasons [OF num ok, of h y "Some k"] parts show thesis by simp
  qed (rule cls(1))
qed

text \<open>Saving a season that is not stored yet; it has no clubs.\<close>

lemma season_saved_new:
  assumes sv: "mysql_serves coll api tabs" and wf: "well_formed coll (db_tables tabs s)" and y: "sql_text y"
    and none: "\<forall>k y'. [decimal k, decimal h, y'] \<in> db_tables tabs s ''seasons'' \<longrightarrow> coll y' \<noteq> coll y"
    and made: "season_made h y None [] ss" and cs: "cs_id cs = decimal h"
  obtains success ss' s' where "save_local api (season_vtable api (local_store cs)) ss s = (Inr (success, ss'), s')"
    and "season_reply coll (tabs (srv_db s)) h y (ss_id ss') success (db_tables tabs s')"
    and "well_formed coll (db_tables tabs s')"
proof -
  let ?rows = "db_tables tabs s" and ?vals = "season_vals h y None"
  have ok: "tables_ok coll ?rows" using wf by (simp add: well_formed_def)
  note num = mysql_servesD(2) [OF sv]
  have none': False if r: "r \<in> ?rows ''seasons''" "coll (cell ''seasons'' r ''championship'') = coll (decimal h)"
      "coll (cell ''seasons'' r ''year'') = coll y" for r
  proof -
    from r(1) obtain k h' y' where row: "r = [decimal k, decimal h', y']" by (rule season_row [OF ok])
    with r(2,3) num have "h' = h" "coll y' = coll y" by (simp_all add: coll_numbers_def)
    with none r(1) row show False by simp
  qed
  have "\<not> (cell ''seasons'' r ''championship'' = decimal h \<and> coll (cell ''seasons'' r ''year'') = coll y)"
    if "r \<in> ?rows ''seasons''" for r
    using none' [OF that] by auto
  then have known: "{r \<in> ?rows ''seasons''. cell ''seasons'' r ''championship'' = decimal h \<and> coll (cell ''seasons'' r ''year'') = coll y} = {}"
    by blast
  have "\<not> clash coll ''seasons'' ?vals r" if "r \<in> ?rows ''seasons''" for r
    using none' [OF that] by (auto simp: clash_def)
  then have clash: "clashing coll ?rows ''seasons'' ?vals = {}" unfolding clashing_def by blast
  have ss: "tablename ss = ''seasons''" "key_field1 ss = ''championship''" "key_field2 ss = ''year''" "ss_clubs ss = []"
    "ss_id ss = []" using made by (simp_all add: season_made_def)
  have pop: "season_populate (local_store cs) ss = (Inr (), ss\<lparr>fields_values := ?vals\<rparr>)"
    by (rule season_made_populate [OF made]) (use cs y in simp_all)
  note allowed = put_allowed_seasons [OF num ok, of h y None]
  show thesis
  proof (rule season_save_served [OF sv wf y pop ss(1-3)]; (unfold ss(4))?)
    fix i ss' s'
    assume may: "put_allowed coll (tabs (srv_db s)) ''seasons'' ?vals" and fresh: "None = None \<Longrightarrow> fresh_id ?rows ''seasons'' i"
      and run: "save_local api (season_vtable api (local_store cs)) ss s
        = (Inr ([] = [] \<or> known_id ?rows ''clubs'' (cl_id (last [])), ss'), s')"
      and idd: "ss_id ss' = decimal i" and wf': "well_formed coll (db_tables tabs s')"
      and rows: "db_tables tabs s' = add_members (put_rows coll ?rows ''seasons'' i ?vals) (decimal i) []"
    have rows': "db_tables tabs s' = ?rows(''seasons'' := insert [decimal i, decimal h, y] (?rows ''seasons''))"
      unfolding rows put_seasons [OF num ok clash]
      by (simp add: add_members_def member_rows_def new_row_def fun_eq_iff)
    have "season_reply coll (tabs (srv_db s)) h y (ss_id ss') True (db_tables tabs s')"
      unfolding season_reply_def Let_def known rows' idd using may allowed fresh by auto
    with run wf' show thesis by (intro that [of True ss' s']) simp_all
  next
    fix s'
    assume may: "\<not> put_allowed coll (tabs (srv_db s)) ''seasons'' ?vals"
      and run: "save_local api (season_vtable api (local_store cs)) ss s = (Inr (False, ss\<lparr>fields_values := ?vals\<rparr>), s')"
      and rows: "db_tables tabs s' = ?rows"
    have "season_reply coll (tabs (srv_db s)) h y (ss_id (ss\<lparr>fields_values := ?vals\<rparr>)) False (db_tables tabs s')"
      unfolding season_reply_def Let_def known rows using may allowed ss(5) by auto
    with run rows wf show thesis by (intro that [of False "ss\<lparr>fields_values := ?vals\<rparr>" s']) simp_all
  qed simp
qed

lemma season_request_served:
  assumes sv: "mysql_serves coll api tabs" and wf: "well_formed coll (db_tables tabs s)"
    and y: "sql_text y" and cs: "cs_id cs = decimal h"
  obtains success ss s' where "bind_p (season_new api (local_store cs) 0 y) (\<lambda>ss. save_local api (season_vtable api (local_store cs)) ss) s
      = (Inr (success, ss), s')"
    and "season_reply coll (tabs (srv_db s)) h y (ss_id ss) success (db_tables tabs s')"
    and "well_formed coll (db_tables tabs s')"
proof -
  let ?rows = "db_tables tabs s"
  have ok: "tables_ok coll ?rows" using wf by (simp add: well_formed_def)
  note num = mysql_servesD(2) [OF sv]
  show thesis
  proof (rule season_new_served [OF sv ok y cs])
    fix k y' cls ids ss s1
    assume r: "[decimal k, decimal h, y'] \<in> ?rows ''seasons''" and y': "coll y' = coll y"
      and new: "season_new api (local_store cs) 0 y s = (Inr ss, s1)" and made: "season_made h y' (Some k) cls ss"
      and ids: "set ids = members ?rows (decimal k)" "list_all2 (loaded_club ?rows) ids cls"
      and same: "tabs (srv_db s1) = tabs (srv_db s)"
    have mem: "cl_id ` set cls = members (db_tables tabs s1) (decimal k) \<union> {}"
      using loaded_ids(1) [OF ids(2)] ids(1) same by simp
    have wf1: "well_formed coll (db_tables tabs s1)" and r1: "[decimal k, decimal h, y'] \<in> db_tables tabs s1 ''seasons''"
      using wf r same by simp_all
    have cls: "list_all (\<lambda>c. \<exists>j. cl_id c = decimal j) cls" using decimal_members [OF ok] mem same by simp
    obtain ss' s2 where run: "save_local api (season_vtable api (local_store cs)) ss s1
        = (Inr (cls = [] \<or> known_id (db_tables tabs s1) ''clubs'' (cl_id (last cls)), ss'), s2)"
      and idd: "ss_id ss' = decimal k" and wf2: "well_formed coll (db_tables tabs s2)"
      and rows: "db_tables tabs s2 = (db_tables tabs s1)(''clubs_seasons'' := db_tables tabs s1 ''clubs_seasons''
        \<union> {[decimal k, c] |c. c \<in> {} \<and> known_id (db_tables tabs s1) ''clubs'' c})"
      by (rule season_saved_again [OF sv wf1 r1 made disjI2 [OF cs] cls mem])
    have "cls = [] \<or> known_id (db_tables tabs s1) ''clubs'' (cl_id (last cls))"
    proof (cases "cls = []")
      case False
      then have "cl_id (last cls) \<in> members (db_tables tabs s1) (decimal k)" using mem by (metis imageI last_in_set sup_bot_right)
      from member_parts [OF num wf1 this] show ?thesis ..
    qed simp
    with run new have "bind_p (season_new api (local_store cs) 0 y) (\<lambda>ss. save_local api (season_vtable api (local_store cs)) ss) s
        = (Inr (True, ss'), s2)" by (simp add: bind_p_def)
    moreover have "season_reply coll (tabs (srv_db s)) h y (ss_id ss') True (db_tables tabs s2)"
      unfolding season_reply_def Let_def idd using r y' rows same by force
    ultimately show thesis using wf2 by (rule that)
  next
    fix ss s1
    assume none: "\<forall>k y'. [decimal k, decimal h, y'] \<in> ?rows ''seasons'' \<longrightarrow> coll y' \<noteq> coll y"
      and new: "season_new api (local_store cs) 0 y s = (Inr ss, s1)" and made: "season_made h y None [] ss"
      and same: "tabs (srv_db s1) = tabs (srv_db s)"
    obtain success ss' s2 where "save_local api (season_vtable api (local_store cs)) ss s1 = (Inr (success, ss'), s2)"
      and reply: "season_reply coll (tabs (srv_db s1)) h y (ss_id ss') success (db_tables tabs s2)"
      and wf2: "well_formed coll (db_tables tabs s2)"
      by (rule season_saved_new [OF sv _ y _ made cs, of s1]) (use wf none same in simp_all)
    with new have "bind_p (season_new api (local_store cs) 0 y) (\<lambda>ss. save_local api (season_vtable api (local_store cs)) ss) s
        = (Inr (success, ss'), s2)" by (simp add: bind_p_def)
    then show thesis using reply [unfolded same] wf2 by (rule that)
  qed
qed

lemma new_season_served:
  assumes sv: "mysql_serves coll api tabs" and wf: "well_formed coll (db_tables tabs s)" and y: "sql_text (wide_text (nse_year ns))"
  obtains idd success s' where "event_action_new_season api ns s = respond idd success s'"
    and "season_reply coll (tabs (srv_db s)) (unat (nse_championship ns)) (wide_text (nse_year ns)) idd success (db_tables tabs s')"
    and "well_formed coll (db_tables tabs s')"
proof -
  let ?h = "unat (nse_championship ns)" and ?y = "wide_text (nse_year ns)"
  obtain cs s1 where champ: "championship_by_id api (decimal ?h) s = (Inr cs, s1)" and cs: "cs_id cs = decimal ?h"
    and same: "tabs (srv_db s1) = tabs (srv_db s)"
    using championship_by_id_served [OF sv, of s ?h] wf by (auto simp: well_formed_def tables_ok_def)
  have wf1: "well_formed coll (db_tables tabs s1)" using wf same by simp
  show thesis
  proof (rule season_request_served [OF sv wf1 y cs])
    fix success ss s'
    assume run: "bind_p (season_new api (local_store cs) 0 ?y) (\<lambda>ss. save_local api (season_vtable api (local_store cs)) ss) s1
        = (Inr (success, ss), s')"
      and reply: "season_reply coll (tabs (srv_db s1)) ?h ?y (ss_id ss) success (db_tables tabs s')"
      and wf': "well_formed coll (db_tables tabs s')"
    have "event_action_new_season api ns s = bind_p (bind_p (season_new api (local_store cs) 0 ?y)
        (\<lambda>ss. save_local api (season_vtable api (local_store cs)) ss)) (\<lambda>(success, ss). respond (ss_id ss) success) s1"
      using champ by (simp add: event_action_new_season_def to_string_u64_def bind_p_assoc bind_p_def [where m = "championship_by_id _ _"])
    then have "event_action_new_season api ns s = respond (ss_id ss) success s'"
      using run by (simp add: bind_p_def [where m = "bind_p _ _"])
    then show thesis using reply [unfolded same] wf' by (rule that)
  qed
qed

section \<open>A club for a season\<close>

lemma loaded_unique:
  assumes wf: "well_formed coll rows" and "loaded_club rows i a" and "loaded_club rows j b"
    and "known_id rows ''clubs'' i" and "known_id rows ''clubs'' j" and "club_key a = club_key b"
  shows "i = j"
proof -
  have ok: "tables_ok coll rows" using wf by (simp add: well_formed_def)
  obtain r where r: "r \<in> rows ''clubs''" "cell ''clubs'' r ''id'' = i" using assms(4) by (auto simp: known_id_def)
  obtain q where q: "q \<in> rows ''clubs''" "cell ''clubs'' q ''id'' = j" using assms(5) by (auto simp: known_id_def)
  have "cell ''clubs'' r ''name'' = cell ''clubs'' q ''name''"
    using assms(2,3,6) r q by (auto simp: loaded_club_def)
  then have "r = q" by (intro tables_okD(3) [OF ok r(1) q(1), of "[''name'']"]) auto
  with r q show ?thesis by simp
qed

text \<open>Adding a loaded club to the loaded members: by name and country, which here is the same as by id.\<close>

lemma add_loaded_club:
  assumes wf: "well_formed coll rows" and cls: "\<And>c. c \<in> set cls \<Longrightarrow> loaded_club rows (cl_id c) c"
    and known: "\<And>c. c \<in> set cls \<Longrightarrow> known_id rows ''clubs'' (cl_id c)"
    and cl: "loaded_club rows (decimal c) cl" and ss: "ss_clubs ss = cls"
  shows "ss_clubs (season_add_club cl ss) = (if decimal c \<in> cl_id ` set cls then cls else cls @ [club_copy cl])"
proof -
  have "(cl_name cl, cl_country cl) \<in> club_key ` set cls \<longleftrightarrow> decimal c \<in> cl_id ` set cls"
  proof
    assume "(cl_name cl, cl_country cl) \<in> club_key ` set cls"
    then obtain d where d: "d \<in> set cls" and key: "club_key d = club_key cl" by (auto simp: club_key_def)
    have "known_id rows ''clubs'' (decimal c)"
    proof (rule ccontr)
      assume "\<not> known_id rows ''clubs'' (decimal c)"
      then have "club_key cl = ([], [])" using cl by (auto simp: loaded_club_def known_id_def)
      moreover obtain r where "r \<in> rows ''clubs''" "club_key d = (cell ''clubs'' r ''name'', cell ''clubs'' r ''country'')"
        using known [OF d] cls [OF d] by (auto simp: loaded_club_def known_id_def)
      ultimately show False using key wf by (auto simp: well_formed_def tables_sound_def)
    qed
    from loaded_unique [OF wf cls [OF d] cl known [OF d] this key] d show "decimal c \<in> cl_id ` set cls" by force
  next
    assume "decimal c \<in> cl_id ` set cls"
    then obtain d where d: "d \<in> set cls" and idd: "cl_id d = decimal c" by auto
    obtain r where "r \<in> rows ''clubs''" "cell ''clubs'' r ''id'' = decimal c"
      using known [OF d] idd by (auto simp: known_id_def)
    with cls [OF d] cl idd have "club_key d = club_key cl" by (simp add: loaded_club_def)
    then have "(cl_name cl, cl_country cl) = club_key d" by (simp add: club_key_def)
    then show "(cl_name cl, cl_country cl) \<in> club_key ` set cls" using d by (rule image_eqI)
  qed
  then show ?thesis
    using find_club_None [of "cl_name cl" "cl_country cl" cls]
    by (auto simp: season_add_club_def ss split: option.splits)
qed

lemma season_unknown_refused:
  assumes sv: "mysql_serves coll api tabs" and ss: "tablename ss = ''seasons''" "ss_id ss = decimal k" "ss_year ss = []"
      "ss_championship ss = Some 0" "fields_values ss = [(''id'', decimal k)]" and cs: "cs_id cs = []"
  shows "\<exists>ss' s'. save_local api (season_vtable api (local_store cs)) ss s = (Inr (False, ss'), s') \<and> ss_id ss' = decimal k
    \<and> db_tables tabs s' = db_tables tabs s"
proof -
  let ?vals = "[(''id'', decimal k)]"
  have pop: "v_populate (season_vtable api (local_store cs)) ss = (Inr (), ss)"
    using ss cs by (simp add: season_vtable_def season_populate_def prog_simps season_championship_def local_store_def set_field_def)
  have stmt: "insert_stmt ss = put_text ''seasons'' ?vals"
    using insert_put_text [OF ss(5)] ss(1) by simp
  have "\<not> put_allowed coll (tabs (srv_db s)) ''seasons'' ?vals"
    by (simp add: put_allowed_def given_def)
  then obtain e s' where "run_stmt api (insert_stmt ss) s = (Inl e, s')" and "is_sql_exception e"
    and "db_tables tabs s' = db_tables tabs s"
    using run_put [OF sv, of "''seasons''" ?vals s] unfolding stmt by (auto simp: put_shapes_def served_values_def number_columns_def)
  with table_class.save_rejected [OF season_table_class pop this(1,2)] ss(2) show ?thesis
    by (simp add: save_local_def)
qed

lemma new_season_club_served:
  assumes sv: "mysql_serves coll api tabs" and wf: "well_formed coll (db_tables tabs s)"
  obtains idd success s' where "event_action_new_season_club api sc s = respond idd success s'"
    and "member_reply (db_tables tabs s) (unat (nsc_season sc)) (unat (nsc_club sc)) idd success (db_tables tabs s')"
    and "well_formed coll (db_tables tabs s')"
proof -
  let ?k = "unat (nsc_season sc)" and ?c = "unat (nsc_club sc)" and ?rows = "db_tables tabs s"
  let ?cs = "championship_fresh [] [] []"
  have ok: "tables_ok coll ?rows" using wf by (simp add: well_formed_def)
  note num = mysql_servesD(2) [OF sv]
  note finish = that
  have cs: "championship_default api s = (Inr ?cs, s)" "cs_id ?cs = []"
    by (simp_all add: championship_default_def championship_by_id_def construct_def start_def prog_simps
        championship_fresh_def table_ctor_def championship.defs)
  have action: thesis if season: "season_by_id api (decimal ?k) 0 s = (Inr ss, s1)" "tabs (srv_db s1) = tabs (srv_db s)"
    and saved: "\<And>cl s2. loaded_club ?rows (decimal ?c) cl \<Longrightarrow> tabs (srv_db s2) = tabs (srv_db s) \<Longrightarrow>
      \<exists>success ss' s'. save_local api (season_vtable api (local_store ?cs)) (season_add_club cl ss) s2 = (Inr (success, ss'), s')
        \<and> member_reply ?rows ?k ?c (ss_id ss') success (db_tables tabs s') \<and> well_formed coll (db_tables tabs s')" for ss s1
  proof -
    have ok1: "tables_ok coll (db_tables tabs s1)" using ok season(2) by simp
    obtain cl s2 where cl: "club_by_id api (decimal ?c) s1 = (Inr cl, s2)"
      and loaded: "loaded_club (db_tables tabs s1) (decimal ?c) cl" and same: "tabs (srv_db s2) = tabs (srv_db s1)"
      by (rule club_by_id_served [OF sv ok1])
    from saved [of cl s2] loaded same season(2) obtain success ss' s'
      where run: "save_local api (season_vtable api (local_store ?cs)) (season_add_club cl ss) s2 = (Inr (success, ss'), s')"
        and reply: "member_reply ?rows ?k ?c (ss_id ss') success (db_tables tabs s')" "well_formed coll (db_tables tabs s')"
      by auto
    have "event_action_new_season_club api sc s = respond (ss_id ss') success s'"
      using cs(1) season(1) cl run by (simp add: event_action_new_season_club_def to_string_u64_def bind_p_def)
    then show thesis using reply by (rule finish)
  qed
  show thesis
  proof (rule season_by_id_served [OF sv ok, of ?k])
    fix h y cls ids ss s1
    assume r: "[decimal ?k, decimal h, y] \<in> ?rows ''seasons''" and run: "season_by_id api (decimal ?k) 0 s = (Inr ss, s1)"
      and made: "season_made h y (Some ?k) cls ss" and same: "tabs (srv_db s1) = tabs (srv_db s)"
      and ids: "set ids = members ?rows (decimal ?k)" "list_all2 (loaded_club ?rows) ids cls"
    note mem = loaded_ids(1) [OF ids(2), unfolded ids(1)]
    have known: "known_id ?rows ''clubs'' (cl_id c)" if "c \<in> set cls" for c
      using member_parts [OF num wf] mem that by blast
    have season: "known_id ?rows ''seasons'' (decimal ?k)" using r by (force simp: known_id_def)
    from run same show thesis
    proof (rule action)
      fix cl and s2 :: "'a server"
      assume cl: "loaded_club ?rows (decimal ?c) cl" and same2: "tabs (srv_db s2) = tabs (srv_db s)"
      let ?new = "season_add_club cl ss" and ?cls = "if decimal ?c \<in> cl_id ` set cls then cls else cls @ [club_copy cl]"
      let ?extra = "if decimal ?c \<in> cl_id ` set cls then {} else {decimal ?c}"
      have "ss_clubs ss = cls" using made by (simp add: season_made_def)
      from add_loaded_club [OF wf loaded_ids(2) [OF ids(2)] known cl this]
      have "season_made h y (Some ?k) ?cls ?new"
        using made by (auto simp: season_made_def season_add_club_def split: option.splits)
      note made2 = this
      have copy: "cl_id (club_copy cl) = decimal ?c" using cl by (simp add: loaded_club_def club_copy_def table_copy_def)
      have cls2: "list_all (\<lambda>c. \<exists>j. cl_id c = decimal j) ?cls" "cl_id ` set ?cls = members (db_tables tabs s2) (decimal ?k) \<union> ?extra"
        using decimal_members [OF ok mem] mem copy same2 by auto
      have wf2: "well_formed coll (db_tables tabs s2)" and r2: "[decimal ?k, decimal h, y] \<in> db_tables tabs s2 ''seasons''"
        using wf r same2 by simp_all
      obtain ss' s' where save: "save_local api (season_vtable api (local_store ?cs)) ?new s2
          = (Inr (?cls = [] \<or> known_id (db_tables tabs s2) ''clubs'' (cl_id (last ?cls)), ss'), s')"
        and idd: "ss_id ss' = decimal ?k" and wf': "well_formed coll (db_tables tabs s')"
        and rows: "db_tables tabs s' = (db_tables tabs s2)(''clubs_seasons'' := db_tables tabs s2 ''clubs_seasons''
          \<union> {[decimal ?k, c] |c. c \<in> ?extra \<and> known_id (db_tables tabs s2) ''clubs'' c})"
        by (rule season_saved_again [OF sv wf2 r2 made2 disjI1 [OF cs(2)] cls2])
      have "?cls = [] \<or> known_id (db_tables tabs s2) ''clubs'' (cl_id (last ?cls)) \<longleftrightarrow> known_id ?rows ''clubs'' (decimal ?c)"
      proof (cases "decimal ?c \<in> cl_id ` set cls")
        case True
        then have "cls \<noteq> []" "known_id ?rows ''clubs'' (decimal ?c)" using known by auto
        with True known [OF last_in_set] same2 show ?thesis by simp
      qed (simp add: copy same2)
      moreover have "insert [decimal ?k, decimal ?c] (?rows ''clubs_seasons'') = ?rows ''clubs_seasons''"
        if "decimal ?c \<in> cl_id ` set cls"
        using that mem by (auto simp: members_def)
      ultimately have "member_reply ?rows ?k ?c (ss_id ss')
          (?cls = [] \<or> known_id (db_tables tabs s2) ''clubs'' (cl_id (last ?cls))) (db_tables tabs s')"
        unfolding member_reply_def idd rows same2 using season known by auto
      with save wf' show "\<exists>success ss' s'. save_local api (season_vtable api (local_store ?cs)) ?new s2 = (Inr (success, ss'), s')
        \<and> member_reply ?rows ?k ?c (ss_id ss') success (db_tables tabs s') \<and> well_formed coll (db_tables tabs s')"
        by blast
    qed
  next
    fix ss s1
    assume none: "\<not> known_id ?rows ''seasons'' (decimal ?k)" and run: "season_by_id api (decimal ?k) 0 s = (Inr ss, s1)"
      and ss: "tablename ss = ''seasons''" "ss_id ss = decimal ?k" "ss_year ss = []"
        "ss_championship ss = Some 0" "fields_values ss = [(''id'', decimal ?k)]"
      and same: "tabs (srv_db s1) = tabs (srv_db s)"
    from run same show thesis
    proof (rule action)
      fix cl and s2 :: "'a server"
      assume "tabs (srv_db s2) = tabs (srv_db s)"
      moreover have "\<exists>ss' s'. save_local api (season_vtable api (local_store ?cs)) (season_add_club cl ss) s2 = (Inr (False, ss'), s')
          \<and> ss_id ss' = decimal ?k \<and> db_tables tabs s' = db_tables tabs s2"
        by (rule season_unknown_refused [OF sv]) (use ss cs(2) in \<open>auto simp: season_add_club_def split: option.splits\<close>)
      ultimately show "\<exists>success ss' s'. save_local api (season_vtable api (local_store ?cs)) (season_add_club cl ss) s2 = (Inr (success, ss'), s')
        \<and> member_reply ?rows ?k ?c (ss_id ss') success (db_tables tabs s') \<and> well_formed coll (db_tables tabs s')"
        using none wf by (auto simp: member_reply_def)
    qed
  qed
qed

end
