(* ===== verification/Requests.thy ===== *)
theory Requests
  imports Football_Server Championship_Service Club_Service Season_Service Table_Engine
begin

text \<open>
  The four requests of the protocol as services over the tables: the locale \<open>request_service\<close> is what the
  server needs of an action, interpreted on the four actions; and what a round of the server's main loop
  leaves of the tables.
\<close>

section \<open>The interface of an action\<close>

definition tables_kept :: "(string \<Rightarrow> string) \<Rightarrow> ('db \<Rightarrow> sql_tables) \<Rightarrow> 'db server \<Rightarrow> 'db server \<Rightarrow> bool" where
  "tables_kept coll tabs s s' \<longleftrightarrow> (well_formed coll (db_tables tabs s) \<longrightarrow> well_formed coll (db_tables tabs s'))"

lemma tables_kept_preorder: "transp (tables_kept coll tabs)" "reflp (tables_kept coll tabs)"
  by (auto simp: tables_kept_def transp_def reflp_def)

lemma respond_state: "respond idd success s = (r, s') \<Longrightarrow> s' = s"
  by (auto simp: respond_def prog_simps split: sum.splits)

locale request_service =
  fixes act :: "'db sql_api \<Rightarrow> 'd \<Rightarrow> ('db server, response) prog"
    and is_plain :: "'d \<Rightarrow> bool"
    and reply :: "(string \<Rightarrow> string) \<Rightarrow> sql_tables \<Rightarrow> 'd \<Rightarrow> string \<Rightarrow> bool \<Rightarrow> (string \<Rightarrow> string list set) \<Rightarrow> bool"
  assumes served: "mysql_serves coll api tabs \<Longrightarrow> well_formed coll (db_tables tabs s) \<Longrightarrow> is_plain d \<Longrightarrow>
    \<exists>idd success s'. act api d s = respond idd success s'
      \<and> reply coll (tabs (srv_db s)) d idd success (db_tables tabs s') \<and> well_formed coll (db_tables tabs s')"
begin

lemma act_keeps: "mysql_serves coll api tabs \<Longrightarrow> is_plain d \<Longrightarrow> keeps (tables_kept coll tabs) (act api d)"
  by (rule keepsI) (auto simp: tables_kept_def dest!: served respond_state)

text \<open>A response that is sent tells what has happened to the tables.\<close>

lemma response_sound:
  assumes "mysql_serves coll api tabs" and "well_formed coll (db_tables tabs s)" and "is_plain d"
    and "act api d s = (Inr r, s')"
  shows "\<exists>idd. id_int_of idd = Inr (res_id r)
    \<and> reply coll (tabs (srv_db s)) d idd (res_success r) (db_tables tabs s')"
proof -
  obtain idd success s1 where act: "act api d s = respond idd success s1"
    and reply: "reply coll (tabs (srv_db s)) d idd success (db_tables tabs s1)"
    using served [OF assms(1-3)] by blast
  have "respond idd success s1 = (Inr r, s')" using act assms(4) by simp
  with reply show ?thesis by (auto simp: respond_Inr)
qed

lemma execute_keeps:
  assumes "mysql_serves coll api tabs" and "\<And>d m. pull_data size_of dec msg = Inr (d, m) \<Longrightarrow> is_plain d"
  shows "keeps (tables_kept coll tabs) (execute_action size_of dec type_of (act api) msg)"
proof (cases "pull_data size_of dec msg")
  case (Inl e)
  then show ?thesis
    by (auto intro!: keepsI simp: execute_action_def prog_simps tables_kept_def)
next
  case (Inr dm)
  then obtain d m where dm: "pull_data size_of dec msg = Inr (d, m)" by (cases dm) auto
  then have "execute_action size_of dec type_of (act api) msg = bind_p (act api d) (\<lambda>res.
      return_p (push_data enc_response res (message_new\<lparr>msg_id := type_of d\<rparr>)))"
    by (simp add: execute_action_def bind_p_def lift_p_def)
  then show ?thesis
    using act_keeps [OF assms(1) assms(2) [OF dm]] tables_kept_preorder [of coll tabs]
    by (auto intro!: keeps_bind keeps_return)
qed

end

section \<open>The four actions\<close>

text \<open>
  Requests with plain texts; the name of a championship or club, the country and the year must have some
  character.
\<close>

definition plain_new_championship :: "new_championship \<Rightarrow> bool" where
  "plain_new_championship d \<longleftrightarrow> new_championship_ok d \<and> sql_text (wide_text (nch_name d)) \<and> sql_text (map narrow (nch_country d))"

definition plain_new_club :: "new_club \<Rightarrow> bool" where
  "plain_new_club d \<longleftrightarrow> new_club_ok d \<and> sql_text (wide_text (ncl_name d)) \<and> sql_text (map narrow (ncl_country d))"

definition plain_new_season :: "new_season \<Rightarrow> bool" where
  "plain_new_season d \<longleftrightarrow> sql_text (wide_text (nse_year d))"

definition reply_new_championship ::
    "(string \<Rightarrow> string) \<Rightarrow> sql_tables \<Rightarrow> new_championship \<Rightarrow> string \<Rightarrow> bool \<Rightarrow> (string \<Rightarrow> string list set) \<Rightarrow> bool" where
  "reply_new_championship coll tb d = championship_reply coll tb (wide_text (nch_name d)) (map narrow (nch_country d))"

definition reply_new_club ::
    "(string \<Rightarrow> string) \<Rightarrow> sql_tables \<Rightarrow> new_club \<Rightarrow> string \<Rightarrow> bool \<Rightarrow> (string \<Rightarrow> string list set) \<Rightarrow> bool" where
  "reply_new_club coll tb d = club_reply coll tb (wide_text (ncl_name d)) (map narrow (ncl_country d))"

definition reply_new_season ::
    "(string \<Rightarrow> string) \<Rightarrow> sql_tables \<Rightarrow> new_season \<Rightarrow> string \<Rightarrow> bool \<Rightarrow> (string \<Rightarrow> string list set) \<Rightarrow> bool" where
  "reply_new_season coll tb d = season_reply coll tb (unat (nse_championship d)) (wide_text (nse_year d))"

definition reply_new_season_club ::
    "(string \<Rightarrow> string) \<Rightarrow> sql_tables \<Rightarrow> new_season_club \<Rightarrow> string \<Rightarrow> bool \<Rightarrow> (string \<Rightarrow> string list set) \<Rightarrow> bool" where
  "reply_new_season_club coll tb d = member_reply (tb_rows tb) (unat (nsc_season d)) (unat (nsc_club d))"

interpretation championship_service: request_service event_action_new_championship plain_new_championship reply_new_championship
proof
  fix coll tabs s d and api :: "'a sql_api"
  assume sv: "mysql_serves coll api tabs" and wf: "well_formed coll (db_tables tabs s)" and "plain_new_championship d"
  then have plain: "new_championship_ok d" "sql_text (wide_text (nch_name d))" "sql_text (map narrow (nch_country d))"
    by (simp_all add: plain_new_championship_def)
  show "\<exists>idd success s'. event_action_new_championship api d s = respond idd success s'
      \<and> reply_new_championship coll (tabs (srv_db s)) d idd success (db_tables tabs s') \<and> well_formed coll (db_tables tabs s')"
    unfolding reply_new_championship_def
    by (rule new_championship_served [OF sv wf plain]) blast
qed

interpretation club_service: request_service event_action_new_club plain_new_club reply_new_club
proof
  fix coll tabs s d and api :: "'a sql_api"
  assume sv: "mysql_serves coll api tabs" and wf: "well_formed coll (db_tables tabs s)" and "plain_new_club d"
  then have plain: "new_club_ok d" "sql_text (wide_text (ncl_name d))" "sql_text (map narrow (ncl_country d))"
    by (simp_all add: plain_new_club_def)
  show "\<exists>idd success s'. event_action_new_club api d s = respond idd success s'
      \<and> reply_new_club coll (tabs (srv_db s)) d idd success (db_tables tabs s') \<and> well_formed coll (db_tables tabs s')"
    unfolding reply_new_club_def
    by (rule new_club_served [OF sv wf plain]) blast
qed

interpretation season_service: request_service event_action_new_season plain_new_season reply_new_season
proof
  fix coll tabs s d and api :: "'a sql_api"
  assume "mysql_serves coll api tabs" and "well_formed coll (db_tables tabs s)" and "plain_new_season d"
  then show "\<exists>idd success s'. event_action_new_season api d s = respond idd success s'
      \<and> reply_new_season coll (tabs (srv_db s)) d idd success (db_tables tabs s') \<and> well_formed coll (db_tables tabs s')"
    unfolding plain_new_season_def reply_new_season_def
    by (rule new_season_served; blast)
qed

interpretation member_service: request_service event_action_new_season_club "\<lambda>_. True" reply_new_season_club
proof
  fix coll tabs s d and api :: "'a sql_api"
  assume "mysql_serves coll api tabs" and "well_formed coll (db_tables tabs s)"
  then show "\<exists>idd success s'. event_action_new_season_club api d s = respond idd success s'
      \<and> reply_new_season_club coll (tabs (srv_db s)) d idd success (db_tables tabs s') \<and> well_formed coll (db_tables tabs s')"
    unfolding reply_new_season_club_def
    by (rule new_season_club_served; blast)
qed

section \<open>Messages\<close>

definition plain_message :: "message \<Rightarrow> bool" where
  "plain_message msg \<longleftrightarrow> (case msg_id msg of
      Ev_new_championship \<Rightarrow> (case pull_data new_championship_size dec_new_championship msg of
          Inl _ \<Rightarrow> True | Inr (d, _) \<Rightarrow> plain_new_championship d)
    | Ev_new_club \<Rightarrow> (case pull_data new_club_size dec_new_club msg of Inl _ \<Rightarrow> True | Inr (d, _) \<Rightarrow> plain_new_club d)
    | Ev_new_season \<Rightarrow> (case pull_data new_season_size dec_new_season msg of Inl _ \<Rightarrow> True | Inr (d, _) \<Rightarrow> plain_new_season d)
    | _ \<Rightarrow> True)"

lemma football_action_keeps:
  assumes sv: "mysql_serves coll api tabs" and msg: "plain_message msg" and act: "football_action api msg = Some act"
  shows "keeps (tables_kept coll tabs) act"
proof (cases "msg_id msg")
  case Ev_new_championship
  then have "act = execute_action new_championship_size dec_new_championship nch_type (event_action_new_championship api) msg"
    using act by (simp add: football_action_def)
  moreover have "plain_new_championship d" if "pull_data new_championship_size dec_new_championship msg = Inr (d, m)" for d m
    using msg Ev_new_championship that by (simp add: plain_message_def)
  ultimately show ?thesis by (simp add: championship_service.execute_keeps [OF sv])
next
  case Ev_new_club
  then have "act = execute_action new_club_size dec_new_club ncl_type (event_action_new_club api) msg"
    using act by (simp add: football_action_def)
  moreover have "plain_new_club d" if "pull_data new_club_size dec_new_club msg = Inr (d, m)" for d m
    using msg Ev_new_club that by (simp add: plain_message_def)
  ultimately show ?thesis by (simp add: club_service.execute_keeps [OF sv])
next
  case Ev_new_season
  then have "act = execute_action new_season_size dec_new_season nse_type (event_action_new_season api) msg"
    using act by (simp add: football_action_def)
  moreover have "plain_new_season d" if "pull_data new_season_size dec_new_season msg = Inr (d, m)" for d m
    using msg Ev_new_season that by (simp add: plain_message_def)
  ultimately show ?thesis by (simp add: season_service.execute_keeps [OF sv])
next
  case Ev_new_season_club
  then have "act = execute_action new_season_club_size dec_new_season_club nsc_type (event_action_new_season_club api) msg"
    using act by (simp add: football_action_def)
  then show ?thesis by (simp add: member_service.execute_keeps [OF sv])
qed (use act in \<open>simp_all add: football_action_def\<close>)

lemma on_message_keeps:
  assumes sv: "mysql_serves coll api tabs" and msg: "plain_message msg"
  shows "keeps (\<lambda>w w'. tables_kept coll tabs (snd w) (snd w')) (football_on_message api client msg)"
proof -
  let ?R = "\<lambda>w w'. tables_kept coll tabs (snd w) (snd w')"
  have pre: "transp ?R" "reflp ?R" by (auto simp: tables_kept_def transp_def reflp_def)
  have fst: "keeps ?R (on_fst m)" for m :: "(server_if, 'x) prog"
    by (rule keepsI) (auto simp: on_fst_def tables_kept_def split: prod.splits)
  have snd: "keeps ?R (on_snd m)" if "keeps (tables_kept coll tabs) m" for m :: "('a server, 'x) prog"
    using that by (auto intro!: keepsI simp: on_snd_def split: prod.splits dest: keepsD)
  show ?thesis
    unfolding football_on_message_def
    by (intro keeps_if keeps_bind pre fst)
      (auto split: option.splits intro!: keeps_bind pre fst snd keeps_return football_action_keeps [OF sv msg])
qed

section \<open>A sample database\<close>

definition sample_db :: mem_db where
  "sample_db = (\<lambda>_. [])(''championships'' := [[''3'', ''Paulista'', ''BR'']], ''seasons'' := [[''5'', ''3'', ''2023'']],
     ''clubs'' := [[''7'', ''Santos'', ''BR''], [''8'', ''Bahia'', ''BR'']], ''clubs_seasons'' := [[''5'', ''7'']],
     ''countries'' := [[''30'', ''55'', ''BR'', ''Brazil'']])"

lemma sample_digits:
  "decimal 3 = ''3''" "decimal 5 = ''5''" "decimal 7 = ''7''" "decimal 8 = ''8''" "decimal 30 = ''30''"
  by code_simp+

lemma sample_rows [simp]:
  "tb_rows (mem_tables sample_db) = (\<lambda>_. {})(''championships'' := {[''3'', ''Paulista'', ''BR'']},
     ''seasons'' := {[''5'', ''3'', ''2023'']}, ''clubs'' := {[''7'', ''Santos'', ''BR''], [''8'', ''Bahia'', ''BR'']},
     ''clubs_seasons'' := {[''5'', ''7'']}, ''countries'' := {[''30'', ''55'', ''BR'', ''Brazil'']})"
  by (simp add: mem_tables_def sample_db_def fun_eq_iff)

lemma cell_countries [simp]:
  "cell ''countries'' [a, b, c, d] ''id'' = a" "cell ''countries'' [a, b, c, d] ''country_code'' = c"
  by (simp_all add: cell_def)

lemma sample_db_ok: "tables_ok (\<lambda>v. v) (tb_rows (mem_tables sample_db))"
proof -
  have "rows_wide (tb_rows (mem_tables sample_db))" by (simp add: rows_wide_def)
  moreover have "\<forall>(t, c) \<in> set number_columns. \<forall>r \<in> tb_rows (mem_tables sample_db) t. \<exists>i. cell t r c = decimal i"
    unfolding number_columns_def using sample_digits by (auto intro: sym)
  moreover have "r = r'" if "r \<in> tb_rows (mem_tables sample_db) t" "r' \<in> tb_rows (mem_tables sample_db) t"
    "key \<in> set (td_keys (schema t))" "\<forall>c \<in> set key. cell t r c = cell t r' c" for t r r' key
    using that by (auto split: if_splits)
  ultimately show ?thesis unfolding tables_ok_def by blast
qed

lemma sample_db_sound: "tables_sound (\<lambda>v. v) (tb_rows (mem_tables sample_db))"
proof -
  have "fits t (row_fields t r) \<and> parents (\<lambda>v. v) (tb_rows (mem_tables sample_db)) t (row_fields t r)"
    if "r \<in> tb_rows (mem_tables sample_db) t" for t r
    using that by (auto simp: row_fields_def fits_def parents_def tbl_championships_def tbl_clubs_def tbl_clubs_seasons_def
        tbl_countries_def tbl_seasons_def split: if_splits)
  moreover have "sql_text ''BR''" "sql_text ''2023''" by code_simp+
  ultimately show ?thesis unfolding tables_sound_def text_columns_def by simp
qed

lemma sample_db_well_formed: "well_formed (\<lambda>v. v) (db_tables mem_tables (mem_server sample_db))"
  by (simp only: well_formed_def mem_server_def server.simps sample_db_ok sample_db_sound)

lemma sample_srv: "srv_db (mem_server sample_db) = sample_db"
  by (simp add: mem_server_def)

section \<open>Properties\<close>

text \<open>
  C4: The request for a new club does what \<open>club_reply\<close> says: a name too long for the column is refused; a known
  club, by name and country, is answered with its id, but its row is replaced, and the foreign key takes all
  its memberships along; an unknown club gets a fresh id, and if there is a club of that name in another
  country, that club and its memberships are gone.
\<close>

theorem new_club_request:
  assumes "mysql_serves coll api tabs" and "well_formed coll (db_tables tabs s)" and "plain_new_club cl"
  shows "\<exists>idd success s'. event_action_new_club api cl s = respond idd success s'
     \<and> club_reply coll (tabs (srv_db s)) (wide_text (ncl_name cl)) (map narrow (ncl_country cl)) idd success (db_tables tabs s')
     \<and> well_formed coll (db_tables tabs s')"
  using club_service.served [OF assms] unfolding reply_new_club_def .

definition sample_new_club :: "string \<Rightarrow> new_club" where
  "sample_new_club nm = \<lparr>ncl_name = map widen nm @ replicate (100 - length nm) 0,
     ncl_country = map widen ''BR'', ncl_type = Ev_new_club\<rparr>"

theorem new_club_request_witness:
  "\<exists>s'. event_action_new_club mem_api (sample_new_club ''Santos'') (mem_server sample_db) = respond ''7'' True s'
     \<and> tb_rows (mem_tables (srv_db s')) ''clubs_seasons'' = {}"
proof -
  have name: "wide_text (ncl_name (sample_new_club ''Santos'')) = ''Santos''"
    using wide_text_widen [of "''Santos''" 94] by (simp add: sample_new_club_def)
  have country: "map narrow (ncl_country (sample_new_club ''Santos'')) = ''BR''"
    by (simp add: sample_new_club_def)
  have plain: "plain_new_club (sample_new_club ''Santos'')"
    unfolding plain_new_club_def name country
    by (simp add: sample_new_club_def new_club_ok_def) code_simp
  from new_club_request [where tabs = mem_tables, OF mem_serves sample_db_well_formed plain] obtain idd success s'
    where act: "event_action_new_club mem_api (sample_new_club ''Santos'') (mem_server sample_db) = respond idd success s'"
      and reply: "club_reply (\<lambda>v. v) (mem_tables sample_db) ''Santos'' ''BR'' idd success (db_tables mem_tables s')"
    unfolding name country sample_srv by (elim exE conjE) (rule that)
  have named: "{r \<in> tb_rows (mem_tables sample_db) ''clubs''. cell ''clubs'' r ''name'' = ''Santos''} = {[''7'', ''Santos'', ''BR'']}"
    by auto
  have known: "{r \<in> {[''7'', ''Santos'', ''BR'']}. cell ''clubs'' r ''country'' = ''BR''} = {[''7'', ''Santos'', ''BR'']}"
    by auto
  note spec = reply [unfolded club_reply_def Let_def named known]
  have yes: success using spec [THEN conjunct1] by simp
  have idd: "idd = ''7''" using spec [THEN conjunct2, THEN conjunct1] by simp
  note rows = spec [THEN conjunct2, THEN conjunct2, unfolded if_P [OF yes]]
  have "db_tables mem_tables s' ''clubs_seasons'' =
      {m \<in> tb_rows (mem_tables sample_db) ''clubs_seasons''. cell ''clubs_seasons'' m ''club'' \<notin> (\<lambda>r. cell ''clubs'' r ''id'') ` {[''7'', ''Santos'', ''BR'']}}"
    unfolding rows by (rule fun_upd_same)
  also have "\<dots> = {}"
  proof -
    have "m = [''5'', ''7'']" if "m \<in> tb_rows (mem_tables sample_db) ''clubs_seasons''" for m
      using that by simp
    moreover have "cell ''clubs_seasons'' [''5'', ''7''] ''club'' = cell ''clubs'' [''7'', ''Santos'', ''BR''] ''id''" by simp
    ultimately show ?thesis by blast
  qed
  finally have empty: "tb_rows (mem_tables (srv_db s')) ''clubs_seasons'' = {}" .
  have "event_action_new_club mem_api (sample_new_club ''Santos'') (mem_server sample_db) = respond ''7'' True s'"
    by (rule trans [OF act]) (rule arg_cong2 [OF idd eqTrueI [OF yes], THEN fun_cong])
  with empty show ?thesis by (intro exI [of _ s'] conjI)
qed

lemma respond_cong: "x = respond idd success s \<Longrightarrow> idd = i \<Longrightarrow> success = b \<Longrightarrow> x = respond i b s"
  by simp

text \<open>
  C5: The request for a new season does what \<open>season_reply\<close> says: a season that is there already, by
  championship and year, is answered with its id and the tables are what they were, although its row is
  deleted on the way, with all memberships, and everything is written again; a new season needs its
  championship, a year that fits and a free id.
\<close>

theorem new_season_request:
  assumes "mysql_serves coll api tabs" and "well_formed coll (db_tables tabs s)" and "plain_new_season ns"
  shows "\<exists>idd success s'. event_action_new_season api ns s = respond idd success s'
     \<and> season_reply coll (tabs (srv_db s)) (unat (nse_championship ns)) (wide_text (nse_year ns)) idd success (db_tables tabs s')
     \<and> well_formed coll (db_tables tabs s')"
  using season_service.served [OF assms] unfolding reply_new_season_def .

definition sample_new_season :: new_season where
  "sample_new_season = \<lparr>nse_championship = 3, nse_year = map widen ''2023'' @ replicate 6 0, nse_type = Ev_new_season\<rparr>"

theorem new_season_request_witness:
  "\<exists>s'. event_action_new_season mem_api sample_new_season (mem_server sample_db) = respond ''5'' True s'
     \<and> db_tables mem_tables s' = tb_rows (mem_tables sample_db)"
proof -
  have fields: "wide_text (nse_year sample_new_season) = ''2023''" "unat (nse_championship sample_new_season) = 3"
    using wide_text_widen [of "''2023''" 6] by (simp_all add: sample_new_season_def)
  have plain: "plain_new_season sample_new_season"
    unfolding plain_new_season_def fields by code_simp
  from new_season_request [where tabs = mem_tables, OF mem_serves sample_db_well_formed plain] obtain idd success s'
    where act: "event_action_new_season mem_api sample_new_season (mem_server sample_db) = respond idd success s'"
      and reply: "season_reply (\<lambda>v. v) (mem_tables sample_db) 3 ''2023'' idd success (db_tables mem_tables s')"
    unfolding fields sample_srv by (elim exE conjE) (rule that)
  have known: "{r \<in> tb_rows (mem_tables sample_db) ''seasons''. cell ''seasons'' r ''championship'' = decimal 3
      \<and> cell ''seasons'' r ''year'' = ''2023''} = {[''5'', ''3'', ''2023'']}"
    by (auto simp: sample_digits)
  have "[''5'', ''3'', ''2023''] \<in> {[''5'', ''3'', ''2023'']}" by simp
  then have ne: "{[''5'', ''3'', ''2023'']} \<noteq> {}" by blast
  note spec = reply [unfolded season_reply_def Let_def known if_P [OF ne]]
  have "idd = ''5''" using spec [THEN conjunct1] by simp
  with act have "event_action_new_season mem_api sample_new_season (mem_server sample_db) = respond ''5'' True s'"
    using eqTrueI [OF spec [THEN conjunct2, THEN conjunct1]] by (rule respond_cong)
  then show ?thesis using spec [THEN conjunct2, THEN conjunct2] by (intro exI [of _ s'] conjI)
qed

text \<open>
  C3: The request to add a club to a season does what \<open>member_reply\<close> says: it succeeds if both are known,
  and then the one change is that the club is a member of the season, as it may have been before; the other
  memberships, which are deleted and written again one by one, are all there.
\<close>

theorem new_season_club_request:
  assumes "mysql_serves coll api tabs" and "well_formed coll (db_tables tabs s)"
  shows "\<exists>idd success s'. event_action_new_season_club api sc s = respond idd success s'
     \<and> member_reply (db_tables tabs s) (unat (nsc_season sc)) (unat (nsc_club sc)) idd success (db_tables tabs s')
     \<and> well_formed coll (db_tables tabs s')"
  using member_service.served [OF assms] unfolding reply_new_season_club_def by simp

theorem new_season_club_request_witness:
  "\<exists>s'. event_action_new_season_club mem_api \<lparr>nsc_season = 5, nsc_club = 8, nsc_type = Ev_new_season_club\<rparr> (mem_server sample_db)
       = respond ''5'' True s'
     \<and> db_tables mem_tables s' ''clubs_seasons'' = {[''5'', ''8''], [''5'', ''7'']}"
proof -
  let ?sc = "\<lparr>nsc_season = 5, nsc_club = 8, nsc_type = Ev_new_season_club\<rparr>"
  have ids: "unat (nsc_season ?sc) = 5" "unat (nsc_club ?sc) = 8" by simp_all
  from new_season_club_request [where tabs = mem_tables, OF mem_serves sample_db_well_formed, of ?sc] obtain idd success s'
    where act: "event_action_new_season_club mem_api ?sc (mem_server sample_db) = respond idd success s'"
      and reply: "member_reply (tb_rows (mem_tables sample_db)) 5 8 idd success (db_tables mem_tables s')"
    unfolding ids sample_srv by (elim exE conjE) (rule that)
  have "known_id (tb_rows (mem_tables sample_db)) ''seasons'' (decimal 5) \<and> known_id (tb_rows (mem_tables sample_db)) ''clubs'' (decimal 8)"
    by (simp add: known_id_def sample_digits)
  with reply have yes: "success = True" and idd: "idd = ''5''"
    by (simp_all add: member_reply_def sample_digits)
  have "db_tables mem_tables s' = (tb_rows (mem_tables sample_db))(''clubs_seasons'' :=
      insert [decimal 5, decimal 8] (tb_rows (mem_tables sample_db) ''clubs_seasons''))"
    using reply [unfolded member_reply_def yes if_True] by blast
  then have "db_tables mem_tables s' ''clubs_seasons'' = {[''5'', ''8''], [''5'', ''7'']}"
    by (simp add: sample_digits)
  with respond_cong [OF act idd yes] show ?thesis by (intro exI [of _ s'] conjI)
qed

text \<open>
  C2: Whatever plain requests wait in the queue, in which order and from whom, the tables are well-formed
  after a round of the main loop, also when the round ends in an exception: numbers in the number columns,
  keys unique, every reference has its row, every text fits.
\<close>

theorem update_keeps_tables:
  assumes sv: "mysql_serves coll api tabs" and wf: "well_formed coll (db_tables tabs s)"
    and plain: "\<forall>om \<in> set (ts_queue q). plain_message (om_msg om)"
    and run: "server_update (football_hooks api) n bWait (q, (si, s)) = Some (r, (q', (si', s')))"
  shows "well_formed coll (db_tables tabs s')"
proof -
  let ?handle = "\<lambda>om. h_message (football_hooks api) (om_remote om) (om_msg om)"
  have keeps: "tables_kept coll tabs (snd w) (snd w')"
    if "handle_list ?handle oms w = (p, rest, w')" "\<forall>om \<in> set oms. plain_message (om_msg om)" for oms w p rest w'
    using that
  proof (induction oms arbitrary: w)
    case (Cons om oms)
    obtain x w1 where h: "?handle om w = (x, w1)" by (cases "?handle om w")
    then have "tables_kept coll tabs (snd w) (snd w1)"
      using keepsD [OF on_message_keeps [OF sv]] Cons.prems(2) by (fastforce simp: football_hooks_def)
    moreover have "tables_kept coll tabs (snd w1) (snd w')"
      using Cons h by (cases x) (auto simp: tables_kept_def)
    ultimately show ?case by (simp add: tables_kept_def)
  qed (simp add: tables_kept_def)
  obtain p rest w where list: "handle_list ?handle (take (unat n) (ts_queue q)) (si, s) = (p, rest, w)"
    by (metis surj_pair)
  have "\<not> (bWait \<and> ts_empty q)" using run by (auto simp: server_update_def)
  from server_update_list [OF this, of "football_hooks api" n "(si, s)"] run list have "w = (si', s')" by auto
  with keeps [OF list] plain wf show ?thesis by (auto simp: tables_kept_def dest: in_set_takeD)
qed

definition sample_queue :: "owned_message tsqueue" where
  "sample_queue = ts_push_back \<lparr>om_remote = Some 0, om_msg = push_data enc_new_season_club
     \<lparr>nsc_season = 5, nsc_club = 8, nsc_type = Ev_new_season_club\<rparr> (message_new\<lparr>msg_id := Ev_new_season_club\<rparr>)\<rparr> ts_new"

theorem update_keeps_tables_witness:
  "\<exists>r q' si' s'. server_update (football_hooks mem_api) 10 False (sample_queue, (accepted 7 server_new, mem_server sample_db))
       = Some (r, (q', (si', s')))
     \<and> well_formed (\<lambda>v. v) (db_tables mem_tables s')"
proof -
  obtain res where res: "server_update (football_hooks mem_api) 10 False
      (sample_queue, (accepted 7 server_new, mem_server sample_db)) = Some res"
    by (simp add: server_update_def)
  obtain r q' si' s' where "res = (r, (q', (si', s')))" by (rule prod_cases4)
  note run = res [unfolded this]
  have "\<forall>om \<in> set (ts_queue sample_queue). plain_message (om_msg om)"
    by (simp add: sample_queue_def ts_push_back_def ts_new_def plain_message_def push_data_def set_body_def)
  from update_keeps_tables [where tabs = mem_tables, OF mem_serves sample_db_well_formed this run] run
  show ?thesis by (intro exI conjI)
qed

end
