(* ===== verification/Json_Lexer.thy ===== *)
theory Json_Lexer
  imports Std_Map
begin

text \<open>
  \<^verbatim>\<open>util/json.hpp\<close>, class \<^verbatim>\<open>lexer\<close>: from bytes to tokens. The input adapter and the position counters
  are the list of the bytes still to be read (\<^verbatim>\<open>unget\<close> leaves a byte in it), an error is the token
  \<open>Tk_parse_error\<close>; its message is not modelled. The locale's decimal point is the point.
\<close>

unbundle bit_operations_syntax

abbreviation byte_of :: "char \<Rightarrow> nat" where
  "byte_of c \<equiv> (of_char c :: nat)"

datatype token =
    Tk_literal_true | Tk_literal_false | Tk_literal_null
  | Tk_value_string string | Tk_value_unsigned "64 word" | Tk_value_integer "64 word" | Tk_value_float string
  | Tk_begin_array | Tk_begin_object | Tk_end_array | Tk_end_object
  | Tk_name_separator | Tk_value_separator
  | Tk_parse_error | Tk_end_of_input

section \<open>Strings\<close>

definition hex_digit :: "char \<Rightarrow> nat option" where
  "hex_digit c = (let n = byte_of c in
     if 0x30 \<le> n \<and> n \<le> 0x39 then Some (n - 0x30)
     else if 0x41 \<le> n \<and> n \<le> 0x46 then Some (n - 0x37)
     else if 0x61 \<le> n \<and> n \<le> 0x66 then Some (n - 0x57)
     else None)"

text \<open>The four digits after \<^verbatim>\<open>\u\<close>; \<open>None\<close> is the \<open>-1\<close>. The first argument lists the factors left.\<close>

fun codepoint_loop :: "nat list \<Rightarrow> nat \<Rightarrow> string \<Rightarrow> (nat \<times> string) option" where
  "codepoint_loop [] codepoint s = Some (codepoint, s)"
| "codepoint_loop (f # fs) codepoint [] = None"
| "codepoint_loop (f # fs) codepoint (c # cs) =
     (case hex_digit c of None \<Rightarrow> None | Some d \<Rightarrow> codepoint_loop fs (codepoint + push_bit f d) cs)"

definition get_codepoint :: "string \<Rightarrow> (nat \<times> string) option" where
  "get_codepoint s = codepoint_loop [12, 8, 4, 0] 0 s"

fun next_byte_in_range :: "(nat \<times> nat) list \<Rightarrow> string \<Rightarrow> (string \<times> string) option" where
  "next_byte_in_range [] s = Some ([], s)"
| "next_byte_in_range ((lo, hi) # ranges) [] = None"
| "next_byte_in_range ((lo, hi) # ranges) (c # cs) =
     (if lo \<le> byte_of c \<and> byte_of c \<le> hi then
        (case next_byte_in_range ranges cs of None \<Rightarrow> None | Some (bs, s) \<Rightarrow> Some (c # bs, s))
      else None)"

definition add_codepoint :: "nat \<Rightarrow> string" where
  "add_codepoint cp = map char_of
     (if cp < 0x80 then [cp]
      else if cp \<le> 0x7FF then [0xC0 OR drop_bit 6 cp, 0x80 OR (cp AND 0x3F)]
      else if cp \<le> 0xFFFF then
        [0xE0 OR drop_bit 12 cp, 0x80 OR (drop_bit 6 cp AND 0x3F), 0x80 OR (cp AND 0x3F)]
      else [0xF0 OR drop_bit 18 cp, 0x80 OR (drop_bit 12 cp AND 0x3F),
            0x80 OR (drop_bit 6 cp AND 0x3F), 0x80 OR (cp AND 0x3F)])"

definition scan_unicode_escape :: "string \<Rightarrow> (string \<times> string) option" where
  "scan_unicode_escape s = (case get_codepoint s of
      None \<Rightarrow> None
    | Some (cp1, s1) \<Rightarrow>
        if 0xD800 \<le> cp1 \<and> cp1 \<le> 0xDBFF then
          (case s1 of
             CHR 0x5C # CHR 0x75 # s2 \<Rightarrow>
               (case get_codepoint s2 of
                  None \<Rightarrow> None
                | Some (cp2, s3) \<Rightarrow>
                    if 0xDC00 \<le> cp2 \<and> cp2 \<le> 0xDFFF
                    then Some (add_codepoint (push_bit 10 cp1 + cp2 - 0x35FDC00), s3)
                    else None)
           | _ \<Rightarrow> None)
        else if 0xDC00 \<le> cp1 \<and> cp1 \<le> 0xDFFF then None
        else Some (add_codepoint cp1, s1))"

text \<open>What follows a backslash: the bytes added to the token, and the input left.\<close>

fun scan_escape :: "string \<Rightarrow> (string \<times> string) option" where
  "scan_escape [] = None"
| "scan_escape (c # cs) =
     (if c = CHR 0x22 then Some ([CHR 0x22], cs)
      else if c = CHR 0x5C then Some ([CHR 0x5C], cs)
      else if c = CHR ''/'' then Some ([CHR ''/''], cs)
      else if c = CHR ''b'' then Some ([CHR 0x08], cs)
      else if c = CHR ''f'' then Some ([CHR 0x0C], cs)
      else if c = CHR ''n'' then Some ([CHR 0x0A], cs)
      else if c = CHR ''r'' then Some ([CHR 0x0D], cs)
      else if c = CHR ''t'' then Some ([CHR 0x09], cs)
      else if c = CHR ''u'' then scan_unicode_escape cs
      else None)"

text \<open>The ranges of the bytes that may follow a lead byte; \<open>None\<close> for bytes that are no lead byte.\<close>

definition lead_ranges :: "nat \<Rightarrow> (nat \<times> nat) list option" where
  "lead_ranges n =
     (if 0xC2 \<le> n \<and> n \<le> 0xDF then Some [(0x80, 0xBF)]
      else if n = 0xE0 then Some [(0xA0, 0xBF), (0x80, 0xBF)]
      else if 0xE1 \<le> n \<and> n \<le> 0xEC \<or> n = 0xEE \<or> n = 0xEF then Some [(0x80, 0xBF), (0x80, 0xBF)]
      else if n = 0xED then Some [(0x80, 0x9F), (0x80, 0xBF)]
      else if n = 0xF0 then Some [(0x90, 0xBF), (0x80, 0xBF), (0x80, 0xBF)]
      else if 0xF1 \<le> n \<and> n \<le> 0xF3 then Some [(0x80, 0xBF), (0x80, 0xBF), (0x80, 0xBF)]
      else if n = 0xF4 then Some [(0x80, 0x8F), (0x80, 0xBF), (0x80, 0xBF)]
      else None)"

text \<open>The cases of the \<^verbatim>\<open>switch\<close> that reject a byte unless it is escaped, and those that copy it.\<close>

definition control_byte :: "nat \<Rightarrow> bool" where
  "control_byte n \<longleftrightarrow> n \<le> 0x1F"

definition plain_byte :: "nat \<Rightarrow> bool" where
  "plain_byte n \<longleftrightarrow> 0x20 \<le> n \<and> n \<le> 0x7F \<and> n \<noteq> 0x22 \<and> n \<noteq> 0x5C"

text \<open>One round of the loop: a byte that is neither quote nor end, with all that belongs to it.\<close>

definition scan_string_char :: "char \<Rightarrow> string \<Rightarrow> (string \<times> string) option" where
  "scan_string_char c cs =
     (if c = CHR 0x5C then scan_escape cs
      else if control_byte (byte_of c) then None
      else if plain_byte (byte_of c) then Some ([c], cs)
      else (case lead_ranges (byte_of c) of
          None \<Rightarrow> None
        | Some ranges \<Rightarrow> (case next_byte_in_range ranges cs of
              None \<Rightarrow> None
            | Some (bs, s) \<Rightarrow> Some (c # bs, s))))"

lemma codepoint_loop_shorter: "codepoint_loop fs n s = Some (m, r) \<Longrightarrow> length r \<le> length s"
  by (induction fs n s rule: codepoint_loop.induct) (auto split: option.splits)

lemma next_byte_shorter: "next_byte_in_range rs s = Some (bs, r) \<Longrightarrow> length r \<le> length s"
  by (induction rs s arbitrary: bs rule: next_byte_in_range.induct) (fastforce split: if_splits option.splits)+

lemma scan_unicode_escape_shorter: "scan_unicode_escape s = Some (bs, r) \<Longrightarrow> length r \<le> length s"
  by (auto simp: scan_unicode_escape_def get_codepoint_def dest!: codepoint_loop_shorter
      split: option.splits if_splits list.splits char.splits bool.splits)

lemma scan_escape_shorter: "scan_escape s = Some (bs, r) \<Longrightarrow> length r < length s"
  by (cases s) (auto dest!: scan_unicode_escape_shorter split: if_splits)

lemma scan_string_char_shorter: "scan_string_char c s = Some (bs, r) \<Longrightarrow> length r \<le> length s"
  by (auto simp: scan_string_char_def dest!: scan_escape_shorter next_byte_shorter
      split: if_splits option.splits)

function scan_string_loop :: "string \<Rightarrow> string \<Rightarrow> token \<times> string" where
  "scan_string_loop token_buffer [] = (Tk_parse_error, [])"
| "scan_string_loop token_buffer (c # cs) =
     (if c = CHR 0x22 then (Tk_value_string token_buffer, cs)
      else (case scan_string_char c cs of
          None \<Rightarrow> (Tk_parse_error, [])
        | Some (bs, s) \<Rightarrow> scan_string_loop (token_buffer @ bs) s))"
  by pat_completeness auto
termination
  by (relation "measure (length \<circ> snd)") (auto dest: scan_string_char_shorter)

definition scan_string :: "string \<Rightarrow> token \<times> string" where
  "scan_string s = scan_string_loop [] s"

section \<open>Numbers\<close>

datatype number_state =
  Ns_minus | Ns_zero | Ns_any1 | Ns_decimal1 | Ns_decimal2 | Ns_exponent | Ns_sign | Ns_any2

datatype number_type = Nt_unsigned | Nt_integer | Nt_float

datatype number_move = Goto number_state | Done | Fail

text \<open>The labels of \<^verbatim>\<open>scan_number\<close>: where each goes on reading a byte, \<open>None\<close> being the end of the input.\<close>

fun scan_number_minus :: "char option \<Rightarrow> number_move" where
  "scan_number_minus (Some c) =
     (if c = CHR ''0'' then Goto Ns_zero else if is_digit_char c then Goto Ns_any1 else Fail)"
| "scan_number_minus None = Fail"

fun scan_number_zero :: "char option \<Rightarrow> number_move" where
  "scan_number_zero (Some c) =
     (if c = CHR ''.'' then Goto Ns_decimal1
      else if c = CHR ''e'' \<or> c = CHR ''E'' then Goto Ns_exponent else Done)"
| "scan_number_zero None = Done"

fun scan_number_any1 :: "char option \<Rightarrow> number_move" where
  "scan_number_any1 (Some c) =
     (if is_digit_char c then Goto Ns_any1 else if c = CHR ''.'' then Goto Ns_decimal1
      else if c = CHR ''e'' \<or> c = CHR ''E'' then Goto Ns_exponent else Done)"
| "scan_number_any1 None = Done"

fun scan_number_decimal1 :: "char option \<Rightarrow> number_move" where
  "scan_number_decimal1 (Some c) = (if is_digit_char c then Goto Ns_decimal2 else Fail)"
| "scan_number_decimal1 None = Fail"

fun scan_number_decimal2 :: "char option \<Rightarrow> number_move" where
  "scan_number_decimal2 (Some c) =
     (if is_digit_char c then Goto Ns_decimal2
      else if c = CHR ''e'' \<or> c = CHR ''E'' then Goto Ns_exponent else Done)"
| "scan_number_decimal2 None = Done"

fun scan_number_exponent :: "char option \<Rightarrow> number_move" where
  "scan_number_exponent (Some c) =
     (if c = CHR ''+'' \<or> c = CHR ''-'' then Goto Ns_sign
      else if is_digit_char c then Goto Ns_any2 else Fail)"
| "scan_number_exponent None = Fail"

fun scan_number_sign :: "char option \<Rightarrow> number_move" where
  "scan_number_sign (Some c) = (if is_digit_char c then Goto Ns_any2 else Fail)"
| "scan_number_sign None = Fail"

fun scan_number_any2 :: "char option \<Rightarrow> number_move" where
  "scan_number_any2 (Some c) = (if is_digit_char c then Goto Ns_any2 else Done)"
| "scan_number_any2 None = Done"

fun number_step :: "number_state \<Rightarrow> char option \<Rightarrow> number_move" where
  "number_step Ns_minus = scan_number_minus"
| "number_step Ns_zero = scan_number_zero"
| "number_step Ns_any1 = scan_number_any1"
| "number_step Ns_decimal1 = scan_number_decimal1"
| "number_step Ns_decimal2 = scan_number_decimal2"
| "number_step Ns_exponent = scan_number_exponent"
| "number_step Ns_sign = scan_number_sign"
| "number_step Ns_any2 = scan_number_any2"

text \<open>The assignments to \<^verbatim>\<open>number_type\<close> at the labels.\<close>

fun type_at :: "number_state \<Rightarrow> number_type \<Rightarrow> number_type" where
  "type_at Ns_minus nt = Nt_integer"
| "type_at Ns_decimal1 nt = Nt_float"
| "type_at Ns_exponent nt = Nt_float"
| "type_at _ nt = nt"

text \<open>
  \<^verbatim>\<open>scan_number_done\<close>: \<^verbatim>\<open>strtoull\<close> or \<^verbatim>\<open>strtoll\<close>, and a floating point number if the value is out of
  their range. A floating point number is kept as its text.
\<close>

definition scan_number_done :: "number_type \<Rightarrow> string \<Rightarrow> token" where
  "scan_number_done nt token_buffer = (case nt of
      Nt_unsigned \<Rightarrow>
        if digits_val token_buffer < 2 ^ 64 then Tk_value_unsigned (of_nat (digits_val token_buffer))
        else Tk_value_float token_buffer
    | Nt_integer \<Rightarrow>
        if digits_val (tl token_buffer) \<le> 2 ^ 63 then Tk_value_integer (- of_nat (digits_val (tl token_buffer)))
        else Tk_value_float token_buffer
    | Nt_float \<Rightarrow> Tk_value_float token_buffer)"

fun scan_number_loop :: "number_state \<Rightarrow> number_type \<Rightarrow> string \<Rightarrow> string \<Rightarrow> token \<times> string" where
  "scan_number_loop st nt token_buffer [] = (case number_step st None of
      Done \<Rightarrow> (scan_number_done nt token_buffer, [])
    | _ \<Rightarrow> (Tk_parse_error, []))"
| "scan_number_loop st nt token_buffer (c # cs) = (case number_step st (Some c) of
      Goto st' \<Rightarrow> scan_number_loop st' (type_at st' nt) (token_buffer @ [c]) cs
    | Done \<Rightarrow> (scan_number_done nt token_buffer, c # cs)
    | Fail \<Rightarrow> (Tk_parse_error, []))"

text \<open>Called with \<^verbatim>\<open>current\<close> a minus sign or a digit.\<close>

definition scan_number :: "char \<Rightarrow> string \<Rightarrow> token \<times> string" where
  "scan_number c cs =
     (if c = CHR ''-'' then scan_number_loop Ns_minus Nt_integer [c] cs
      else if c = CHR ''0'' then scan_number_loop Ns_zero Nt_unsigned [c] cs
      else scan_number_loop Ns_any1 Nt_unsigned [c] cs)"

section \<open>Tokens\<close>

fun scan_literal :: "string \<Rightarrow> token \<Rightarrow> string \<Rightarrow> token \<times> string" where
  "scan_literal [] return_type s = (return_type, s)"
| "scan_literal (l # ls) return_type [] = (Tk_parse_error, [])"
| "scan_literal (l # ls) return_type (c # cs) =
     (if c = l then scan_literal ls return_type cs else (Tk_parse_error, []))"

definition skip_bom :: "string \<Rightarrow> string option" where
  "skip_bom s = (case s of
      CHR 0xEF # s' \<Rightarrow> (case s' of CHR 0xBB # CHR 0xBF # s'' \<Rightarrow> Some s'' | _ \<Rightarrow> None)
    | _ \<Rightarrow> Some s)"

definition is_json_space :: "char \<Rightarrow> bool" where
  "is_json_space c \<longleftrightarrow> c = CHR '' '' \<or> c = CHR 0x09 \<or> c = CHR 0x0A \<or> c = CHR 0x0D"

definition skip_whitespace :: "string \<Rightarrow> string" where
  "skip_whitespace s = dropWhile is_json_space s"

text \<open>
  \<^verbatim>\<open>scan\<close> after the first token; comments are not ignored (\<^verbatim>\<open>ignore_comments\<close> is off by default).
  \<open>scan_first\<close> is the first call, which looks for a byte order mark.
\<close>

definition scan :: "string \<Rightarrow> token \<times> string" where
  "scan s = (case skip_whitespace s of
      [] \<Rightarrow> (Tk_end_of_input, [])
    | c # cs \<Rightarrow>
        if c = CHR ''['' then (Tk_begin_array, cs)
        else if c = CHR '']'' then (Tk_end_array, cs)
        else if c = CHR ''{'' then (Tk_begin_object, cs)
        else if c = CHR ''}'' then (Tk_end_object, cs)
        else if c = CHR '':'' then (Tk_name_separator, cs)
        else if c = CHR '','' then (Tk_value_separator, cs)
        else if c = CHR ''t'' then scan_literal ''rue'' Tk_literal_true cs
        else if c = CHR ''f'' then scan_literal ''alse'' Tk_literal_false cs
        else if c = CHR ''n'' then scan_literal ''ull'' Tk_literal_null cs
        else if c = CHR 0x22 then scan_string cs
        else if c = CHR ''-'' \<or> is_digit_char c then scan_number c cs
        else if c = CHR 0x00 then (Tk_end_of_input, cs)
        else (Tk_parse_error, []))"

definition scan_first :: "string \<Rightarrow> token \<times> string" where
  "scan_first s = (case skip_bom s of None \<Rightarrow> (Tk_parse_error, []) | Some s' \<Rightarrow> scan s')"

section \<open>Progress\<close>

text \<open>A token that is neither an error nor the end has used up a byte at least.\<close>

definition token_weight :: "token \<Rightarrow> nat" where
  "token_weight t = (if t = Tk_parse_error \<or> t = Tk_end_of_input then 0 else 1)"

lemma scan_string_loop_shorter: "scan_string_loop buf s = (t, r) \<Longrightarrow> length r \<le> length s"
proof (induction buf s rule: scan_string_loop.induct)
  case (2 buf c cs)
  then show ?case
    by (fastforce split: if_splits option.splits dest: scan_string_char_shorter)
qed simp

lemma scan_number_loop_shorter: "scan_number_loop st nt buf s = (t, r) \<Longrightarrow> length r \<le> length s"
proof (induction st nt buf s rule: scan_number_loop.induct)
  case (2 st nt buf c cs)
  then show ?case by (cases "number_step st (Some c)") auto
qed (auto split: number_move.splits)

lemma scan_literal_shorter: "scan_literal ls t s = (t', r) \<Longrightarrow> length r \<le> length s"
  by (induction ls t s rule: scan_literal.induct) (auto split: if_splits)

lemma scan_shorter:
  assumes "scan s = (t, r)"
  shows "2 * length r + token_weight t \<le> 2 * length s"
proof (cases "skip_whitespace s")
  case Nil
  with assms show ?thesis by (auto simp: scan_def token_weight_def)
next
  case (Cons c cs)
  have le: "length (skip_whitespace s) \<le> length s"
    by (simp add: skip_whitespace_def length_dropWhile_le)
  have "length r \<le> length cs"
    using assms Cons
    by (auto simp: scan_def scan_string_def scan_number_def split: if_splits
        dest: scan_string_loop_shorter scan_number_loop_shorter scan_literal_shorter)
  with le Cons show ?thesis by (simp add: token_weight_def)
qed

end
