(* ===== verification/Json_Parser.thy ===== *)
theory Json_Parser
  imports Json_Lexer
begin

text \<open>
  \<^verbatim>\<open>util/json.hpp\<close>: the values (\<^verbatim>\<open>basic_json\<close>), the SAX parser's loop and the handler that builds the
  value (\<^verbatim>\<open>json_sax_dom_parser\<close>), for a call of \<^verbatim>\<open>parse\<close> with its default arguments.
\<close>

text \<open>
  A value. An object is a \<^verbatim>\<open>std::map\<close>; integers are 64-bit patterns, read as signed in \<open>J_integer\<close>;
  a floating point number is the text it was read from.
\<close>

datatype json =
    J_null
  | J_boolean bool
  | J_string string
  | J_integer "64 word"
  | J_unsigned "64 word"
  | J_float string
  | J_array "json list"
  | J_object "(string \<times> json) list"

text \<open>
  The open containers, innermost first: what \<^verbatim>\<open>states\<close> and \<^verbatim>\<open>ref_stack\<close> remember together. An object
  also holds the key whose value is being read (\<^verbatim>\<open>object_element\<close>). The code puts a container into
  its parent when it opens and fills it through a pointer; here it is put there when it closes, which
  gives the same value, and a value that is never finished is thrown away with the exception.
\<close>

datatype sax_frame = F_array "json list" | F_object "(string \<times> json) list" string

text \<open>\<^verbatim>\<open>handle_value\<close> for a container on the stack, \<^verbatim>\<open>key\<close>, and the value of a container that closes.\<close>

fun handle_value :: "json \<Rightarrow> sax_frame \<Rightarrow> sax_frame" where
  "handle_value v (F_array js) = F_array (js @ [v])"
| "handle_value v (F_object m k) = F_object (map_put k v m) k"

definition start_object :: sax_frame where
  "start_object = F_object [] []"

definition start_array :: sax_frame where
  "start_array = F_array []"

fun object_key :: "string \<Rightarrow> sax_frame \<Rightarrow> sax_frame" where
  "object_key k (F_object m _) = F_object (map_put k J_null m) k"
| "object_key k (F_array js) = F_array js"

fun container :: "sax_frame \<Rightarrow> json" where
  "container (F_array js) = J_array js"
| "container (F_object m _) = J_object m"

datatype sax_result =
    Sax_continue "sax_frame list" token string
  | Sax_finished json string
  | Sax_failed fault

abbreviation parse_error_101 :: sax_result where
  "parse_error_101 \<equiv> Sax_failed (Json_exception 101)"

text \<open>
  The part of the loop after the \<^verbatim>\<open>switch\<close>: the value \<open>j\<close> has been parsed. It runs again after every
  closing bracket (\<^verbatim>\<open>skip_to_state_evaluation\<close>) until a value has to be read or the stack is empty.
\<close>

fun sax_state :: "json \<Rightarrow> sax_frame list \<Rightarrow> string \<Rightarrow> sax_result" where
  "sax_state j [] s = Sax_finished j s"
| "sax_state j (F_array js # states) s = (case scan s of
      (Tk_value_separator, s1) \<Rightarrow> (case scan s1 of (t, s2) \<Rightarrow> 
          Sax_continue (handle_value j (F_array js) # states) t s2)
    | (Tk_end_array, s1) \<Rightarrow> sax_state (container (handle_value j (F_array js))) states s1
    | _ \<Rightarrow> parse_error_101)"
| "sax_state j (F_object m k # states) s = (case scan s of
      (Tk_value_separator, s1) \<Rightarrow> (case scan s1 of
          (Tk_value_string k', s2) \<Rightarrow> (case scan s2 of
              (Tk_name_separator, s3) \<Rightarrow>
                (case scan s3 of (t, s4) \<Rightarrow>
                  Sax_continue (object_key k' (handle_value j (F_object m k)) # states) t s4)
            | _ \<Rightarrow> parse_error_101)
        | _ \<Rightarrow> parse_error_101)
    | (Tk_end_object, s1) \<Rightarrow> sax_state (container (handle_value j (F_object m k))) states s1
    | _ \<Rightarrow> parse_error_101)"

text \<open>
  Whether \<^verbatim>\<open>strtod\<close> gives an infinity: the decimal value rounds (to nearest) to \<open>2 ^ 1024\<close> or more.
  The text is that of a number the automaton has accepted.
\<close>

definition float_overflows :: "string \<Rightarrow> bool" where
  "float_overflows text =
     (let t = (case text of CHR ''-'' # u \<Rightarrow> u | _ \<Rightarrow> text);
          whole = takeWhile is_digit_char t;
          t1 = dropWhile is_digit_char t;
          frac = (case t1 of CHR ''.'' # u \<Rightarrow> takeWhile is_digit_char u | _ \<Rightarrow> []);
          t2 = (case t1 of CHR ''.'' # u \<Rightarrow> dropWhile is_digit_char u | _ \<Rightarrow> t1);
          mantissa = digits_val (whole @ frac);
          bound = 2 ^ 1024 - 2 ^ 970 :: nat
      in case split_sign (tl t2) of (neg, ds) \<Rightarrow>
        if neg then bound * 10 ^ (digits_val ds + length frac) \<le> mantissa
        else bound * 10 ^ length frac \<le> mantissa * 10 ^ digits_val ds)"

text \<open>The \<^verbatim>\<open>switch (last_token)\<close> at the head of the loop.\<close>

fun sax_value :: "sax_frame list \<Rightarrow> token \<Rightarrow> string \<Rightarrow> sax_result" where
  "sax_value states Tk_begin_object s = (case scan s of
      (Tk_end_object, s1) \<Rightarrow> sax_state (container start_object) states s1
    | (Tk_value_string k, s1) \<Rightarrow> (case scan s1 of
          (Tk_name_separator, s2) \<Rightarrow> 
            (case scan s2 of (t, s3) \<Rightarrow> Sax_continue (object_key k start_object # states) t s3)
        | _ \<Rightarrow> parse_error_101)
    | _ \<Rightarrow> parse_error_101)"
| "sax_value states Tk_begin_array s = (case scan s of
      (Tk_end_array, s1) \<Rightarrow> sax_state (container start_array) states s1
    | (t, s1) \<Rightarrow> Sax_continue (start_array # states) t s1)"
| "sax_value states (Tk_value_float f) s =
     (if float_overflows f then Sax_failed (Json_exception 406) else sax_state (J_float f) states s)"
| "sax_value states Tk_literal_false s = sax_state (J_boolean False) states s"
| "sax_value states Tk_literal_null s = sax_state J_null states s"
| "sax_value states Tk_literal_true s = sax_state (J_boolean True) states s"
| "sax_value states (Tk_value_integer w) s = sax_state (J_integer w) states s"
| "sax_value states (Tk_value_string v) s = sax_state (J_string v) states s"
| "sax_value states (Tk_value_unsigned w) s = sax_state (J_unsigned w) states s"
| "sax_value states Tk_parse_error s = parse_error_101"
| "sax_value states _ s = parse_error_101"

text \<open>Every round reads a token, so the loop ends.\<close>

lemma sax_state_shorter:
  "sax_state j states s = Sax_continue states' t s' \<Longrightarrow> 2 * length s' + token_weight t \<le> 2 * length s"
proof (induction j states s rule: sax_state.induct)
  case (2 j js states s)
  then show ?case
    by (auto split: prod.splits token.splits dest!: scan_shorter)
next
  case (3 j m k states s)
  then show ?case
    by (auto split: prod.splits token.splits dest!: scan_shorter)
qed simp

lemma sax_value_shorter:
  assumes "sax_value states t s = Sax_continue states' t' s'"
  shows "2 * length s' + token_weight t' < 2 * length s + token_weight t"
  using assms
  by (cases "(states, t, s)" rule: sax_value.cases)
    (auto simp: token_weight_def [of Tk_begin_object] token_weight_def [of Tk_begin_array]
      token_weight_def [of "Tk_value_float _"] token_weight_def [of Tk_literal_false]
      token_weight_def [of Tk_literal_null] token_weight_def [of Tk_literal_true]
      token_weight_def [of "Tk_value_integer _"] token_weight_def [of "Tk_value_string _"]
      token_weight_def [of "Tk_value_unsigned _"]
      split: prod.splits token.splits if_splits dest!: scan_shorter sax_state_shorter)

function sax_loop :: "sax_frame list \<Rightarrow> token \<Rightarrow> string \<Rightarrow> fault + json \<times> string" where
  "sax_loop states t s = (case sax_value states t s of
      Sax_continue states' t' s' \<Rightarrow> sax_loop states' t' s'
    | Sax_finished j s' \<Rightarrow> Inr (j, s')
    | Sax_failed e \<Rightarrow> Inl e)"
  by pat_completeness auto
termination
  by (relation "measure (\<lambda>(states, t, s). 2 * length s + token_weight t)") (auto dest: sax_value_shorter)

declare sax_loop.simps [simp del]

text \<open>\<^verbatim>\<open>json::parse\<close>: one value, and nothing but white space after it.\<close>

definition json_parse :: "string \<Rightarrow> fault + json" where
  "json_parse text = (case scan_first text of (t, s) \<Rightarrow>
     (case sax_loop [] t s of
        Inl e \<Rightarrow> Inl e
      | Inr (j, s') \<Rightarrow>
          if fst (scan s') \<noteq> Tk_end_of_input then Inl (Json_exception 101) else Inr j))"

section \<open>Properties\<close>

text \<open>
  C32: Every round of the parser's loop uses up input: the bytes left, counted twice, and the token in
  hand get less. So the loop ends on every input, well formed or not.
\<close>

theorem sax_round_consumes:
  assumes "sax_value states t s = Sax_continue states' t' s'"
  shows "2 * length s' + token_weight t' < 2 * length s + token_weight t"
  using assms by (rule sax_value_shorter)

theorem sax_round_consumes_witness:
  "2 * length '']'' + token_weight Tk_literal_null < 2 * length ''null]'' + token_weight Tk_begin_array"
  by (rule sax_round_consumes [of "[]" _ _ "[start_array]"])
    (simp add: scan_def skip_whitespace_def is_json_space_def)

end
