(* ===== verification/Json_Dump.thy ===== *)
theory Json_Dump
  imports Json_Parser
begin

text \<open>
  \<^verbatim>\<open>util/json.hpp\<close>, class \<^verbatim>\<open>serializer\<close>: the compact text of a value, as \<^verbatim>\<open>dump()\<close> writes it when it is
  called without arguments (no indentation, UTF-8 as it is, error handler \<^verbatim>\<open>strict\<close>). The output is
  the text written so far; on an exception it is lost with the stream.
\<close>

section \<open>Strings\<close>

text \<open>The table of the UTF-8 automaton: the types of the bytes, and the rows of its nine states.\<close>

definition utf8_types :: "nat list" where
  "utf8_types = replicate 128 0
     @ replicate 16 1 @ replicate 16 9 @ replicate 32 7
     @ [8, 8] @ replicate 30 2
     @ [0xA, 3, 3, 3, 3, 3, 3, 3, 3, 3, 3, 3, 3, 4, 3, 3]
     @ [0xB, 6, 6, 6, 5, 8, 8, 8, 8, 8, 8, 8, 8, 8, 8, 8]"

definition utf8_states :: "nat list" where
  "utf8_states =
     [0, 1, 2, 3, 5, 8, 7, 1, 1, 1, 4, 6, 1, 1, 1, 1,
      1, 1, 1, 1, 1, 1, 1, 1, 1, 1, 1, 1, 1, 1, 1, 1, 1, 0, 1, 1, 1, 1, 1, 0, 1, 0, 1, 1, 1, 1, 1, 1,
      1, 2, 1, 1, 1, 1, 1, 2, 1, 2, 1, 1, 1, 1, 1, 1, 1, 1, 1, 1, 1, 1, 1, 2, 1, 1, 1, 1, 1, 1, 1, 1,
      1, 2, 1, 1, 1, 1, 1, 1, 1, 2, 1, 1, 1, 1, 1, 1, 1, 1, 1, 1, 1, 1, 1, 3, 1, 3, 1, 1, 1, 1, 1, 1,
      1, 3, 1, 1, 1, 1, 1, 3, 1, 3, 1, 1, 1, 1, 1, 1, 1, 3, 1, 1, 1, 1, 1, 1, 1, 1, 1, 1, 1, 1, 1, 1]"

text \<open>
  One byte: the next state and code point. Between two accepted characters the code point has at
  most 21 bits, so its 32-bit arithmetic is that of natural numbers.
\<close>

definition utf8_state :: "nat \<Rightarrow> nat \<Rightarrow> nat" where
  "utf8_state state byte = utf8_states ! (state * 16 + utf8_types ! byte)"

definition decode :: "nat \<Rightarrow> nat \<Rightarrow> nat \<Rightarrow> nat \<times> nat" where
  "decode state codep byte =
     (utf8_state state byte,
      if state \<noteq> 0 then (byte AND 0x3F) OR push_bit 6 codep
      else drop_bit (utf8_types ! byte) 0xFF AND byte)"

definition hex_lower :: "nat \<Rightarrow> char" where
  "hex_lower d = (if d < 10 then char_of (0x30 + d) else char_of (0x57 + d))"

text \<open>\<^verbatim>\<open>snprintf "\u%04x"\<close> of a 16-bit number.\<close>

definition u_escape :: "nat \<Rightarrow> string" where
  "u_escape n = [CHR 0x5C, CHR ''u'', hex_lower (n div 4096 mod 16), hex_lower (n div 256 mod 16),
     hex_lower (n div 16 mod 16), hex_lower (n mod 16)]"

text \<open>What is written for an accepted code point, whose last byte is \<open>c\<close>.\<close>

definition escaped :: "bool \<Rightarrow> nat \<Rightarrow> char \<Rightarrow> string" where
  "escaped ensure_ascii cp c =
     (if cp = 0x08 then [CHR 0x5C, CHR ''b'']
      else if cp = 0x09 then [CHR 0x5C, CHR ''t'']
      else if cp = 0x0A then [CHR 0x5C, CHR ''n'']
      else if cp = 0x0C then [CHR 0x5C, CHR ''f'']
      else if cp = 0x0D then [CHR 0x5C, CHR ''r'']
      else if cp = 0x22 then [CHR 0x5C, CHR 0x22]
      else if cp = 0x5C then [CHR 0x5C, CHR 0x5C]
      else if cp \<le> 0x1F \<or> ensure_ascii \<and> 0x7F \<le> cp then
        (if cp \<le> 0xFFFF then u_escape cp
         else u_escape (0xD7C0 + drop_bit 10 cp) @ u_escape (0xDC00 + (cp AND 0x3FF)))
      else [c])"

datatype error_handler = Eh_strict | Eh_replace | Eh_ignore

definition replacement :: "bool \<Rightarrow> string" where
  "replacement ensure_ascii =
     (if ensure_ascii then [CHR 0x5C, CHR ''u'', CHR ''f'', CHR ''f'', CHR ''f'', CHR ''d'']
      else [CHR 0xEF, CHR 0xBF, CHR 0xBD])"

text \<open>
  The bytes of a character that is not complete yet are in the buffer already, unless only ASCII is
  written; \<open>accepted\<close> is what was written up to the last complete character
  (\<^verbatim>\<open>bytes_after_last_accept\<close>), \<open>undumped\<close> lists the bytes \<^verbatim>\<open>undumped_chars\<close> counts.
\<close>

definition in_buffer :: "bool \<Rightarrow> string \<Rightarrow> string" where
  "in_buffer ensure_ascii undumped = (if ensure_ascii then [] else undumped)"

function dump_escaped_loop ::
    "error_handler \<Rightarrow> bool \<Rightarrow> nat \<Rightarrow> nat \<Rightarrow> string \<Rightarrow> string \<Rightarrow> string \<Rightarrow> fault + string" where
  "dump_escaped_loop eh ensure_ascii state codepoint accepted undumped [] =
     (if state = 0 then Inr (accepted @ in_buffer ensure_ascii undumped)
      else (case eh of
          Eh_strict \<Rightarrow> Inl (Json_exception 316)
        | Eh_ignore \<Rightarrow> Inr accepted
        | Eh_replace \<Rightarrow> Inr (accepted @ replacement ensure_ascii)))"
| "dump_escaped_loop eh ensure_ascii state codepoint accepted undumped (c # cs) =
     (case decode state codepoint (byte_of c) of (state', codepoint') \<Rightarrow>
        if state' = 0 then
          dump_escaped_loop eh ensure_ascii state' codepoint'
            (accepted @ in_buffer ensure_ascii undumped @ escaped ensure_ascii codepoint' c) [] cs
        else if state' = 1 then
          (if eh = Eh_strict then Inl (Json_exception 316)
           else dump_escaped_loop eh ensure_ascii 0 codepoint'
             (accepted @ (if eh = Eh_replace then replacement ensure_ascii else []))
             [] (if undumped \<noteq> [] then c # cs else cs))
        else dump_escaped_loop eh ensure_ascii state' codepoint' accepted (undumped @ [c]) cs)"
  by pat_completeness auto
termination
  by (relation "measures [\<lambda>(eh, ea, st, cp, acc, und, s). length s, \<lambda>(eh, ea, st, cp, acc, und, s). length und]")
    auto

definition dump_escaped :: "error_handler \<Rightarrow> bool \<Rightarrow> string \<Rightarrow> fault + string" where
  "dump_escaped eh ensure_ascii s = dump_escaped_loop eh ensure_ascii 0 0 [] [] s"

section \<open>Integers\<close>

definition digits_to_99 :: "nat \<Rightarrow> char list" where
  "digits_to_99 i = [digit_char (i div 10), digit_char (i mod 10)]"

text \<open>The loop that writes backwards, two digits at a time.\<close>

function dump_digits :: "nat \<Rightarrow> string \<Rightarrow> string" where
  "dump_digits abs_value buffer =
     (if 100 \<le> abs_value then dump_digits (abs_value div 100) (digits_to_99 (abs_value mod 100) @ buffer)
      else if 10 \<le> abs_value then digits_to_99 abs_value @ buffer
      else digit_char abs_value # buffer)"
  by pat_completeness auto
termination by (relation "measure fst") auto

declare dump_digits.simps [simp del]

definition remove_sign :: "64 word \<Rightarrow> 64 word" where
  "remove_sign x = - (x + 1) + 1"

definition dump_unsigned :: "64 word \<Rightarrow> string" where
  "dump_unsigned x = (if x = 0 then ''0'' else dump_digits (unat x) [])"

definition dump_integer :: "64 word \<Rightarrow> string" where
  "dump_integer x =
     (if x = 0 then ''0''
      else if sint x < 0 then CHR ''-'' # dump_digits (unat (remove_sign x)) []
      else dump_digits (unat x) [])"

section \<open>Values\<close>

text \<open>\<open>df\<close> is \<^verbatim>\<open>dump_float\<close> (Grisu2), which is not modelled: it is not reached in this program.\<close>

fun dump :: "(string \<Rightarrow> string) \<Rightarrow> json \<Rightarrow> fault + string"
  and dump_elements :: "(string \<Rightarrow> string) \<Rightarrow> json list \<Rightarrow> fault + string"
  and dump_members :: "(string \<Rightarrow> string) \<Rightarrow> (string \<times> json) list \<Rightarrow> fault + string" where
  "dump df (J_object m) =
     (if m = [] then Inr ''{}''
      else (case dump_members df m of Inl e \<Rightarrow> Inl e | Inr t \<Rightarrow> Inr (CHR ''{'' # t @ ''}'')))"
| "dump df (J_array js) =
     (if js = [] then Inr ''[]''
      else (case dump_elements df js of Inl e \<Rightarrow> Inl e | Inr t \<Rightarrow> Inr (CHR ''['' # t @ '']'')))"
| "dump df (J_string s) = (case dump_escaped Eh_strict False s of
      Inl e \<Rightarrow> Inl e
    | Inr t \<Rightarrow> Inr (CHR 0x22 # t @ [CHR 0x22]))"
| "dump df (J_boolean b) = Inr (if b then ''true'' else ''false'')"
| "dump df (J_integer x) = Inr (dump_integer x)"
| "dump df (J_unsigned x) = Inr (dump_unsigned x)"
| "dump df (J_float f) = Inr (df f)"
| "dump df J_null = Inr ''null''"
| "dump_elements df [] = Inr []"
| "dump_elements df (j # js) = (case dump df j of
      Inl e \<Rightarrow> Inl e
    | Inr t \<Rightarrow>
        if js = [] then Inr t
        else (case dump_elements df js of Inl e \<Rightarrow> Inl e | Inr u \<Rightarrow> Inr (t @ CHR '','' # u)))"
| "dump_members df [] = Inr []"
| "dump_members df ((k, j) # m) = (case dump_escaped Eh_strict False k of
      Inl e \<Rightarrow> Inl e
    | Inr q \<Rightarrow> (case dump df j of
          Inl e \<Rightarrow> Inl e
        | Inr t \<Rightarrow>
            (let kt = CHR 0x22 # q @ CHR 0x22 # CHR '':'' # t in
             if m = [] then Inr kt
             else (case dump_members df m of Inl e \<Rightarrow> Inl e | Inr u \<Rightarrow> Inr (kt @ CHR '','' # u)))))"

section \<open>Integers are written in decimal\<close>

text \<open>The number of characters the buffer is advanced by before it is filled backwards.\<close>

function count_digits :: "nat \<Rightarrow> nat" where
  "count_digits x =
     (if x < 10 then 1 else if x < 100 then 2 else if x < 1000 then 3 else if x < 10000 then 4
      else count_digits (x div 10000) + 4)"
  by pat_completeness auto
termination by (relation "measure id") auto

declare count_digits.simps [simp del]

lemma decimal_two: "10 \<le> n \<Longrightarrow> n < 100 \<Longrightarrow> decimal n = digits_to_99 n"
  by (simp add: decimal.simps [of n] decimal.simps [of "n div 10"] digits_to_99_def)

lemma decimal_hundred:
  "100 \<le> n \<Longrightarrow> decimal n = decimal (n div 100) @ digits_to_99 (n mod 100)"
  by (simp add: decimal.simps [of n] decimal.simps [of "n div 10"] digits_to_99_def
      div_mult2_eq [symmetric] mod_mult2_eq [of n 10 10, simplified])

lemma dump_digits_decimal: "dump_digits n buffer = decimal n @ buffer"
proof (induction n buffer rule: dump_digits.induct)
  case (1 n buffer)
  show ?case
  proof (cases "100 \<le> n")
    case True
    with 1 show ?thesis by (subst dump_digits.simps) (simp add: decimal_hundred [of n])
  next
    case False
    then show ?thesis
      using decimal_two [of n] by (cases "10 \<le> n") (simp_all add: dump_digits.simps [of n] decimal.simps [of n] not_le)
  qed
qed

lemma dump_unsigned_decimal: "dump_unsigned x = decimal (unat x)"
proof (cases "x = 0")
  case True
  have "decimal 0 = ''0''" by code_simp
  with True show ?thesis by (simp add: dump_unsigned_def)
next
  case False
  then show ?thesis by (simp add: dump_unsigned_def dump_digits_decimal)
qed

lemma dump_integer_decimal:
  "dump_integer x = (if sint x < 0 then CHR ''-'' # decimal (unat (- x)) else decimal (unat x))"
proof -
  have "- (x + 1) + 1 = - x" by simp
  then show ?thesis
    using dump_unsigned_decimal [of x]
    by (auto simp: dump_integer_def dump_unsigned_def remove_sign_def dump_digits_decimal)
qed

lemma length_decimal: "length (decimal n) = (if n < 10 then 1 else Suc (length (decimal (n div 10))))"
  by (subst decimal.simps) simp

lemma count_digits_length: "count_digits n = length (decimal n)"
proof (induction n rule: count_digits.induct)
  case (1 n)
  have four: "length (decimal n) = length (decimal (n div 10000)) + 4" if "10000 \<le> n"
  proof -
    from that have "1000 \<le> n div 10" "100 \<le> n div 100" "10 \<le> n div 1000"
      by (simp_all add: less_eq_div_iff_mult_less_eq)
    with that show ?thesis
      by (simp add: length_decimal [of n] length_decimal [of "n div 10"]
        length_decimal [of "n div 100"] length_decimal [of "n div 1000"] div_mult2_eq [symmetric])
  qed
  show ?case
  proof (cases "n < 10000")
    case True
    have "n div 10 < 10 \<longleftrightarrow> n < 100" "n div 100 < 10 \<longleftrightarrow> n < 1000" "n div 1000 < 10 \<longleftrightarrow> n < 10000"
      by (simp_all add: div_less_iff_less_mult)
    with True show ?thesis
      by (simp add: count_digits.simps [of n] length_decimal [of n] length_decimal [of "n div 10"]
          length_decimal [of "n div 100"] length_decimal [of "n div 1000"] div_mult2_eq [symmetric])
  next
    case False
    with 1 four show ?thesis by (subst count_digits.simps) simp
  qed
qed

section \<open>The automaton against the ranges of the lexer\<close>

text \<open>The ranges of the bytes an automaton state is still waiting for.\<close>

definition pending :: "nat \<Rightarrow> (nat \<times> nat) list" where
  "pending state =
     (if state = 2 then [(0x80, 0xBF)]
      else if state = 3 then [(0x80, 0xBF), (0x80, 0xBF)]
      else if state = 4 then [(0xA0, 0xBF), (0x80, 0xBF)]
      else if state = 5 then [(0x80, 0x9F), (0x80, 0xBF)]
      else if state = 6 then [(0x90, 0xBF), (0x80, 0xBF), (0x80, 0xBF)]
      else if state = 7 then [(0x80, 0xBF), (0x80, 0xBF), (0x80, 0xBF)]
      else if state = 8 then [(0x80, 0x8F), (0x80, 0xBF), (0x80, 0xBF)]
      else [])"

text \<open>A bound for the code point read so far, so that the finished one is not below 0x80.\<close>

definition codep_bound :: "nat \<Rightarrow> nat" where
  "codep_bound state = (if state = 2 then 2 else if state = 4 \<or> state = 6 then 0 else 1)"

text \<open>The first half of the table, by ranges.\<close>

definition utf8_type :: "nat \<Rightarrow> nat" where
  "utf8_type b =
     (if b < 0x80 then 0 else if b < 0x90 then 1 else if b < 0xA0 then 9 else if b < 0xC0 then 7
      else if b < 0xC2 then 8 else if b < 0xE0 then 2 else if b = 0xE0 then 0xA else if b = 0xED then 4
      else if b < 0xF0 then 3 else if b = 0xF0 then 0xB else if b < 0xF4 then 6
      else if b = 0xF4 then 5 else 8)"

lemma utf8_type_high:
  "list_all (\<lambda>k. [0xA, 3, 3, 3, 3, 3, 3, 3, 3, 3, 3, 3, 3, 4, 3, 3,
      0xB, 6, 6, 6, 5, 8, 8, 8, 8, 8, 8, 8, 8, 8, 8, 8] ! k = utf8_type (224 + k)) [0..<32]"
  by (simp add: utf8_type_def upt_rec)

lemma utf8_types_nth: "b < 256 \<Longrightarrow> utf8_types ! b = utf8_type b"
proof (cases "b < 224")
  case True
  then show ?thesis
    by (auto simp: utf8_types_def utf8_type_def nth_append nth_Cons' split: if_splits)
next
  case False
  assume "b < 256"
  with False have "b - 224 < 32" by simp
  with utf8_type_high have "[0xA, 3, 3, 3, 3, 3, 3, 3, 3, 3, 3, 3, 3, 4, 3, 3,
      0xB, 6, 6, 6, 5, 8, 8, 8, 8, 8, 8, 8, 8, 8, 8, 8] ! (b - 224) = utf8_type (224 + (b - 224))"
    unfolding list_all_iff by (simp del: nth_Cons_numeral)
  with False show ?thesis
    by (auto simp: utf8_types_def nth_append)
qed

lemma and_63: "(b AND 0x3F :: nat) = b mod 64"
proof -
  have "(0x3F :: nat) = mask 6" by code_simp
  then have "b AND 0x3F = take_bit 6 b" by (simp add: take_bit_eq_mask)
  then show ?thesis by (simp add: take_bit_eq_mod)
qed

lemma and_255: "(0xFF AND b :: nat) = b mod 256"
proof -
  have "(0xFF :: nat) = mask 8" by code_simp
  then have "0xFF AND b = take_bit 8 b" by (simp add: take_bit_eq_mask and.commute)
  then show ?thesis by (simp add: take_bit_eq_mod)
qed

lemma lead_code: "drop_bit n 0xFF AND b = (b mod 2 ^ (8 - n) :: nat)"
proof -
  have "drop_bit n 0xFF = (mask (8 - n) :: nat)"
    using drop_bit_mask_eq [of n 8, where 'a = nat] by (simp add: mask_eq_exp_minus_1)
  then have "drop_bit n 0xFF AND b = take_bit (8 - n) b"
    by (simp add: take_bit_eq_mask and.commute)
  then show ?thesis by (simp add: take_bit_eq_mod)
qed

lemma next_code: "(b AND 0x3F) OR push_bit 6 cp = (b mod 64 + cp * 64 :: nat)"
proof -
  have "(b AND 0x3F) = take_bit 6 b" by (simp add: and_63 take_bit_eq_mod)
  moreover have "take_bit 6 b AND push_bit 6 cp = 0"
    by (rule bit_eqI) (auto simp: bit_simps)
  then have "take_bit 6 b OR push_bit 6 cp = take_bit 6 b + push_bit 6 cp"
    by (simp add: disjunctive_add_eq_or)
  ultimately show ?thesis by (simp add: take_bit_eq_mod push_bit_eq_mult)
qed

text \<open>The second half of the table, by rows.\<close>

lemma first_row:
  "t < 12 \<Longrightarrow> utf8_states ! t =
     (if t = 0 then 0 else if t = 2 then 2 else if t = 3 then 3 else if t = 4 then 5 else if t = 5 then 8
      else if t = 6 then 7 else if t = 10 then 4 else if t = 11 then 6 else 1)"
proof -
  have "list_all (\<lambda>t. utf8_states ! t =
     (if t = 0 then 0 else if t = 2 then 2 else if t = 3 then 3 else if t = 4 then 5 else if t = 5 then 8
      else if t = 6 then 7 else if t = 10 then 4 else if t = 11 then 6 else 1)) [0..<12]"
    by code_simp
  then show "t < 12 \<Longrightarrow> ?thesis" unfolding list_all_iff by simp
qed

lemma other_rows:
  assumes "state \<in> {2..8}" and "t < 12"
  shows "utf8_states ! (state * 16 + t) =
     (if t = 1 then [0, 2, 1, 2, 1, 3, 3] ! (state - 2)
      else if t = 9 then [0, 2, 1, 2, 3, 3, 1] ! (state - 2)
      else if t = 7 then [0, 2, 2, 1, 3, 3, 1] ! (state - 2)
      else 1)"
proof -
  have "list_all (\<lambda>state. list_all (\<lambda>t. utf8_states ! (state * 16 + t) =
     (if t = 1 then [0, 2, 1, 2, 1, 3, 3] ! (state - 2)
      else if t = 9 then [0, 2, 1, 2, 3, 3, 1] ! (state - 2)
      else if t = 7 then [0, 2, 2, 1, 3, 3, 1] ! (state - 2)
      else 1)) [0..<12]) [2..<9]"
    by code_simp
  with assms show ?thesis unfolding list_all_iff by (simp only: set_upt atLeastLessThan_iff) simp
qed

lemma utf8_type_less: "utf8_type b < 12"
  by (simp add: utf8_type_def)

lemma utf8_state_first:
  assumes "b < 256"
  shows "utf8_state 0 b =
     (if b < 0x80 then 0 else if b < 0xC2 then 1 else if b < 0xE0 then 2 else if b = 0xE0 then 4
      else if b = 0xED then 5 else if b < 0xF0 then 3 else if b = 0xF0 then 6 else if b < 0xF4 then 7
      else if b = 0xF4 then 8 else 1)"
proof -
  obtain t where t: "utf8_type b = t" by simp
  then have u: "utf8_state 0 b = utf8_states ! t" using assms by (simp add: utf8_state_def utf8_types_nth)
  from t show ?thesis
    unfolding u by (auto simp: utf8_type_def first_row split: if_splits)
qed

lemma utf8_state_next:
  "b < 256 \<Longrightarrow> state \<in> {2..8} \<Longrightarrow> utf8_state state b =
     (if b < 0x80 then 1 else if b < 0x90 then [0, 2, 1, 2, 1, 3, 3] ! (state - 2)
      else if b < 0xA0 then [0, 2, 1, 2, 3, 3, 1] ! (state - 2)
      else if b < 0xC0 then [0, 2, 2, 1, 3, 3, 1] ! (state - 2)
      else 1)"
  by (simp only: utf8_state_def utf8_types_nth other_rows utf8_type_less) (simp add: utf8_type_def)

lemma lead_state:
  assumes "128 \<le> b" and "b < 256"
  shows "lead_ranges b = None \<Longrightarrow> utf8_state 0 b = 1"
    and "lead_ranges b = Some rs \<Longrightarrow> pending (utf8_state 0 b) = rs \<and> utf8_state 0 b \<in> {2..8}"
  using assms
  by (auto simp: lead_ranges_def utf8_state_first pending_def split: if_splits)

lemma lead_bound:
  assumes "lead_ranges b = Some rs"
  shows "codep_bound (utf8_state 0 b) \<le> snd (decode 0 cp b)"
proof -
  have b: "0xC2 \<le> b" "b < 256" using assms by (auto simp: lead_ranges_def split: if_splits)
  then have d: "snd (decode 0 cp b) = b mod 2 ^ (8 - utf8_type b)"
    by (simp add: decode_def lead_code utf8_types_nth)
  from assms b consider "b \<le> 0xDF" | "b = 0xE0 \<or> b = 0xF0" | "0xE1 \<le> b" "b < 0xF0" "b \<noteq> 0xED"
    | "b \<in> {0xED, 0xF1, 0xF2, 0xF3, 0xF4}"
    by (fastforce simp: lead_ranges_def split: if_splits)
  then show ?thesis
  proof cases
    case 1
    with b have "b mod 64 = b - 192" using mod_mult_self1 [of "b - 192" 3 64] by simp
    moreover from 1 b have "utf8_type b = 2" "utf8_state 0 b = 2"
      by (simp_all add: utf8_type_def utf8_state_first)
    ultimately show ?thesis using b(1) unfolding d by (simp add: codep_bound_def)
  next
    case 2
    with d show ?thesis by (auto simp: utf8_state_first codep_bound_def)
  next
    case 3
    then have "b mod 32 = b - 224" using mod_mult_self1 [of "b - 224" 7 32] by simp
    moreover from 3 have "utf8_type b = 3" "utf8_state 0 b = 3"
      by (simp_all add: utf8_type_def utf8_state_first)
    ultimately show ?thesis using 3 unfolding d by (simp add: codep_bound_def)
  next
    case 4
    then show ?thesis unfolding d
      by (elim insertE) (simp_all add: utf8_state_first codep_bound_def utf8_type_def)
  qed
qed

lemma ascii_state: "b < 128 \<Longrightarrow> decode 0 cp b = (0, b)"
  by (simp add: decode_def utf8_state_first utf8_types_nth utf8_type_def and_255)

lemma next_state_accepted:
  assumes "state \<in> {2..8}" and "b < 256" and "pending state = (lo, hi) # rs" and "lo \<le> b" and "b \<le> hi"
  shows "utf8_state state b = [0, 2, 2, 2, 3, 3, 3] ! (state - 2)"
proof -
  from assms(1) consider "state = 2" | "state = 3" | "state = 4" | "state = 5" | "state = 6"
    | "state = 7" | "state = 8" by fastforce
  then show ?thesis
    using assms(2-) by cases (auto simp: utf8_state_next pending_def)
qed

lemma next_state_rejected:
  assumes "state \<in> {2..8}" and "b < 256" and "pending state = (lo, hi) # rs" and "\<not> (lo \<le> b \<and> b \<le> hi)"
  shows "utf8_state state b = 1"
proof -
  from assms(1) consider "state = 2" | "state = 3" | "state = 4" | "state = 5" | "state = 6"
    | "state = 7" | "state = 8" by fastforce
  then show ?thesis
    using assms(2-) by cases (auto simp: utf8_state_next pending_def)
qed

lemma next_state:
  assumes "state \<in> {2..8}" and "b < 256" and "pending state = (lo, hi) # rs"
  shows "if lo \<le> b \<and> b \<le> hi
    then pending (utf8_state state b) = rs \<and> utf8_state state b \<in> insert 0 {2..8}
    else utf8_state state b = 1"
proof (cases "lo \<le> b \<and> b \<le> hi")
  case True
  with assms have u: "utf8_state state b = [0, 2, 2, 2, 3, 3, 3] ! (state - 2)"
    by (simp only: next_state_accepted)
  from assms(1) consider "state = 2" | "state = 3" | "state = 4" | "state = 5" | "state = 6"
    | "state = 7" | "state = 8" by fastforce
  then show ?thesis
    using assms(3) True unfolding u by cases (simp_all add: pending_def)
next
  case False
  with next_state_rejected [OF assms False] show ?thesis by simp
qed

lemma next_bound:
  assumes "state \<in> {2..8}" and "b < 256" and "codep_bound state \<le> cp"
    and "pending state = (lo, hi) # rs" and "lo \<le> b" and "b \<le> hi"
  shows "if utf8_state state b = 0 then 0x80 \<le> snd (decode state cp b)
    else codep_bound (utf8_state state b) \<le> snd (decode state cp b)"
proof -
  have d: "snd (decode state cp b) = b mod 64 + cp * 64"
    using assms(1) by (simp add: decode_def next_code)
  obtain m where m: "m = b mod 64" by simp
  have sub: "m = b - 128" if "128 \<le> b" and "b < 192"
    using that mod_mult_self1 [of "b - 128" 2 64] by (simp add: m)
  have m4: "32 \<le> m" if "state = 4"
    using that assms(4-) sub by (simp add: pending_def)
  have m6: "16 \<le> m" if "state = 6"
    using that assms(4-) sub by (simp add: pending_def)
  note st = next_state_accepted [OF assms(1,2,4,5,6)]
  from assms(1) consider "state = 2" | "state = 3" | "state = 4" | "state = 5" | "state = 6"
    | "state = 7" | "state = 8" by fastforce
  then show ?thesis
    unfolding d st m [symmetric] using assms(3) m4 m6
    by cases (simp_all add: codep_bound_def)
qed

end
