(* ===== verification/Json_Value.thy ===== *)
theory Json_Value
  imports Json_Parser
begin

text \<open>
  \<^verbatim>\<open>util/json.hpp\<close>: the operations on values that the program uses: \<^verbatim>\<open>operator[]\<close> with a key, iteration
  and \<^verbatim>\<open>items()\<close>, the conversion to \<^verbatim>\<open>std::string\<close>, and the construction from maps and vectors.
\<close>

text \<open>
  \<^verbatim>\<open>j[key]\<close>: the value (first inserted as null if the key is absent) and what has become of \<^verbatim>\<open>j\<close>.
\<close>

fun json_index :: "string \<Rightarrow> json \<Rightarrow> fault + json \<times> json" where
  "json_index key J_null = Inr (J_null, J_object [(key, J_null)])"
| "json_index key (J_object m) = (case map_of m key of
      Some v \<Rightarrow> Inr (v, J_object m)
    | None \<Rightarrow> Inr (J_null, J_object (map_put key J_null m)))"
| "json_index key _ = Inl (Json_exception 305)"

text \<open>\<^verbatim>\<open>j[key] = v\<close>\<close>

fun json_assign :: "string \<Rightarrow> json \<Rightarrow> json \<Rightarrow> fault + json" where
  "json_assign key v J_null = Inr (J_object [(key, v)])"
| "json_assign key v (J_object m) = Inr (J_object (map_put key v m))"
| "json_assign key v _ = Inl (Json_exception 305)"

text \<open>What a range-based \<^verbatim>\<open>for\<close> visits, and the keys \<^verbatim>\<open>items()\<close> pairs it with.\<close>

fun json_values :: "json \<Rightarrow> json list" where
  "json_values (J_object m) = map snd m"
| "json_values (J_array js) = js"
| "json_values J_null = []"
| "json_values j = [j]"

fun json_items :: "json \<Rightarrow> (string \<times> json) list" where
  "json_items (J_object m) = m"
| "json_items (J_array js) = zip (map decimal [0..<length js]) js"
| "json_items j = map (\<lambda>v. ([], v)) (json_values j)"

fun json_get_string :: "json \<Rightarrow> fault + string" where
  "json_get_string (J_string s) = Inr s"
| "json_get_string _ = Inl (Json_exception 302)"

text \<open>\<^verbatim>\<open>json(std::map<std::string, std::string>)\<close> and \<^verbatim>\<open>json(std::vector)\<close> of such maps.\<close>

definition json_of_map :: "(string, string) std_map \<Rightarrow> json" where
  "json_of_map m = J_object (map (map_prod id J_string) m)"

definition json_of_maps :: "(string, string) std_map list \<Rightarrow> json" where
  "json_of_maps ms = J_array (map json_of_map ms)"

lemma json_items_values: "map snd (json_items j) = json_values j"
  by (cases j) (simp_all add: comp_def)

lemma json_assign_index:
  "json_assign key v j = Inr j' \<Longrightarrow> json_index key j' = Inr (v, j')"
  by (cases j) (auto split: option.splits)

end
