(* ===== verification/Json_Roundtrip.thy ===== *)
theory Json_Roundtrip
  imports Json_Dump Json_Value
begin

text \<open>
  What the serializer writes, the parser reads back: the automaton of \<^verbatim>\<open>dump_escaped\<close> accepts exactly
  what \<^verbatim>\<open>scan_string\<close> accepts, and the text of a value is parsed to that value.
\<close>

section \<open>One character\<close>

lemma add_codepoint_ascii: "n < 0x80 \<Longrightarrow> add_codepoint n = [char_of n]"
  by (simp add: add_codepoint_def)

lemma hex_digit_lower: "d < 16 \<Longrightarrow> hex_digit (hex_lower d) = Some d"
  by (auto simp: hex_digit_def hex_lower_def Let_def)

lemma u_escape_scans:
  assumes "n \<le> 0x1F"
  shows "scan_escape (tl (u_escape n) @ rest) = Some ([char_of n], rest)"
proof -
  have "get_codepoint (tl (tl (u_escape n)) @ rest) = Some (n, rest)"
    using assms by (simp add: get_codepoint_def u_escape_def hex_digit_lower push_bit_eq_mult)
  with assms show ?thesis
    by (simp add: u_escape_def scan_unicode_escape_def add_codepoint_ascii)
qed

text \<open>A byte below 0x80 is written as something the lexer reads as that byte.\<close>

lemma ascii_scans:
  assumes "byte_of c < 128"
  obtains e es where "escaped False (byte_of c) c = e # es" and "e \<noteq> CHR 0x22"
    and "\<And>rest. scan_string_char e (es @ rest) = Some ([c], rest)"
proof (cases "byte_of c \<in> {0x08, 0x09, 0x0A, 0x0C, 0x0D, 0x22, 0x5C}")
  case True
  then have "c \<in> {CHR 0x08, CHR 0x09, CHR 0x0A, CHR 0x0C, CHR 0x0D, CHR 0x22, CHR 0x5C}"
    unfolding insert_iff empty_iff of_char_eq_iff [where 'a = nat, symmetric] by simp
  then show ?thesis
    by (intro that [of "CHR 0x5C" "tl (escaped False (byte_of c) c)"]) (auto simp: escaped_def scan_string_char_def)
next
  case special: False
  show ?thesis
  proof (cases "byte_of c \<le> 0x1F")
    case True
    with special have "escaped False (byte_of c) c = CHR 0x5C # tl (u_escape (byte_of c))"
      by (simp add: escaped_def u_escape_def)
    with True show ?thesis
      by (intro that) (auto simp: scan_string_char_def u_escape_scans)
  next
    case False
    with special have "escaped False (byte_of c) c = [c]" and "c \<noteq> CHR 0x22" and "c \<noteq> CHR 0x5C"
      by (auto simp: escaped_def)
    moreover from False special assms have "plain_byte (byte_of c)" and "\<not> control_byte (byte_of c)"
      by (simp_all add: plain_byte_def control_byte_def)
    ultimately show ?thesis by (intro that) (auto simp: scan_string_char_def)
  qed
qed

section \<open>Strings\<close>

lemma next_byte_spec:
  "next_byte_in_range rs s = Some (bs, r) \<Longrightarrow>
     s = bs @ r \<and> (\<forall>rest. next_byte_in_range rs (bs @ rest) = Some (bs, rest))"
  by (induction rs s arbitrary: bs rule: next_byte_in_range.induct) (auto split: if_splits option.splits)

lemma next_byte_Cons:
  "next_byte_in_range ((lo, hi) # rs) (c # cs) = Some (bs, r) \<longleftrightarrow>
     lo \<le> byte_of c \<and> byte_of c \<le> hi \<and>
     (\<exists>bs'. bs = c # bs' \<and> next_byte_in_range rs cs = Some (bs', r))"
  by (auto split: option.splits)

lemma pending_Nil: "state \<in> {2..8} \<Longrightarrow> pending state \<noteq> []"
  by (auto simp: pending_def)

lemma decode_at_0: "decode 0 cp b = decode 0 cp' b"
  by (simp add: decode_def)

lemma loop_at_0: "dump_escaped_loop eh ea 0 cp acc und s = dump_escaped_loop eh ea 0 cp' acc und s"
  by (cases s) (simp_all add: decode_at_0 [of cp _ cp'])

lemma byte_less_256 [simp]: "byte_of c < 256"
  by (simp add: of_char_def)

text \<open>
  From a lead byte on the automaton accepts what the lexer's ranges accept, and copies the bytes.
\<close>

lemma loop_pending:
  assumes "state \<in> {2..8}" and "codep_bound state \<le> cp"
  shows "dump_escaped_loop Eh_strict False state cp acc und s = (case next_byte_in_range (pending state) s of
      None \<Rightarrow> Inl (Json_exception 316)
    | Some (bs, r) \<Rightarrow> dump_escaped_loop Eh_strict False 0 0 (acc @ und @ bs) [] r)"
  using assms
proof (induction s arbitrary: state cp und)
  case Nil
  then show ?case using pending_Nil [OF Nil.prems(1)] by (cases "pending state") auto
next
  case (Cons c cs)
  obtain lo hi rs where p: "pending state = (lo, hi) # rs"
    using pending_Nil [OF Cons.prems(1)] by (cases "pending state") auto
  obtain state' cp' where d: "decode state cp (byte_of c) = (state', cp')" by fastforce
  then have state': "state' = utf8_state state (byte_of c)" by (simp add: decode_def)
  note next_state = next_state [OF Cons.prems(1) byte_less_256 p, of c]
  show ?case
  proof (cases "lo \<le> byte_of c \<and> byte_of c \<le> hi")
    case False
    with next_state state' d p show ?thesis by auto
  next
    case range: True
    with next_state state' have step: "pending state' = rs" "state' = 0 \<or> state' \<in> {2..8}" by auto
    note bound = next_bound [OF Cons.prems(1) byte_less_256 Cons.prems(2) p, of c]
    show ?thesis
    proof (cases "state' = 0")
      case True
      with bound range d state' have "0x80 \<le> cp'" by simp
      then have "escaped False cp' c = [c]" by (simp add: escaped_def)
      moreover from True step have "rs = []" by (simp add: pending_def)
      ultimately show ?thesis
        using p range d True by (simp add: in_buffer_def loop_at_0 [of _ _ cp' _ _ _ 0])
    next
      case False
      with step have st: "state' \<in> {2..8}" by simp
      moreover from False bound range d state' have "codep_bound state' \<le> cp'" by simp
      ultimately show ?thesis
        using Cons.IH [of state' cp' "und @ [c]"] p range d step(1) by (auto split: option.splits)
    qed
  qed
qed

lemma loop_at_lead:
  assumes "128 \<le> byte_of c"
  shows "dump_escaped_loop Eh_strict False 0 cp acc [] (c # cs) = (case lead_ranges (byte_of c) of
      None \<Rightarrow> Inl (Json_exception 316)
    | Some rs \<Rightarrow> (case next_byte_in_range rs cs of
          None \<Rightarrow> Inl (Json_exception 316)
        | Some (bs, r) \<Rightarrow> dump_escaped_loop Eh_strict False 0 0 (acc @ c # bs) [] r))"
proof -
  obtain state' cp' where d: "decode 0 cp (byte_of c) = (state', cp')" by fastforce
  then have state': "state' = utf8_state 0 (byte_of c)" by (simp add: decode_def)
  show ?thesis
  proof (cases "lead_ranges (byte_of c)")
    case None
    with lead_state(1) [OF assms byte_less_256] d state' show ?thesis by simp
  next
    case (Some rs)
    with lead_state(2) [OF assms byte_less_256] state' have st: "pending state' = rs" "state' \<in> {2..8}" by auto
    moreover from lead_bound [OF Some, of cp] d state' have "codep_bound state' \<le> cp'" by simp
    ultimately show ?thesis
      using loop_pending [of state' cp' acc "[c]" cs] d Some by (auto split: option.splits)
  qed
qed

text \<open>The text of a string is scanned back to it.\<close>

lemma loop_scans:
  "dump_escaped_loop Eh_strict False 0 cp acc [] s = Inr out \<Longrightarrow>
     \<exists>u. out = acc @ u \<and>
       (\<forall>buf rest. scan_string_loop buf (u @ CHR 0x22 # rest) = (Tk_value_string (buf @ s), rest))"
proof (induction "length s" arbitrary: s cp acc rule: less_induct)
  case less
  show ?case
  proof (cases s)
    case Nil
    with less.prems show ?thesis by (simp add: in_buffer_def)
  next
    case (Cons c cs)
    show ?thesis
    proof (cases "byte_of c < 128")
      case True
      then obtain e es where e: "escaped False (byte_of c) c = e # es" "e \<noteq> CHR 0x22"
        "\<And>rest. scan_string_char e (es @ rest) = Some ([c], rest)"
        using ascii_scans [of c] by metis
      from less.prems Cons True
      have "dump_escaped_loop Eh_strict False 0 (byte_of c) (acc @ e # es) [] cs = Inr out"
        by (simp add: ascii_state e in_buffer_def)
      with less.hyps [of cs] Cons obtain u where t: "out = (acc @ e # es) @ u"
        "\<And>buf rest. scan_string_loop buf (u @ CHR 0x22 # rest) = (Tk_value_string (buf @ cs), rest)"
        by fastforce
      with e Cons show ?thesis by (intro exI [of _ "e # es @ u"]) simp
    next
      case False
      with less.prems Cons obtain rs bs r where rs: "lead_ranges (byte_of c) = Some rs"
        and n: "next_byte_in_range rs cs = Some (bs, r)"
        and run: "dump_escaped_loop Eh_strict False 0 0 (acc @ c # bs) [] r = Inr out"
        by (auto simp: loop_at_lead simp del: dump_escaped_loop.simps split: option.splits)
      from next_byte_spec [OF n] have cs: "cs = bs @ r"
        "\<And>rest. next_byte_in_range rs (bs @ rest) = Some (bs, rest)" by auto
      from less.hyps [OF _ run] Cons cs(1) obtain u where t: "out = (acc @ c # bs) @ u"
        "\<And>buf rest. scan_string_loop buf (u @ CHR 0x22 # rest) = (Tk_value_string (buf @ r), rest)"
        by auto
      from False have "c \<noteq> CHR 0x22" and "c \<noteq> CHR 0x5C" by auto
      then have "scan_string_char c (bs @ u @ CHR 0x22 # rest) = Some (c # bs, u @ CHR 0x22 # rest)" for rest
        using False rs cs(2) by (simp add: scan_string_char_def control_byte_def plain_byte_def)
      with t Cons cs(1) \<open>c \<noteq> CHR 0x22\<close> show ?thesis
        by (intro exI [of _ "c # bs @ u"]) simp
    qed
  qed
qed

lemma dump_escaped_scans:
  "dump_escaped Eh_strict False s = Inr u \<Longrightarrow>
     scan_string (u @ CHR 0x22 # rest) = (Tk_value_string s, rest)"
  using loop_scans [of 0 "[]" s u] unfolding dump_escaped_def scan_string_def
  by auto

section \<open>Numbers and literals\<close>

text \<open>What may come after a value in the serializer's output.\<close>

definition follow :: "string \<Rightarrow> bool" where
  "follow s \<longleftrightarrow> s = [] \<or> hd s \<in> {CHR '','', CHR '']'', CHR ''}''}"

lemma follow_simps [simp]: "follow []" "follow (CHR '','' # s)" "follow (CHR '']'' # s)" "follow (CHR ''}'' # s)"
  by (simp_all add: follow_def)

lemma follow_cases:
  assumes "follow s"
  obtains "s = []" | c cs where "s = c # cs" and "\<not> is_digit_char c" and "c \<noteq> CHR ''.''"
    and "c \<noteq> CHR ''e''" and "c \<noteq> CHR ''E''"
proof (cases s)
  case (Cons c cs)
  with assms have "c \<in> {CHR '','', CHR '']'', CHR ''}''}" by (simp add: follow_def)
  then show ?thesis by (intro that(2) [OF Cons]) (auto simp: is_digit_char_def)
qed (use that in simp)

lemma any1_digits:
  "list_all is_digit_char ds \<Longrightarrow> follow s \<Longrightarrow>
     scan_number_loop Ns_any1 nt buf (ds @ s) = (scan_number_done nt (buf @ ds), s)"
proof (induction ds arbitrary: buf)
  case Nil
  then show ?case by (auto elim: follow_cases)
qed simp

lemma zero_follow:
  "follow s \<Longrightarrow> scan_number_loop Ns_zero nt buf s = (scan_number_done nt buf, s)"
  by (auto elim: follow_cases)

lemma decimal_leading:
  assumes "0 < n"
  obtains d ds where "decimal n = digit_char d # ds" and "0 < d" and "d < 10" and "list_all is_digit_char ds"
proof -
  have "\<exists>d ds. decimal n = digit_char d # ds \<and> 0 < d \<and> d < 10" using assms
  proof (induction n rule: decimal.induct)
    case (1 n)
    show ?case
    proof (cases "n < 10")
      case True
      with 1 show ?thesis by (intro exI [of _ n] exI [of _ "[]"]) (simp add: decimal.simps [of n])
    next
      case False
      then have "0 < n div 10" by simp
      with 1 False show ?thesis by (auto simp: decimal.simps [of n])
    qed
  qed
  with that decimal_all_digits [of n] show ?thesis by auto
qed

lemma digit_char_0 [simp]: "digit_char d = CHR ''0'' \<longleftrightarrow> d = 0" if "d < 10"
proof -
  have "(of_char (CHR ''0'') :: nat) = 48" by simp
  with that show ?thesis by (metis of_char_digit add_cancel_left_right of_char_eq_iff)
qed

lemma skip_nonspace: "\<not> is_json_space c \<Longrightarrow> skip_whitespace (c # s) = c # s"
  by (simp add: skip_whitespace_def)

lemma scan_decimal:
  assumes "follow s" and "n < 2 ^ 64"
  shows "scan (decimal n @ s) = (Tk_value_unsigned (of_nat n), s)"
proof (cases "n = 0")
  case True
  have "decimal 0 = ''0''" by code_simp
  with True assms(1) show ?thesis
    by (simp add: scan_def skip_nonspace is_json_space_def is_digit_char_def scan_number_def zero_follow
        scan_number_done_def digits_val_def digit_val_def)
next
  case False
  then obtain d ds where d: "decimal n = digit_char d # ds" "0 < d" "d < 10" "list_all is_digit_char ds"
    using decimal_leading [of n] by auto
  obtain c where c: "c = digit_char d" by simp
  from d have dig: "is_digit_char c" "c \<noteq> CHR ''0''" by (simp_all add: c digit_char_props)
  then have "\<not> is_json_space c" and ne: "c \<noteq> CHR ''-''" "c \<noteq> CHR ''[''" "c \<noteq> CHR '']''" "c \<noteq> CHR ''{''"
    "c \<noteq> CHR ''}''" "c \<noteq> CHR '':''" "c \<noteq> CHR '',''" "c \<noteq> CHR ''t''" "c \<noteq> CHR ''f''" "c \<noteq> CHR ''n''" "c \<noteq> CHR 0x22"
    by (auto simp: is_digit_char_def is_json_space_def)
  moreover have "scan_number_done Nt_unsigned (c # ds) = Tk_value_unsigned (of_nat n)"
    using assms(2) d(1) digits_val_decimal [of n] by (simp add: scan_number_done_def c del: digits_val_decimal)
  ultimately show ?thesis
    using d assms(1) dig by (simp add: c [symmetric] scan_def skip_nonspace scan_number_def any1_digits)
qed

lemma scan_negative:
  assumes "follow s" and "0 < n" and "n \<le> 2 ^ 63"
  shows "scan (CHR ''-'' # decimal n @ s) = (Tk_value_integer (- of_nat n), s)"
proof -
  obtain d ds where d: "decimal n = digit_char d # ds" "0 < d" "d < 10" "list_all is_digit_char ds"
    using decimal_leading [OF assms(2)] by auto
  have "scan_number_done Nt_integer (CHR ''-'' # digit_char d # ds) = Tk_value_integer (- of_nat n)"
    using assms(3) d(1) digits_val_decimal [of n] by (simp add: scan_number_done_def del: digits_val_decimal)
  with d assms(1) show ?thesis
    by (simp add: scan_def skip_nonspace is_json_space_def scan_number_def any1_digits digit_char_props)
qed

lemma scan_dump_unsigned: "follow s \<Longrightarrow> scan (dump_unsigned x @ s) = (Tk_value_unsigned x, s)"
  using unsigned_less [of x, where 'a = nat] by (simp add: dump_unsigned_decimal scan_decimal)

lemma scan_dump_integer:
  assumes "follow s" and "sint x < 0"
  shows "scan (dump_integer x @ s) = (Tk_value_integer x, s)"
proof -
  have "x \<noteq> 0" using assms(2) by auto
  then have "0 < unat (- x)" by (simp add: unat_gt_0)
  moreover have "unat (- x) \<le> 2 ^ 63"
  proof -
    have le: "- sint x \<le> 2 ^ 63" using sint_greater_eq [of x] by simp
    have eq: "uint (word_of_int k :: 64 word) = k" if "0 \<le> k" and "k < 2 ^ 64" for k
      using that by (simp add: uint_word_of_int)
    have "uint (word_of_int (- sint x) :: 64 word) = - sint x"
      by (rule eq) (use assms(2) le in simp_all)
    then have "uint (- x) \<le> 2 ^ 63" using le by simp
    then have "nat (uint (- x)) \<le> nat (2 ^ 63)" by (rule nat_mono)
    then show ?thesis unfolding unat_eq_nat_uint by (simp only: nat_power_eq) simp
  qed
  ultimately show ?thesis
    using scan_negative [OF assms(1), of "unat (- x)"] assms(2) by (simp add: dump_integer_decimal)
qed

lemma scan_literals:
  "scan (''true'' @ s) = (Tk_literal_true, s)"
  "scan (''false'' @ s) = (Tk_literal_false, s)"
  "scan (''null'' @ s) = (Tk_literal_null, s)"
  by (simp_all add: scan_def skip_nonspace is_json_space_def)

lemma scan_structure:
  "scan (CHR ''['' # s) = (Tk_begin_array, s)" "scan (CHR '']'' # s) = (Tk_end_array, s)"
  "scan (CHR ''{'' # s) = (Tk_begin_object, s)" "scan (CHR ''}'' # s) = (Tk_end_object, s)"
  "scan (CHR '':'' # s) = (Tk_name_separator, s)" "scan (CHR '','' # s) = (Tk_value_separator, s)"
  "scan (CHR 0x22 # s) = scan_string s"
  by (simp_all add: scan_def skip_nonspace is_json_space_def)

section \<open>Values\<close>

text \<open>
  The values whose text the parser gives back as they are: objects in key order, signed integers that
  are negative (others are read as unsigned), no floating point numbers.
\<close>

fun json_ok :: "json \<Rightarrow> bool" where
  "json_ok (J_integer x) \<longleftrightarrow> sint x < 0"
| "json_ok (J_float f) \<longleftrightarrow> False"
| "json_ok (J_array js) \<longleftrightarrow> list_all json_ok js"
| "json_ok (J_object m) \<longleftrightarrow> map_ok m \<and> list_all (\<lambda>(k, j). json_ok j) m"
| "json_ok _ \<longleftrightarrow> True"

lemma map_put_last:
  "\<forall>k' \<in> fst ` set m. k' < k \<Longrightarrow> map_put k v m = m @ [(k, v)]"
  "\<forall>k' \<in> fst ` set m. k' < k \<Longrightarrow> map_put k v (m @ [(k, w)]) = m @ [(k, v)]"
  by (induction m) auto

text \<open>The loop entered with a value, a member, or the result of a round.\<close>

definition sax_run :: "sax_frame list \<Rightarrow> string \<Rightarrow> fault + json \<times> string" where
  "sax_run states s = (case scan s of (t, r) \<Rightarrow> sax_loop states t r)"

definition sax_go :: "sax_result \<Rightarrow> fault + json \<times> string" where
  "sax_go r = (case r of
      Sax_continue states t s \<Rightarrow> sax_loop states t s
    | Sax_finished j s \<Rightarrow> Inr (j, s)
    | Sax_failed e \<Rightarrow> Inl e)"

definition sax_member :: "sax_frame \<Rightarrow> sax_frame list \<Rightarrow> string \<Rightarrow> fault + json \<times> string" where
  "sax_member fr states s = (case scan s of
      (Tk_value_string k, s1) \<Rightarrow> (case scan s1 of
          (Tk_name_separator, s2) \<Rightarrow> sax_run (object_key k fr # states) s2
        | _ \<Rightarrow> Inl (Json_exception 101))
    | _ \<Rightarrow> Inl (Json_exception 101))"

lemma sax_loop_go: "sax_loop states t s = sax_go (sax_value states t s)"
  by (subst sax_loop.simps) (simp add: sax_go_def)

lemma go_array:
  "sax_go (sax_state j (F_array js # states) (CHR '','' # s)) = sax_run (F_array (js @ [j]) # states) s"
  "sax_go (sax_state j (F_array js # states) (CHR '']'' # s)) = sax_go (sax_state (J_array (js @ [j])) states s)"
  by (simp_all add: scan_structure sax_run_def sax_go_def split: prod.splits)

lemma go_object:
  "sax_go (sax_state j (F_object m k # states) (CHR '','' # s)) = sax_member (F_object (map_put k j m) k) states s"
  "sax_go (sax_state j (F_object m k # states) (CHR ''}'' # s)) = sax_go (sax_state (J_object (map_put k j m)) states s)"
  by (simp_all add: scan_structure sax_run_def sax_member_def sax_go_def split: prod.splits token.splits)

declare sax_state.simps(2,3) [simp del]

lemma run_array:
  "fst (scan s) \<noteq> Tk_end_array \<Longrightarrow> sax_run states (CHR ''['' # s) = sax_run (start_array # states) s"
  by (simp add: scan_structure sax_run_def sax_loop_go) (auto simp: sax_go_def sax_loop_go split: prod.splits token.splits)

lemma run_object:
  "fst (scan s) \<noteq> Tk_end_object \<Longrightarrow> sax_run states (CHR ''{'' # s) = sax_member start_object states s"
  by (simp add: scan_structure sax_run_def sax_loop_go sax_member_def)
    (auto simp: sax_go_def sax_run_def split: prod.splits token.splits)

lemma run_empty:
  "sax_run states (CHR ''['' # CHR '']'' # s) = sax_go (sax_state (J_array []) states s)"
  "sax_run states (CHR ''{'' # CHR ''}'' # s) = sax_go (sax_state (J_object []) states s)"
  by (simp_all add: scan_structure sax_run_def sax_loop_go start_array_def start_object_def)

lemma run_end_array: "fst (scan s) = Tk_end_array \<Longrightarrow> sax_run states s = Inl (Json_exception 101)"
  by (cases "scan s") (simp add: sax_run_def sax_loop_go sax_go_def)

lemma member_step:
  assumes "dump_escaped Eh_strict False k = Inr q" and "\<forall>k' \<in> fst ` set m. k' < k"
  shows "sax_member (F_object m k0) states (CHR 0x22 # q @ CHR 0x22 # CHR '':'' # s)
    = sax_run (F_object (m @ [(k, J_null)]) k # states) s"
  using dump_escaped_scans [OF assms(1)] map_put_last(1) [OF assms(2)]
  by (simp add: sax_member_def scan_structure)

text \<open>
  In front of whatever is open, the parser reads the text of a value, of the elements of an array or
  of the members of an object, and goes on as if it had been handed the value.
\<close>

lemma run_dump:
  "dump df j = Inr u \<Longrightarrow> json_ok j \<Longrightarrow> follow s \<Longrightarrow>
     sax_run states (u @ s) = sax_go (sax_state j states s)"
  "dump_elements df js = Inr u \<Longrightarrow> js \<noteq> [] \<Longrightarrow> list_all json_ok js \<Longrightarrow>
     sax_run (F_array pre # states) (u @ CHR '']'' # s) = sax_go (sax_state (J_array (pre @ js)) states s)"
  "dump_members df m = Inr u \<Longrightarrow> m \<noteq> [] \<Longrightarrow> map_ok (mpre @ m) \<Longrightarrow> list_all (\<lambda>(k, j). json_ok j) m \<Longrightarrow>
     sax_member (F_object mpre k0) states (u @ CHR ''}'' # s) = sax_go (sax_state (J_object (mpre @ m)) states s)"
proof (induction df j and df js and df m arbitrary: u s states and u s states pre and u s states mpre k0
    rule: dump_dump_elements_dump_members.induct)
  case (1 df m)
  show ?case
  proof (cases "m = []")
    case True
    with 1 show ?thesis by (auto simp: run_empty)
  next
    case False
    with 1 obtain v where v: "dump_members df m = Inr v" and u: "u = CHR ''{'' # v @ ''}''"
      by (auto split: sum.splits)
    from 1 False have run: "sax_member (F_object [] []) st (v @ CHR ''}'' # s) = sax_go (sax_state (J_object m) st s)" for st
      using v by simp
    have "fst (scan (v @ CHR ''}'' # s)) \<noteq> Tk_end_object"
      using run [of "[]"] by (auto simp: sax_member_def sax_go_def split: prod.splits)
    with u run show ?thesis by (simp add: run_object start_object_def)
  qed
next
  case (2 df js)
  show ?case
  proof (cases "js = []")
    case True
    with 2 show ?thesis by (auto simp: run_empty)
  next
    case False
    with 2 obtain v where v: "dump_elements df js = Inr v" and u: "u = CHR ''['' # v @ '']''"
      by (auto split: sum.splits)
    from 2 False have run: "sax_run (F_array [] # st) (v @ CHR '']'' # s) = sax_go (sax_state (J_array js) st s)" for st
      using v by simp
    have "fst (scan (v @ CHR '']'' # s)) \<noteq> Tk_end_array"
      using run [of "[]"] run_end_array [of "v @ CHR '']'' # s" "[F_array []]"] by (auto simp: sax_go_def)
    with u run show ?thesis by (simp add: run_array start_array_def)
  qed
next
  case (3 df v)
  then obtain q where q: "dump_escaped Eh_strict False v = Inr q" and u: "u = CHR 0x22 # q @ [CHR 0x22]"
    by (auto split: sum.splits)
  from dump_escaped_scans [OF q, of s] show ?case
    by (simp add: u sax_run_def scan_structure sax_loop_go)
next
  case (4 df b)
  then show ?case by (auto simp: sax_run_def scan_literals [simplified] sax_loop_go split: if_splits)
next
  case (5 df x)
  then show ?case by (auto simp: sax_run_def scan_dump_integer sax_loop_go)
next
  case (6 df x)
  then show ?case by (auto simp: sax_run_def scan_dump_unsigned sax_loop_go)
next
  case (8 df)
  then show ?case by (auto simp: sax_run_def scan_literals [simplified] sax_loop_go)
next
  case (10 df j js)
  then obtain t where t: "dump df j = Inr t" by (auto split: sum.splits)
  note IH = 10(1) [OF t]
  show ?case
  proof (cases "js = []")
    case True
    with 10 t IH show ?thesis by (auto simp: go_array)
  next
    case False
    with 10(3) t obtain v where v: "dump_elements df js = Inr v" and u: "u = t @ CHR '','' # v"
      by (auto split: sum.splits)
    with 10 t IH False show ?thesis by (simp add: go_array)
  qed
next
  case (12 df k j m)
  then obtain q t where q: "dump_escaped Eh_strict False k = Inr q" and t: "dump df j = Inr t"
    by (auto split: sum.splits)
  note IH = 12(1) [OF q t]
  from 12(5) have keys: "\<forall>k' \<in> fst ` set mpre. k' < k"
    by (auto simp: map_ok_def sorted_wrt_append)
  note member = member_step [OF q keys, of k0 states]
  show ?case
  proof (cases "m = []")
    case True
    with 12 q t IH show ?thesis by (auto simp: member go_object map_put_last(2) [OF keys] Let_def)
  next
    case False
    with 12(3) q t obtain v where v: "dump_members df m = Inr v"
      and u: "u = CHR 0x22 # q @ CHR 0x22 # CHR '':'' # t @ CHR '','' # v"
      by (auto split: sum.splits simp: Let_def)
    with 12 q t IH False show ?thesis by (simp add: member go_object map_put_last(2) [OF keys])
  qed
qed simp_all

lemma scan_first_value:
  assumes "scan s = (t, r)" and "t \<noteq> Tk_parse_error"
  shows "scan_first s = scan s"
proof -
  have "skip_bom s = Some s"
  proof (rule ccontr)
    assume "skip_bom s \<noteq> Some s"
    then obtain s' where "s = CHR 0xEF # s'"
      by (auto simp: skip_bom_def split: list.splits char.splits bool.splits)
    with assms show False
      by (simp add: scan_def skip_nonspace is_json_space_def is_digit_char_def)
  qed
  then show ?thesis by (simp add: scan_first_def)
qed

lemma json_parse_run:
  assumes "sax_run [] s = Inr (j, r)"
  shows "json_parse s = (if fst (scan r) \<noteq> Tk_end_of_input then Inl (Json_exception 101) else Inr j)"
proof -
  obtain t s1 where t: "scan s = (t, s1)" by fastforce
  with assms have l: "sax_loop [] t s1 = Inr (j, r)" by (simp add: sax_run_def)
  then have "t \<noteq> Tk_parse_error" by (auto simp: sax_loop_go sax_go_def)
  with t l scan_first_value [OF t] show ?thesis by (simp add: json_parse_def)
qed

lemma parse_dump:
  assumes "json_ok j" and "dump df j = Inr u"
  shows "json_parse u = Inr j"
proof -
  have "sax_run [] (u @ []) = Inr (j, [])"
    using run_dump(1) [OF assms(2,1), of "[]" "[]"] by (simp add: sax_go_def)
  then have "sax_run [] u = Inr (j, [])" by simp
  from json_parse_run [OF this] show ?thesis by (simp add: scan_def skip_whitespace_def)
qed

section \<open>Properties\<close>

text \<open>
  C29: What \<^verbatim>\<open>dump\<close> writes, \<^verbatim>\<open>parse\<close> reads back: the same value, for every value whose objects are in
  key order (which those of a \<^verbatim>\<open>std::map\<close> are), whose signed integers are negative (others come back
  as unsigned ones) and that has no floating point numbers. Escapes, control characters and all of
  UTF-8 included.
\<close>

theorem json_roundtrip:
  assumes "json_ok j" and "dump df j = Inr u"
  shows "json_parse u = Inr j"
  using assms by (rule parse_dump)

definition sample_json :: json where
  "sample_json = J_object [(''a'', J_array [J_unsigned 65, J_integer (- 7), J_null]),
     (''url'', J_string (''x'' @ [CHR 0x22, CHR 0x0A, CHR 0xC3, CHR 0xA3]))]"

theorem json_roundtrip_witness:
  "\<exists>u. dump (\<lambda>f. f) sample_json = Inr u \<and> json_parse u = Inr sample_json"
proof -
  have "\<not> isl (dump (\<lambda>f. f) sample_json)" by code_simp
  then obtain u where u: "dump (\<lambda>f. f) sample_json = Inr u" by (auto simp: isl_def) (metis sumE)
  moreover have "json_ok sample_json" by (simp add: sample_json_def map_ok_def)
  then have "json_parse u = Inr sample_json" using u by (rule json_roundtrip)
  ultimately show ?thesis by blast
qed

text \<open>
  UTF-8 as the lexer has it: bytes below 0x80, and lead bytes with the bytes of their ranges.
\<close>

function utf8_text :: "string \<Rightarrow> bool" where
  "utf8_text [] \<longleftrightarrow> True"
| "utf8_text (c # cs) \<longleftrightarrow>
     (if byte_of c < 128 then utf8_text cs
      else (case lead_ranges (byte_of c) of
          None \<Rightarrow> False
        | Some rs \<Rightarrow> (case next_byte_in_range rs cs of None \<Rightarrow> False | Some (bs, r) \<Rightarrow> utf8_text r)))"
  by pat_completeness auto
termination
  by (relation "measure length") (auto dest: next_byte_shorter)

lemma loop_outcome:
  "if utf8_text s then \<exists>u. dump_escaped_loop Eh_strict False 0 cp acc [] s = Inr u
   else dump_escaped_loop Eh_strict False 0 cp acc [] s = Inl (Json_exception 316)"
proof (induction s arbitrary: cp acc rule: utf8_text.induct)
  case 1
  then show ?case by (simp add: in_buffer_def)
next
  case (2 c cs)
  show ?case
  proof (cases "byte_of c < 128")
    case True
    with 2(1) show ?thesis by (simp add: ascii_state)
  next
    case False
    then show ?thesis
      using 2(2) by (simp add: loop_at_lead del: dump_escaped_loop.simps) (auto split: option.splits)
  qed
qed

lemma dump_escaped_Inl: "dump_escaped Eh_strict False s = Inl e \<Longrightarrow> e = Json_exception 316"
  using loop_outcome [of s 0 "[]"] by (auto simp: dump_escaped_def split: if_splits)

lemma dump_Inl:
  "dump df j = Inl e \<Longrightarrow> e = Json_exception 316"
  "dump_elements df js = Inl e \<Longrightarrow> e = Json_exception 316"
  "dump_members df m = Inl e \<Longrightarrow> e = Json_exception 316"
  by (induction df j and df js and df m rule: dump_dump_elements_dump_members.induct)
    (auto simp: Let_def dest: dump_escaped_Inl split: if_splits sum.splits)

text \<open>
  C30: The table-driven automaton of \<^verbatim>\<open>dump_escaped\<close> accepts exactly the strings that are UTF-8 by the
  ranges \<^verbatim>\<open>scan_string\<close> checks; any other string makes a strict \<^verbatim>\<open>dump\<close> throw a type error, and nothing
  else can.
\<close>

theorem dump_accepts_utf8:
  "dump_escaped Eh_strict False s =
     (if utf8_text s then Inr (projr (dump_escaped Eh_strict False s)) else Inl (Json_exception 316))"
  using loop_outcome [of s 0 "[]"] by (auto simp: dump_escaped_def split: if_splits)

text \<open>
  With the error handlers \<^verbatim>\<open>replace\<close> and \<^verbatim>\<open>ignore\<close> no string makes \<^verbatim>\<open>dump_escaped\<close> throw, although a
  byte that does not fit is read a second time.
\<close>

theorem lenient_dump_total:
  assumes "eh \<noteq> Eh_strict"
  shows "\<exists>u. dump_escaped eh ensure_ascii s = Inr u"
proof -
  have "\<exists>u. dump_escaped_loop eh ensure_ascii st cp acc und s = Inr u" for st cp acc und
    using assms
  proof (induction eh ensure_ascii st cp acc und s rule: dump_escaped_loop.induct)
    case (1 eh ea st cp acc und)
    then show ?case by (cases eh) auto
  next
    case (2 eh ea st cp acc und c cs)
    obtain st' cp' where "decode st cp (byte_of c) = (st', cp')" by fastforce
    with 2 show ?case by simp
  qed
  then show ?thesis by (simp add: dump_escaped_def)
qed

theorem lenient_dump_total_witness:
  "\<exists>u. dump_escaped Eh_replace False [CHR 0xC3, CHR 0x41] = Inr u"
  by (rule lenient_dump_total) simp

text \<open>
  C33: Integers are written in decimal, two digits at a time, into exactly the room that was counted for
  them, which is less than the 64 characters of the buffer.
\<close>

theorem dump_integer_fits:
  "dump_unsigned x = decimal (unat x)
   \<and> dump_integer x = (if sint x < 0 then CHR ''-'' # decimal (unat (- x)) else decimal (unat x))
   \<and> count_digits (unat x) = length (decimal (unat x)) \<and> 1 + count_digits (unat x) < 64 - 1"
proof -
  have mono: "length (decimal n) \<le> k" if "n < 10 ^ k" "0 < k" for n k
    using that
  proof (induction k arbitrary: n)
    case (Suc k)
    show ?case
    proof (cases "n < 10")
      case False
      then have "0 < k" using Suc.prems by (cases k) auto
      moreover have "n div 10 < 10 ^ k" using Suc.prems by (simp add: less_mult_imp_div_less mult.commute)
      ultimately show ?thesis using Suc.IH [of "n div 10"] False by (simp add: length_decimal [of n])
    qed (simp add: length_decimal [of n])
  qed simp
  have "unat x < 10 ^ 20"
    using unsigned_less [of x, where 'a = nat] by simp
  from mono [OF this] show ?thesis
    by (simp add: dump_unsigned_decimal dump_integer_decimal count_digits_length)
qed

end
