(* ===== verification/Mysql_Query.thy ===== *)
theory Mysql_Query
  imports Table_Class Json_Roundtrip
begin

text \<open>
  \<^verbatim>\<open>mysql::server::prepare_execute\<close> (\<^verbatim>\<open>db/mysql.cpp\<close>): a query whose rows come back as one JSON text,
  an array with an object for each row.
\<close>

text \<open>
  \<^verbatim>\<open>while (result->next())\<close> over the \<open>n\<close> rows left; \<open>put_columns\<close> is the inner loop, into a new map.
\<close>

fun query_rows :: "nat \<Rightarrow> result_set \<Rightarrow> (string, string) std_map list \<Rightarrow>
    (fault + (string, string) std_map list) \<times> result_set" where
  "query_rows 0 rs tbl = (Inr tbl, snd (rs_next rs))"
| "query_rows (Suc n) rs tbl =
     (let rs' = snd (rs_next rs) in
      case put_columns rs' 1 (rs_columns rs') [] of
        (Inl e, _) \<Rightarrow> (Inl e, rs')
      | (Inr _, row) \<Rightarrow> query_rows n rs' (tbl @ [row]))"

text \<open>A value built from strings only: \<^verbatim>\<open>dump_float\<close> is not reached, so what it is given for does not matter.\<close>

definition dump_strings :: "json \<Rightarrow> fault + string" where
  "dump_strings j = dump (\<lambda>f. f) j"

definition result_text :: "('db server, string) prog" where
  "result_text = (\<lambda>s. case srv_result s of
      None \<Rightarrow> (Inl (Undefined_behaviour ''null result''), s)
    | Some rs \<Rightarrow>
        (case query_rows (length (rs_rows rs) - rs_cursor rs) rs [] of
           (Inl e, rs') \<Rightarrow> (Inl e, s\<lparr>srv_result := Some rs'\<rparr>)
         | (Inr tbl, rs') \<Rightarrow> (dump_strings (json_of_maps tbl), s\<lparr>srv_result := Some rs'\<rparr>)))"

definition prepare_execute :: "'db sql_api \<Rightarrow> string \<Rightarrow> ('db server, string) prog" where
  "prepare_execute api stmt = then_p (prepare api stmt) (then_p (execute api) result_text)"

section \<open>What the rows become\<close>

definition row_maps :: "result_set \<Rightarrow> (string, string) std_map list" where
  "row_maps rs = map (\<lambda>row. overlay (rs_columns rs) row []) (rs_rows rs)"

lemma query_rows_all:
  assumes "list_all (\<lambda>row. length row = length (rs_columns rs)) (rs_rows rs)"
    and "rs_cursor rs + n = length (rs_rows rs)"
  shows "fst (query_rows n rs tbl) = Inr (tbl @ drop (rs_cursor rs) (row_maps rs))"
  using assms
proof (induction n arbitrary: rs tbl)
  case 0
  then show ?case by (simp add: row_maps_def)
next
  case (Suc n)
  let ?rs = "snd (rs_next rs)"
  have rows: "rs_rows ?rs = rs_rows rs" "rs_columns ?rs = rs_columns rs" "rs_cursor ?rs = Suc (rs_cursor rs)"
    by (simp_all add: rs_next_def)
  let ?row = "rs_rows rs ! rs_cursor rs"
  have "?row \<in> set (rs_rows rs)" using Suc.prems(2) by simp
  with Suc.prems(1) have len: "length ?row = length (rs_columns rs)" by (auto simp: list_all_iff)
  have "put_columns ?rs (Suc 0) (rs_columns ?rs) [] = (Inr (), overlay (rs_columns ?rs) (drop 0 ?row) [])"
    by (rule put_columns_overlay) (use Suc.prems len in \<open>simp_all add: rows Suc_le_eq\<close>)
  moreover have "drop (rs_cursor rs) (row_maps rs) = overlay (rs_columns rs) ?row [] # drop (Suc (rs_cursor rs)) (row_maps rs)"
    using Suc.prems(2) by (subst Cons_nth_drop_Suc [symmetric]) (simp_all add: row_maps_def)
  moreover have "row_maps ?rs = row_maps rs" by (simp add: row_maps_def rows)
  ultimately show ?case
    using Suc.IH [of ?rs] Suc.prems by (simp add: Let_def rows)
qed

lemma json_of_maps_ok: "list_all map_ok ms \<Longrightarrow> json_ok (json_of_maps ms)"
  by (auto simp: json_of_maps_def json_of_map_def list_all_iff map_ok_def comp_def)

lemma row_maps_ok: "list_all map_ok (row_maps rs)"
  by (auto simp: row_maps_def list_all_iff)

section \<open>Properties\<close>

text \<open>
  C36: The text \<^verbatim>\<open>prepare_execute\<close> returns, parsed, is the table the database answered with: for each row
  an object with a string for each column, in the order of the rows. The only other outcome, for an
  answer of the database, is the type error of a value that is not UTF-8.
\<close>

theorem query_text_parses:
  assumes "srv_connection s" and "api_prepare api stmt (srv_db s) = (Inr u, d1)"
    and "api_execute_query api stmt d1 = (Inr rs, d2)" and "fresh_rs rs"
  shows "case fst (prepare_execute api stmt s) of
      Inr t \<Rightarrow> json_parse t = Inr (json_of_maps (row_maps rs))
    | Inl e \<Rightarrow> dump_strings (json_of_maps (row_maps rs)) = Inl e"
proof -
  obtain q rs' where q: "query_rows (length (rs_rows rs) - rs_cursor rs) rs [] = (q, rs')" by fastforce
  with query_rows_all [of rs "length (rs_rows rs)" "[]"] assms(4)
  have "q = Inr (row_maps rs)" by (auto simp: fresh_rs_def)
  with q assms have "fst (prepare_execute api stmt s) = dump_strings (json_of_maps (row_maps rs))"
    by (simp add: prepare_execute_def result_text_def prepare_def execute_def on_db_def prog_simps)
  then show ?thesis
    using parse_dump [OF json_of_maps_ok [OF row_maps_ok]] by (auto simp: dump_strings_def split: sum.splits)
qed

definition task_rows :: result_set where
  "task_rows = table_rs [''id'', ''type''] [[''7'', ''1''], [''8'', ''1'']]"

theorem query_text_parses_witness:
  "json_parse (projr (fst (prepare_execute script_api ''SELECT''
      ((script_server [Inr task_rows])\<lparr>srv_connection := True\<rparr>))))
    = Inr (json_of_maps (row_maps task_rows))"
proof -
  have "fst (prepare_execute script_api ''SELECT'' ((script_server [Inr task_rows])\<lparr>srv_connection := True\<rparr>))
      = Inr (projr (dump_strings (json_of_maps (row_maps task_rows))))"
    by code_simp
  then show ?thesis
    using query_text_parses [of "(script_server [Inr task_rows])\<lparr>srv_connection := True\<rparr>" script_api
        "''SELECT''" "()" "[Inr task_rows]" task_rows "[]"]
    by (simp add: script_server_def script_api_def return_p_def task_rows_def table_rs_def fresh_rs_def)
qed

lemma put_columns_std: "put_columns rs i fs m = (Inl e, m') \<Longrightarrow> is_std_exception e"
  by (induction fs arbitrary: i m)
    (auto simp: prog_simps rs_get_string_def split: prod.splits sum.splits if_splits)

lemma query_rows_std: "query_rows n rs tbl = (Inl e, rs') \<Longrightarrow> is_std_exception e"
  by (induction n rs tbl rule: query_rows.induct)
    (auto simp: Let_def dest: put_columns_std split: prod.splits sum.splits)

lemma result_text_std:
  "srv_result s = Some rs \<Longrightarrow> result_text s = (Inl e, s') \<Longrightarrow> is_std_exception e"
  by (auto simp: result_text_def dump_strings_def dest: query_rows_std dump_Inl(1) split: prod.splits sum.splits)

lemma sql_is_std: "is_sql_exception e \<Longrightarrow> is_std_exception e"
  by (cases e) auto

text \<open>
  \<^verbatim>\<open>prepare_execute\<close> does not connect. On a server that no table has used yet it follows the null
  connection, whatever the statement; on a connected one it fails with standard exceptions only.
\<close>

lemma prepare_execute_unconnected:
  "if srv_connection s
   then api_throws_sql api \<longrightarrow> (\<forall>e s'. prepare_execute api stmt s = (Inl e, s') \<longrightarrow> is_std_exception e)
   else prepare_execute api stmt s = (Inl (Undefined_behaviour ''null connection''), s)"
proof (cases "srv_connection s")
  case True
  have "is_std_exception e"
    if api: "api_throws_sql api" and run: "prepare_execute api stmt s = (Inl e, s')" for e s'
  proof -
    from run consider (prep) "prepare api stmt s = (Inl e, s')"
      | (exec) v s1 where "prepare api stmt s = (Inr v, s1)" and "execute api s1 = (Inl e, s')"
      | (rows) s1 w s2 where "execute api s1 = (Inr w, s2)" and "result_text s2 = (Inl e, s')"
      by (auto simp: prepare_execute_def then_p_def bind_p_Inl)
    then show ?thesis
    proof cases
      case prep
      with prepare_throws_sql [OF api True] show ?thesis by (blast intro: sql_is_std)
    next
      case exec
      with execute_throws_sql [OF api] prepare_ok show ?thesis by (blast intro: sql_is_std)
    next
      case rows
      with execute_ok obtain rs where "srv_result s2 = Some rs" by blast
      with rows result_text_std show ?thesis by blast
    qed
  qed
  with True show ?thesis by simp
next
  case False
  then show ?thesis by (simp add: prepare_execute_def prepare_def prog_simps)
qed

end
