(* ===== verification/Publisher.thy ===== *)
theory Publisher
  imports Prelude
begin

text \<open>
  \<^verbatim>\<open>pub/publisher_base.hpp\<close>, \<^verbatim>\<open>pub/gazeta_esportiva.hpp\<close>, \<^verbatim>\<open>pub/runner.cpp\<close>: reading a
  championship's name and its clubs out of a web page. The page is fetched by cpr and parsed by
  gumbo; both are parameters, and the tree gumbo hands out is the datatype \<open>gumbo_node\<close>.
\<close>

section \<open>The tree\<close>

text \<open>
  As much of gumbo's tree as the searches look at: the tags they compare with, and whether a node
  is an element, has the text member of the union (text, comments, white space) or neither. A
  child pointer may be null.
\<close>

datatype gumbo_tag = Tag_h2 | Tag_a | Tag_td | Tag_other string

datatype gumbo_node =
    Element gumbo_tag "(string \<times> string) list" "gumbo_node option list"
  | Text_node string
  | Other_node

text \<open>\<^verbatim>\<open>gumbo_get_attribute\<close>, a parameter: the value of an attribute, if it is there.\<close>

type_synonym get_attribute = "(string \<times> string) list \<Rightarrow> string \<Rightarrow> string option"

text \<open>
  \<^verbatim>\<open>children.data[0]\<close> taken as a text node: undefined if there is no child, a null one, or one
  that has another member of the union.
\<close>

definition first_text :: "gumbo_node option list \<Rightarrow> fault + string" where
  "first_text children = (case children of
      Some (Text_node t) # _ \<Rightarrow> Inr t
    | _ \<Rightarrow> Inl (Undefined_behaviour ''first child is not a text''))"

section \<open>The name of the championship\<close>

text \<open>The loop over the children of a heading: the text of every link, the last one stays.\<close>

fun heading_loop :: "gumbo_node option list \<Rightarrow> string \<Rightarrow> fault + string" where
  "heading_loop [] result = Inr result"
| "heading_loop (Some (Element Tag_a attrs sub) # rest) result =
     (case first_text sub of Inl e \<Rightarrow> Inl e | Inr t \<Rightarrow> heading_loop rest t)"
| "heading_loop (_ # rest) result = heading_loop rest result"

fun locate_championship :: "gumbo_node \<Rightarrow> string \<Rightarrow> fault + string"
  and locate_in_children :: "gumbo_node option list \<Rightarrow> string \<Rightarrow> fault + string" where
  "locate_championship (Element tag attrs children) result =
     (case (if tag = Tag_h2 then heading_loop children result else Inr result) of
        Inl e \<Rightarrow> Inl e
      | Inr result \<Rightarrow> locate_in_children children result)"
| "locate_championship (Text_node t) result = Inr result"
| "locate_championship Other_node result = Inr result"
| "locate_in_children [] result = Inr result"
| "locate_in_children (None # rest) result = Inl (Undefined_behaviour ''null child'')"
| "locate_in_children (Some node # rest) result =
     (case locate_championship node result of
        Inl e \<Rightarrow> Inl e
      | Inr result \<Rightarrow> if result \<noteq> [] then Inr result else locate_in_children rest result)"

section \<open>The names of the clubs\<close>

fun team_loop :: "get_attribute \<Rightarrow> gumbo_node option list \<Rightarrow> string list \<Rightarrow> fault + string list" where
  "team_loop ga [] result = Inr result"
| "team_loop ga (Some (Element Tag_a attrs sub) # rest) result =
     (case ga attrs ''class'' of
        None \<Rightarrow> team_loop ga rest result
      | Some value \<Rightarrow>
          if value = ''team-link'' then
            (case first_text sub of Inl e \<Rightarrow> Inl e | Inr t \<Rightarrow> team_loop ga rest (result @ [t]))
          else team_loop ga rest result)"
| "team_loop ga (_ # rest) result = team_loop ga rest result"

text \<open>The class of a table cell is read without asking whether it has one.\<close>

fun locate_clubs :: "get_attribute \<Rightarrow> gumbo_node \<Rightarrow> string list \<Rightarrow> fault + string list"
  and clubs_in_children :: "get_attribute \<Rightarrow> gumbo_node option list \<Rightarrow> string list \<Rightarrow> fault + string list" where
  "locate_clubs ga (Element tag attrs children) result =
     (if tag = Tag_td then
        (case ga attrs ''class'' of
           None \<Rightarrow> Inl (Undefined_behaviour ''null attribute'')
         | Some value \<Rightarrow> if value = ''table__team'' then team_loop ga children result else Inr result)
      else clubs_in_children ga children result)"
| "locate_clubs ga (Text_node t) result = Inr result"
| "locate_clubs ga Other_node result = Inr result"
| "clubs_in_children ga [] result = Inr result"
| "clubs_in_children ga (None # rest) result = Inl (Undefined_behaviour ''null child'')"
| "clubs_in_children ga (Some node # rest) result =
     (case locate_clubs ga node result of
        Inl e \<Rightarrow> Inl e
      | Inr result \<Rightarrow> clubs_in_children ga rest result)"

section \<open>The publisher\<close>

datatype publisher = Pub_none | Pub_gazeta_esportiva | Pub_unlisted "8 word"

record gazeta_esportiva =
  ge_championship :: string
  ge_clubs :: "string list"

definition gazeta_new :: gazeta_esportiva where
  "gazeta_new = \<lparr>ge_championship = [], ge_clubs = []\<rparr>"

text \<open>
  The web: \<^verbatim>\<open>cpr::Get\<close> (which reports failures in the response, so that the text may be empty),
  \<^verbatim>\<open>gumbo_parse\<close>, and \<^verbatim>\<open>what()\<close> of an exception.
\<close>

record web =
  web_get :: "string \<Rightarrow> fault + string"
  web_parse :: "string \<Rightarrow> gumbo_node"
  web_attribute :: get_attribute
  web_what :: "fault \<Rightarrow> string"

definition extract_html_page :: "web \<Rightarrow> string \<Rightarrow> fault + string" where
  "extract_html_page w page = web_get w (page @ ''/'')"

definition get_championship ::
    "web \<Rightarrow> string \<Rightarrow> (gazeta_esportiva, bool \<times> string \<times> string) prog" where
  "get_championship w page_url =
     bind_p (catch_p is_std_exception
       (bind_p (lift_p (extract_html_page w page_url)) (\<lambda>page_content.
        then_p (modify_p (\<lambda>g. g\<lparr>ge_championship := []\<rparr>))
       (bind_p (lift_p (locate_championship (web_parse w page_content) [])) (\<lambda>name.
        then_p (modify_p (\<lambda>g. g\<lparr>ge_championship := name\<rparr>)) (return_p (True, []))))))
       (\<lambda>e. return_p (False, web_what w e))) (\<lambda>(success, message).
     bind_p (gets_p ge_championship) (\<lambda>c. return_p (success, message, c)))"

definition get_championship_clubs ::
    "web \<Rightarrow> string \<Rightarrow> (gazeta_esportiva, bool \<times> string \<times> string list) prog" where
  "get_championship_clubs w page_url =
     bind_p (catch_p is_std_exception
       (bind_p (lift_p (extract_html_page w page_url)) (\<lambda>page_content.
        then_p (modify_p (\<lambda>g. g\<lparr>ge_clubs := []\<rparr>))
       (bind_p (lift_p (locate_clubs (web_attribute w) (web_parse w page_content) [])) (\<lambda>names.
        then_p (modify_p (\<lambda>g. g\<lparr>ge_clubs := names\<rparr>)) (return_p (True, []))))))
       (\<lambda>e. return_p (False, web_what w e))) (\<lambda>(success, message).
     bind_p (gets_p ge_clubs) (\<lambda>cs. return_p (success, message, cs)))"

text \<open>\<^verbatim>\<open>pub::get_new_championship\<close>; a value of the enumeration without a case gives the empty tuple.\<close>

definition get_new_championship :: "web \<Rightarrow> publisher \<Rightarrow> string \<Rightarrow> fault + bool \<times> string \<times> string" where
  "get_new_championship w pub url = (case pub of
      Pub_gazeta_esportiva \<Rightarrow> fst (get_championship w url gazeta_new)
    | _ \<Rightarrow> Inr (False, [], []))"

section \<open>What the searches find\<close>

text \<open>The texts of the links among the children of a node, and the pages the searches are made for.\<close>

fun link_texts :: "gumbo_node option list \<Rightarrow> string list" where
  "link_texts [] = []"
| "link_texts (Some (Element Tag_a attrs (Some (Text_node t) # sub)) # rest) = t # link_texts rest"
| "link_texts (_ # rest) = link_texts rest"

fun links_ok :: "gumbo_node option list \<Rightarrow> bool" where
  "links_ok [] \<longleftrightarrow> True"
| "links_ok (Some (Element Tag_a attrs sub) # rest) \<longleftrightarrow> (\<exists>t. first_text sub = Inr t) \<and> links_ok rest"
| "links_ok (_ # rest) \<longleftrightarrow> links_ok rest"

fun no_heading :: "gumbo_node \<Rightarrow> bool" and no_heading_in :: "gumbo_node option list \<Rightarrow> bool" where
  "no_heading (Element tag attrs children) \<longleftrightarrow> tag \<noteq> Tag_h2 \<and> no_heading_in children"
| "no_heading (Text_node t) \<longleftrightarrow> True"
| "no_heading Other_node \<longleftrightarrow> True"
| "no_heading_in [] \<longleftrightarrow> True"
| "no_heading_in (None # rest) \<longleftrightarrow> False"
| "no_heading_in (Some node # rest) \<longleftrightarrow> no_heading node \<and> no_heading_in rest"

text \<open>No null child, every link of a heading begins with a text, no heading inside a heading.\<close>

fun page_ok :: "gumbo_node \<Rightarrow> bool" and page_ok_in :: "gumbo_node option list \<Rightarrow> bool" where
  "page_ok (Element tag attrs children) \<longleftrightarrow>
     (if tag = Tag_h2 then links_ok children \<and> no_heading_in children else page_ok_in children)"
| "page_ok (Text_node t) \<longleftrightarrow> True"
| "page_ok Other_node \<longleftrightarrow> True"
| "page_ok_in [] \<longleftrightarrow> True"
| "page_ok_in (None # rest) \<longleftrightarrow> False"
| "page_ok_in (Some node # rest) \<longleftrightarrow> page_ok node \<and> page_ok_in rest"

text \<open>What each heading of the page says, in document order.\<close>

fun headings :: "gumbo_node \<Rightarrow> string list" and headings_in :: "gumbo_node option list \<Rightarrow> string list" where
  "headings (Element tag attrs children) =
     (if tag = Tag_h2 \<and> link_texts children \<noteq> [] then [last (link_texts children)] else [])
     @ headings_in children"
| "headings (Text_node t) = []"
| "headings Other_node = []"
| "headings_in [] = []"
| "headings_in (None # rest) = headings_in rest"
| "headings_in (Some node # rest) = headings node @ headings_in rest"

fun first_heading :: "string list \<Rightarrow> string" where
  "first_heading [] = []"
| "first_heading (t # ts) = (if t \<noteq> [] then t else first_heading ts)"

lemma heading_loop_links:
  "links_ok ns \<Longrightarrow> heading_loop ns r = Inr (if link_texts ns = [] then r else last (link_texts ns))"
proof (induction ns r rule: heading_loop.induct)
  case (2 attrs sub rest r)
  then obtain t where t: "first_text sub = Inr t" by auto
  then obtain more where sub: "sub = Some (Text_node t) # more"
    by (auto simp: first_text_def split: list.splits option.splits gumbo_node.splits)
  with 2 t show ?case by simp
qed simp_all

lemma no_heading_keeps:
  "no_heading n \<Longrightarrow> locate_championship n r = Inr r"
  "no_heading_in ns \<Longrightarrow> locate_in_children ns r = Inr r"
  by (induction n r and ns r rule: locate_championship_locate_in_children.induct) auto

lemma no_heading_silent: "no_heading n \<Longrightarrow> headings n = []" "no_heading_in ns \<Longrightarrow> headings_in ns = []"
  by (induction n and ns rule: headings_headings_in.induct) auto

lemma first_heading_append:
  "first_heading (xs @ ys) = (if first_heading xs \<noteq> [] then first_heading xs else first_heading ys)"
  by (induction xs) auto

lemma locate_first:
  "page_ok n \<Longrightarrow> locate_championship n [] = Inr (first_heading (headings n))"
  "page_ok_in ns \<Longrightarrow> locate_in_children ns [] = Inr (first_heading (headings_in ns))"
proof (induction n and ns rule: headings_headings_in.induct)
  case (1 tag attrs children)
  show ?case
  proof (cases "tag = Tag_h2")
    case True
    with 1 show ?thesis
      by (auto simp: heading_loop_links no_heading_keeps no_heading_silent)
  next
    case False
    with 1 show ?thesis by simp
  qed
qed (auto simp: first_heading_append)

text \<open>The clubs of a page: the links with class \<^verbatim>\<open>team-link\<close> in the cells with class \<^verbatim>\<open>table__team\<close>.\<close>

fun team_names :: "get_attribute \<Rightarrow> gumbo_node option list \<Rightarrow> string list" where
  "team_names ga [] = []"
| "team_names ga (Some (Element Tag_a attrs sub) # rest) =
     (if ga attrs ''class'' = Some ''team-link'' then [projr (first_text sub)] else []) @ team_names ga rest"
| "team_names ga (_ # rest) = team_names ga rest"

fun teams_ok :: "get_attribute \<Rightarrow> gumbo_node option list \<Rightarrow> bool" where
  "teams_ok ga [] \<longleftrightarrow> True"
| "teams_ok ga (Some (Element Tag_a attrs sub) # rest) \<longleftrightarrow>
     (ga attrs ''class'' = Some ''team-link'' \<longrightarrow> (\<exists>t. first_text sub = Inr t)) \<and> teams_ok ga rest"
| "teams_ok ga (_ # rest) \<longleftrightarrow> teams_ok ga rest"

fun club_names :: "get_attribute \<Rightarrow> gumbo_node \<Rightarrow> string list"
  and club_names_in :: "get_attribute \<Rightarrow> gumbo_node option list \<Rightarrow> string list" where
  "club_names ga (Element tag attrs children) =
     (if tag = Tag_td then (if ga attrs ''class'' = Some ''table__team'' then team_names ga children else [])
      else club_names_in ga children)"
| "club_names ga (Text_node t) = []"
| "club_names ga Other_node = []"
| "club_names_in ga [] = []"
| "club_names_in ga (None # rest) = club_names_in ga rest"
| "club_names_in ga (Some node # rest) = club_names ga node @ club_names_in ga rest"

text \<open>Every cell reached has a class, and every team link a text.\<close>

fun cells_ok :: "get_attribute \<Rightarrow> gumbo_node \<Rightarrow> bool"
  and cells_ok_in :: "get_attribute \<Rightarrow> gumbo_node option list \<Rightarrow> bool" where
  "cells_ok ga (Element tag attrs children) \<longleftrightarrow>
     (if tag = Tag_td then ga attrs ''class'' \<noteq> None
        \<and> (ga attrs ''class'' = Some ''table__team'' \<longrightarrow> teams_ok ga children)
      else cells_ok_in ga children)"
| "cells_ok ga (Text_node t) \<longleftrightarrow> True"
| "cells_ok ga Other_node \<longleftrightarrow> True"
| "cells_ok_in ga [] \<longleftrightarrow> True"
| "cells_ok_in ga (None # rest) \<longleftrightarrow> False"
| "cells_ok_in ga (Some node # rest) \<longleftrightarrow> cells_ok ga node \<and> cells_ok_in ga rest"

lemma team_loop_names: "teams_ok ga ns \<Longrightarrow> team_loop ga ns r = Inr (r @ team_names ga ns)"
  by (induction ga ns r rule: team_loop.induct) (auto split: option.splits sum.splits)

lemma team_loop_undefined:
  "\<not> teams_ok ga ns \<Longrightarrow> \<exists>w. team_loop ga ns r = Inl (Undefined_behaviour w)"
  by (induction ga ns r rule: team_loop.induct)
    (auto simp: first_text_def split: option.splits sum.splits list.splits gumbo_node.splits if_splits)

lemma locate_clubs_names:
  "cells_ok ga n \<Longrightarrow> locate_clubs ga n r = Inr (r @ club_names ga n)"
  "cells_ok_in ga ns \<Longrightarrow> clubs_in_children ga ns r = Inr (r @ club_names_in ga ns)"
  by (induction ga n r and ga ns r rule: locate_clubs_clubs_in_children.induct)
    (auto simp: team_loop_names split: option.splits)

lemma locate_clubs_undefined:
  "\<not> cells_ok ga n \<Longrightarrow> \<exists>w. locate_clubs ga n r = Inl (Undefined_behaviour w)"
  "\<not> cells_ok_in ga ns \<Longrightarrow> \<exists>w. clubs_in_children ga ns r = Inl (Undefined_behaviour w)"
proof (induction ga n r and ga ns r rule: locate_clubs_clubs_in_children.induct)
  case (1 ga tag attrs children r)
  then show ?case
    using team_loop_undefined by (auto split: option.splits if_splits)
next
  case (6 ga node rest r)
  then show ?case
    by (cases "cells_ok ga node") (auto simp: locate_clubs_names)
qed auto

section \<open>Properties\<close>

text \<open>
  C34: On a page whose headings are well formed, the publisher reports the first heading, in
  document order, that says something; and it reports success whether or not there is one: a page
  without heading (or an empty answer of the web) is a success with an empty name. Only an
  exception while the page is fetched makes it fail, and then the previous name is handed out.
\<close>

theorem get_championship_outcome:
  "(web_get w (url @ ''/'') = Inr content \<and> page_ok (web_parse w content) \<longrightarrow>
      get_championship w url g = (Inr (True, [], first_heading (headings (web_parse w content))),
        g\<lparr>ge_championship := first_heading (headings (web_parse w content))\<rparr>))
   \<and> (web_get w (url @ ''/'') = Inl e \<and> is_std_exception e \<longrightarrow>
      get_championship w url g = (Inr (False, web_what w e, ge_championship g), g))"
  using locate_first(1) [of "web_parse w content"]
  by (auto simp: get_championship_def extract_html_page_def prog_simps)

definition sample_page :: gumbo_node where
  "sample_page = Element (Tag_other ''body'') []
     [Some (Element Tag_h2 [] [Some (Element Tag_a [] [Some (Text_node ''Paulista'')])]),
      Some (Element Tag_td [(''class'', ''table__team'')]
        [Some (Element Tag_a [(''class'', ''team-link'')] [Some (Text_node ''Santos'')])]),
      Some (Element Tag_td [] [Some (Text_node ''3'')])]"

definition sample_web :: web where
  "sample_web = \<lparr>web_get = (\<lambda>url. if url = ''down/'' then Inl Network_exception else Inr url),
     web_parse = (\<lambda>page. if page = ''paulista/'' then sample_page else Element (Tag_other ''body'') [] []),
     web_attribute = map_of, web_what = (\<lambda>_. ''failed'')\<rparr>"

theorem get_championship_outcome_witness:
  "fst (get_championship sample_web ''paulista'' gazeta_new) = Inr (True, [], ''Paulista'')
   \<and> fst (get_championship sample_web ''none'' gazeta_new) = Inr (True, [], [])
   \<and> fst (get_championship sample_web ''down'' gazeta_new) = Inr (False, ''failed'', [])"
  using get_championship_outcome [of sample_web "''paulista''" "''paulista/''" gazeta_new]
    get_championship_outcome [of sample_web "''none''" "''none/''" gazeta_new]
    get_championship_outcome [of sample_web "''down''" _ gazeta_new Network_exception]
  by (simp add: sample_web_def sample_page_def first_text_def gazeta_new_def)

text \<open>
  C35: The clubs reported are the team links of the page's team cells, in document order; but a
  page with a table cell that has no class at all is undefined behaviour, because the attribute
  is read through the pointer before it is compared.
\<close>

theorem get_championship_clubs_outcome:
  assumes "web_get w (url @ ''/'') = Inr content"
  shows "if cells_ok (web_attribute w) (web_parse w content)
    then get_championship_clubs w url g =
      (Inr (True, [], club_names (web_attribute w) (web_parse w content)),
       g\<lparr>ge_clubs := club_names (web_attribute w) (web_parse w content)\<rparr>)
    else \<exists>why. fst (get_championship_clubs w url g) = Inl (Undefined_behaviour why)"
  using assms locate_clubs_names(1) [of "web_attribute w" "web_parse w content" "[]"]
    locate_clubs_undefined(1) [of "web_attribute w" "web_parse w content" "[]"]
  by (auto simp: get_championship_clubs_def extract_html_page_def prog_simps)

theorem get_championship_clubs_outcome_witness:
  "\<exists>why. fst (get_championship_clubs sample_web ''paulista'' gazeta_new) = Inl (Undefined_behaviour why)"
  using get_championship_clubs_outcome [of sample_web "''paulista''" "''paulista/''" gazeta_new]
  by (simp add: sample_web_def sample_page_def first_text_def)

end
