(* ===== verification/Task.thy ===== *)
theory Task
  imports Mysql_Query Event_Action Publisher
begin

text \<open>
  \<^verbatim>\<open>scanner/task_base.hpp\<close>, \<^verbatim>\<open>task_new_championship.hpp\<close>, \<^verbatim>\<open>task_result.hpp\<close>: a task is a row of \<^verbatim>\<open>tasks\<close>
  whose properties are kept as JSON in one column; running it asks a publisher and gives a result that
  can be sent to the server.
\<close>

section \<open>Enumerations\<close>

text \<open>The underlying type is \<^verbatim>\<open>uint8_t\<close>, so a cast can give any 8-bit value.\<close>

datatype task_type = Tt_none | Tt_new_championship | Tt_unlisted "8 word"

definition task_type_code :: "task_type \<Rightarrow> 8 word" where
  "task_type_code tt = (case tt of Tt_none \<Rightarrow> 0 | Tt_new_championship \<Rightarrow> 1 | Tt_unlisted w \<Rightarrow> w)"

definition task_type_of :: "8 word \<Rightarrow> task_type" where
  "task_type_of w = (if w = 0 then Tt_none else if w = 1 then Tt_new_championship else Tt_unlisted w)"

datatype task_status =
  Ts_none | Ts_new_task | Ts_scheduled | Ts_running | Ts_finished | Ts_error | Ts_unlisted "8 word"

definition task_status_code :: "task_status \<Rightarrow> 8 word" where
  "task_status_code ts = (case ts of Ts_none \<Rightarrow> 0 | Ts_new_task \<Rightarrow> 1 | Ts_scheduled \<Rightarrow> 2 | Ts_running \<Rightarrow> 3
     | Ts_finished \<Rightarrow> 4 | Ts_error \<Rightarrow> 5 | Ts_unlisted w \<Rightarrow> w)"

definition task_status_of :: "8 word \<Rightarrow> task_status" where
  "task_status_of w = (if w = 0 then Ts_none else if w = 1 then Ts_new_task else if w = 2 then Ts_scheduled
     else if w = 3 then Ts_running else if w = 4 then Ts_finished else if w = 5 then Ts_error
     else Ts_unlisted w)"

definition publisher_code :: "publisher \<Rightarrow> 8 word" where
  "publisher_code p = (case p of Pub_none \<Rightarrow> 0 | Pub_gazeta_esportiva \<Rightarrow> 1 | Pub_unlisted w \<Rightarrow> w)"

definition publisher_of :: "8 word \<Rightarrow> publisher" where
  "publisher_of w = (if w = 0 then Pub_none else if w = 1 then Pub_gazeta_esportiva else Pub_unlisted w)"

section \<open>The object\<close>

record task = table +
  tk_id :: string
  tk_type :: task_type
  tk_status :: task_status
  tk_publisher :: publisher
  tk_results :: string
  tk_properties :: "(string, string) std_map"

definition task_fresh :: "string \<Rightarrow> publisher \<Rightarrow> task" where
  "task_fresh idd pub = table_ctor ''tasks'' ''id'' [] (task.fields idd Tt_none Ts_none pub [] [])"

definition set_property :: "string \<Rightarrow> string \<Rightarrow> task \<Rightarrow> task" where
  "set_property key v t = t\<lparr>tk_properties := map_put key v (tk_properties t)\<rparr>"

definition get_property :: "string \<Rightarrow> (task, string) prog" where
  "get_property key = (\<lambda>t. case map_index key (tk_properties t) of
     (v, m) \<Rightarrow> (Inr v, t\<lparr>tk_properties := m\<rparr>))"

text \<open>\<^verbatim>\<open>j[key] = value\<close> for each property, from a null value.\<close>

fun assign_properties :: "(string, string) std_map \<Rightarrow> json \<Rightarrow> fault + json" where
  "assign_properties [] j = Inr j"
| "assign_properties ((key, v) # m) j = (case json_assign key (J_string v) j of
      Inl e \<Rightarrow> Inl e
    | Inr j' \<Rightarrow> assign_properties m j')"

definition dump_properties :: "task \<Rightarrow> fault + string" where
  "dump_properties t = (case assign_properties (tk_properties t) J_null of
      Inl e \<Rightarrow> Inl e
    | Inr j \<Rightarrow> dump_strings j)"

fun set_properties :: "(string \<times> json) list \<Rightarrow> (task, unit) prog" where
  "set_properties [] = return_p ()"
| "set_properties ((key, v) # kvs) =
     bind_p (lift_p (json_get_string v)) (\<lambda>s.
     then_p (modify_p (set_property key s)) (set_properties kvs))"

definition read_properties :: "string \<Rightarrow> (task, unit) prog" where
  "read_properties props =
     bind_p (lift_p (json_parse props)) (\<lambda>j. set_properties (json_items j))"

text \<open>The members a row gives, as the constructor and \<^verbatim>\<open>reset\<close> read them.\<close>

definition task_load :: "(task, unit) prog" where
  "task_load =
     bind_p (\<lambda>t. (get_int ''type'' t, t)) (\<lambda>w.
     then_p (modify_p (\<lambda>t. t\<lparr>tk_type := task_type_of (ucast w)\<rparr>))
    (bind_p (\<lambda>t. (get_int ''status'' t, t)) (\<lambda>w.
     then_p (modify_p (\<lambda>t. t\<lparr>tk_status := task_status_of (ucast w)\<rparr>))
    (bind_p (\<lambda>t. (get_int ''publisher'' t, t)) (\<lambda>w.
     then_p (modify_p (\<lambda>t. t\<lparr>tk_publisher := publisher_of (ucast w)\<rparr>))
    (then_p (modify_p (\<lambda>t. t\<lparr>tk_results := get_field ''results'' t\<rparr>))
    (bind_p (gets_p (get_field ''properties'')) read_properties)))))))"

definition task_populate :: "(task, unit) prog" where
  "task_populate =
     then_p (modify_p (\<lambda>t. set_field ''id'' (tk_id t) t))
    (then_p (modify_p (\<lambda>t. set_field_u64 ''type'' (ucast (task_type_code (tk_type t))) t))
    (then_p (modify_p (\<lambda>t. set_field_u64 ''status'' (ucast (task_status_code (tk_status t))) t))
    (then_p (modify_p (\<lambda>t. set_field_u64 ''publisher'' (ucast (publisher_code (tk_publisher t))) t))
    (bind_p (\<lambda>t. (dump_properties t, t)) (\<lambda>props.
     then_p (modify_p (set_field ''properties'' props))
            (modify_p (\<lambda>t. set_field ''results'' (tk_results t) t)))))))"

definition task_reset :: "(task, unit) prog" where
  "task_reset = then_p (modify_p (\<lambda>t. t\<lparr>tk_id := get_field ''id'' t\<rparr>)) task_load"

definition task_vtable :: "(task, 'db) vtable" where
  "task_vtable = \<lparr>v_populate = task_populate, v_reset = task_reset, v_save_related = return_p True\<rparr>"

section \<open>Constructors and assignment\<close>

definition task_new :: "'db sql_api \<Rightarrow> string \<Rightarrow> publisher \<Rightarrow> ('db server, task) prog" where
  "task_new api idd pub =
     construct (task_fresh idd pub)
      (bind_p (start api ''id'' idd [] []) (\<lambda>b. if b then on_fst task_load else return_p ()))"

definition task_by_id :: "'db sql_api \<Rightarrow> string \<Rightarrow> ('db server, task) prog" where
  "task_by_id api idd = task_new api idd Pub_none"

definition task_default :: "'db sql_api \<Rightarrow> ('db server, task) prog" where
  "task_default api = bind_p (task_by_id api []) (\<lambda>t. construct t (on_fst task_populate))"

text \<open>Copy and move constructor do the same: the move constructor copies the table and every member.\<close>

definition task_copy :: "task \<Rightarrow> task" where
  "task_copy other = table_copy other"

definition task_assign :: "task \<Rightarrow> task \<Rightarrow> task" where
  "task_assign this other = this\<lparr>tk_id := tk_id other, tk_type := tk_type other, tk_status := tk_status other,
     tk_publisher := tk_publisher other, tk_properties := tk_properties other, tk_results := tk_results other\<rparr>"

definition task_equal :: "task \<Rightarrow> task \<Rightarrow> bool" where
  "task_equal this other \<longleftrightarrow> tk_id this = tk_id other \<and> tk_type this = tk_type other
     \<and> tk_status this = tk_status other \<and> tk_publisher this = tk_publisher other"

definition task_set_type :: "task_type \<Rightarrow> task \<Rightarrow> task" where
  "task_set_type x t = t\<lparr>tk_type := x\<rparr>"

definition task_set_status :: "task_status \<Rightarrow> task \<Rightarrow> task" where
  "task_set_status x t = t\<lparr>tk_status := x\<rparr>"

definition task_set_publisher :: "publisher \<Rightarrow> task \<Rightarrow> task" where
  "task_set_publisher x t = t\<lparr>tk_publisher := x\<rparr>"

definition task_set_results :: "string \<Rightarrow> task \<Rightarrow> task" where
  "task_set_results x t = t\<lparr>tk_results := x\<rparr>"

definition task_empty :: "task \<Rightarrow> bool" where
  "task_empty t \<longleftrightarrow> tk_id t = [] \<and> tk_type t = Tt_none \<and> tk_status t = Ts_none \<and> tk_publisher t = Pub_none"

definition new_championship_task_by_id :: "'db sql_api \<Rightarrow> string \<Rightarrow> ('db server, task) prog" where
  "new_championship_task_by_id api idd = task_by_id api idd"

definition new_championship_task ::
    "'db sql_api \<Rightarrow> publisher \<Rightarrow> string \<Rightarrow> string \<Rightarrow> string \<Rightarrow> ('db server, task) prog" where
  "new_championship_task api pub url country slots =
     bind_p (task_default api) (\<lambda>t.
     return_p (set_property ''slots'' slots (set_property ''country'' country (set_property ''url'' url
       (task_set_publisher pub (task_set_status Ts_new_task (task_set_type Tt_new_championship t)))))))"

section \<open>Results\<close>

text \<open>The one class derived from \<^verbatim>\<open>task_result\<close>, and what a \<^verbatim>\<open>task_result\<close> can be.\<close>

datatype task_result = R_new_championship new_championship

fun result_event :: "task_result \<Rightarrow> event_type" where
  "result_event (R_new_championship _) = Ev_new_championship"

text \<open>\<^verbatim>\<open>std::copy(s.begin(), s.end(), arr.data())\<close> into a zeroed array of \<open>n\<close>: it does not stop at its end.\<close>

definition copy_into :: "nat \<Rightarrow> string \<Rightarrow> fault + 32 word list" where
  "copy_into n s = (if n < length s then Inl (Undefined_behaviour ''copy past the array'')
     else Inr (map widen s @ replicate (n - length s) 0))"

definition result_new_championship :: "string \<Rightarrow> string \<Rightarrow> string \<Rightarrow> fault + task_result" where
  "result_new_championship name country slots = (case copy_into 100 name of
      Inl e \<Rightarrow> Inl e
    | Inr n \<Rightarrow> (case copy_into 2 country of
          Inl e \<Rightarrow> Inl e
        | Inr c \<Rightarrow> Inr (R_new_championship
            \<lparr>nch_name = n, nch_country = c, nch_type = Ev_new_championship\<rparr>)))"

fun result_get :: "task_result \<Rightarrow> new_championship" where
  "result_get (R_new_championship ch) = ch"

fun result_json :: "task_result \<Rightarrow> fault + string" where
  "result_json (R_new_championship ch) =
     (case json_assign ''name'' (J_string (wide_text (nch_name ch))) J_null of
        Inl e \<Rightarrow> Inl e
      | Inr j \<Rightarrow> (case json_assign ''country'' (J_string (map narrow (nch_country ch))) j of
            Inl e \<Rightarrow> Inl e
          | Inr j \<Rightarrow> dump_strings j))"

text \<open>\<^verbatim>\<open>new_championship_task::run\<close>\<close>

definition task_run :: "web \<Rightarrow> (task, bool \<times> string \<times> task_result option) prog" where
  "task_run w =
     bind_p (get_property ''url'') (\<lambda>url.
     bind_p (gets_p tk_publisher) (\<lambda>pub.
     bind_p (lift_p (get_new_championship w pub url)) (\<lambda>(success, message, championship).
     if success then
       bind_p (get_property ''country'') (\<lambda>country.
       bind_p (get_property ''slots'') (\<lambda>slots.
       bind_p (lift_p (result_new_championship championship country slots)) (\<lambda>result.
       return_p (success, message, Some result))))
     else return_p (success, message, None))))"

section \<open>The contract of a table\<close>

text \<open>What reading a row into the members leaves alone: the table the task is.\<close>

definition row_kept :: "task \<Rightarrow> task \<Rightarrow> bool" where
  "row_kept t t' \<longleftrightarrow> table.truncate t' = table.truncate t"

lemma row_kept_order: "reflp row_kept" "transp row_kept"
  by (auto simp: row_kept_def intro: reflpI transpI)

lemma row_keptD:
  "row_kept t t' \<Longrightarrow> tablename t' = tablename t \<and> key_field1 t' = key_field1 t \<and> key_field2 t' = key_field2 t
     \<and> fields_values t' = fields_values t \<and> sql_count t' = sql_count t \<and> found_flag t' = found_flag t"
  by (simp add: row_kept_def table.truncate_def)

lemma keeps_state: "(\<And>s. R s s) \<Longrightarrow> keeps R (\<lambda>s. (f s, s))"
  by (simp add: keeps_def)

lemma keeps_row_modify: "(\<And>t. table.truncate (f t) = table.truncate t) \<Longrightarrow> keeps row_kept (modify_p f)"
  by (rule keeps_modify) (simp add: row_kept_def)

lemma set_properties_keeps: "keeps row_kept (set_properties kvs)"
proof (induction kvs)
  case Nil
  then show ?case by (simp add: keeps_return row_kept_order)
next
  case (Cons kv kvs)
  then show ?case
    by (cases kv) (auto intro!: keeps_bind keeps_lift keeps_then keeps_row_modify row_kept_order
        simp: set_property_def table.truncate_def)
qed

lemma task_load_keeps: "keeps row_kept task_load"
  unfolding task_load_def read_properties_def
  by (intro keeps_bind keeps_then keeps_state keeps_row_modify keeps_gets keeps_lift set_properties_keeps row_kept_order)
    (simp_all add: row_kept_def table.truncate_def)

lemma task_reset_keeps: "keeps row_kept task_reset"
  unfolding task_reset_def
  by (intro keeps_then keeps_row_modify task_load_keeps row_kept_order) (simp add: table.truncate_def)

interpretation tsk: table_class task_vtable
proof unfold_locales
  show "keeps same_object (v_populate task_vtable)"
    unfolding task_vtable_def task_populate_def vtable.simps
    by (intro keeps_bind keeps_then keeps_modify_object keeps_state transp_same_object)
      (auto simp: same_object_def)
  show "keeps same_object (v_reset task_vtable)"
    unfolding task_vtable_def vtable.simps
  proof (rule keepsI)
    fix t r t'
    assume "task_reset t = (r, t')"
    then have "row_kept t t'" by (rule keepsD [OF task_reset_keeps])
    then show "same_object t t'" by (auto simp: same_object_def dest: row_keptD)
  qed
next
  fix t r t'
  assume "v_reset task_vtable t = (r, t')"
  then have "row_kept t t'" by (intro keepsD [OF task_reset_keeps]) (simp add: task_vtable_def)
  then show "fields_values t' = fields_values t \<and> found_flag t' = found_flag t \<and> sql_count t' = sql_count t"
    by (auto dest: row_keptD)
qed (auto simp: task_vtable_def prog_simps)

section \<open>Properties as JSON\<close>

lemma assign_properties_map:
  "map_ok (pre @ m) \<Longrightarrow> pre \<noteq> [] \<Longrightarrow>
     assign_properties m (J_object (map (map_prod id J_string) pre)) = Inr (J_object (map (map_prod id J_string) (pre @ m)))"
proof (induction m arbitrary: pre)
  case (Cons kv m)
  obtain k v where kv: "kv = (k, v)" by fastforce
  with Cons.prems have "\<forall>k' \<in> fst ` set (map (map_prod id J_string) pre). k' < k"
    by (auto simp: map_ok_def sorted_wrt_append)
  from map_put_last(1) [OF this, of "J_string v"] Cons.IH [of "pre @ [kv]"] Cons.prems kv
  show ?case by (simp add: id_def)
qed simp

lemma dump_properties_json:
  assumes "map_ok (tk_properties t)"
  shows "dump_properties t = dump_strings (if tk_properties t = [] then J_null else json_of_map (tk_properties t))"
proof (cases "tk_properties t")
  case (Cons kv m)
  obtain k v where "kv = (k, v)" by fastforce
  with Cons assms assign_properties_map [of "[kv]" m] show ?thesis
    by (simp add: dump_properties_def json_of_map_def)
qed (simp add: dump_properties_def)

lemma set_properties_map:
  "set_properties (map (map_prod id J_string) m) t = (Inr (), fold (\<lambda>(k, v). set_property k v) m t)"
  by (induction m arbitrary: t) (auto simp: prog_simps)

lemma fold_set_property:
  "fold (\<lambda>(k, v). set_property k v) m t = t\<lparr>tk_properties := fold (\<lambda>(k, v). map_put k v) m (tk_properties t)\<rparr>"
  by (induction m arbitrary: t) (auto simp: set_property_def)

lemma read_dumped:
  assumes "map_ok m" and "dump_strings (if m = [] then J_null else json_of_map m) = Inr u"
  shows "read_properties u t = (Inr (), t\<lparr>tk_properties := fold (\<lambda>(k, v). map_put k v) m (tk_properties t)\<rparr>)"
proof -
  let ?j = "if m = [] then J_null else json_of_map m"
  from assms(1) have "json_ok ?j" by (auto simp: json_of_map_def map_ok_def list_all_iff comp_def)
  with assms(2) have "json_parse u = Inr ?j" unfolding dump_strings_def by (rule parse_dump [rotated])
  moreover have "json_items ?j = map (map_prod id J_string) m" by (simp add: json_of_map_def)
  ultimately show ?thesis
    by (simp add: read_properties_def prog_simps set_properties_map fold_set_property)
qed

lemma map_of_fold_put:
  "map_ok m \<Longrightarrow> map_of (fold (\<lambda>(k, v). map_put k v) m p) = map_of p ++ map_of m"
proof (induction m arbitrary: p)
  case (Cons kv m)
  obtain k v where kv: "kv = (k, v)" by fastforce
  with Cons.prems have "map_of m k = None" and "map_ok m"
    by (simp_all add: map_of_ok_notin map_ok_Cons)
  with Cons.IH [of "map_put k v p"] kv show ?case
    by (auto simp: map_add_def fun_eq_iff split: option.splits)
qed simp

lemma map_ok_fold_put: "map_ok p \<Longrightarrow> map_ok (fold (\<lambda>(k, v). map_put k v) m p)"
  by (induction m arbitrary: p) auto

section \<open>Properties\<close>

lemma byte_wide: "unat (ucast (c :: 8 word) :: 64 word) = unat c"
  by transfer (simp add: take_bit_nat_def nat_take_bit_eq take_bit_eq_mod)

lemma byte_back: "ucast (ucast (c :: 8 word) :: 64 word) = c"
  by transfer simp

lemma get_int_set:
  "get_int k (set_field_u64 k' (ucast (c :: 8 word)) t) = (if k = k' then Inr (ucast c) else get_int k t)"
  "k \<noteq> k' \<Longrightarrow> get_int k (set_field k' v t) = get_int k t"
proof -
  have "unat c < 2 ^ 31" using unsigned_less [of c, where 'a = nat] by simp
  then show "get_int k (set_field_u64 k' (ucast c) t) = (if k = k' then Inr (ucast c) else get_int k t)"
    by (simp add: get_int_def set_field_u64_def to_string_u64_def byte_wide stoi_decimal)
qed (simp add: get_int_def set_field_def)

text \<open>No listed value of an enumeration is written as an unlisted one.\<close>

definition task_codes_ok :: "task \<Rightarrow> bool" where
  "task_codes_ok t \<longleftrightarrow> task_type_of (task_type_code (tk_type t)) = tk_type t
     \<and> task_status_of (task_status_code (tk_status t)) = tk_status t
     \<and> publisher_of (publisher_code (tk_publisher t)) = tk_publisher t"

lemma fold_put_self: "map_ok m \<Longrightarrow> fold (\<lambda>(k, v). map_put k v) m m = m"
  by (rule map_ok_unique)
    (auto simp: map_ok_fold_put map_of_fold_put map_add_def fun_eq_iff split: option.splits)

lemma dump_properties_text:
  assumes "map_ok (tk_properties t)" and "dump_properties t = Inr u"
  shows "u \<noteq> []"
    and "read_properties u t' = (Inr (), t'\<lparr>tk_properties := fold (\<lambda>(k, v). map_put k v) (tk_properties t) (tk_properties t')\<rparr>)"
proof -
  show read: "read_properties u t'
      = (Inr (), t'\<lparr>tk_properties := fold (\<lambda>(k, v). map_put k v) (tk_properties t) (tk_properties t')\<rparr>)" for t'
    using read_dumped [OF assms(1), of u t'] assms(2) by (simp add: dump_properties_json [OF assms(1)])
  have "\<not> isl (fst (read_properties u t))" by (simp add: read)
  moreover have "isl (json_parse [])" by code_simp
  then have "isl (fst (read_properties [] t))" by (auto simp: read_properties_def prog_simps split: sum.splits)
  ultimately show "u \<noteq> []" by auto
qed

lemma set_field_task [simp]:
  fixes t :: task
  shows "tk_id (set_field k v t) = tk_id t" "tk_type (set_field k v t) = tk_type t"
    "tk_status (set_field k v t) = tk_status t" "tk_publisher (set_field k v t) = tk_publisher t"
    "tk_results (set_field k v t) = tk_results t" "tk_properties (set_field k v t) = tk_properties t"
  by (simp_all add: set_field_def)

lemma set_field_u64_task [simp]:
  fixes t :: task
  shows "tk_id (set_field_u64 k w t) = tk_id t" "tk_type (set_field_u64 k w t) = tk_type t"
    "tk_status (set_field_u64 k w t) = tk_status t" "tk_publisher (set_field_u64 k w t) = tk_publisher t"
    "tk_results (set_field_u64 k w t) = tk_results t" "tk_properties (set_field_u64 k w t) = tk_properties t"
  by (simp_all add: set_field_u64_def)

lemma dump_properties_same: "tk_properties t = tk_properties t' \<Longrightarrow> dump_properties t = dump_properties t'"
  by (simp add: dump_properties_def)

text \<open>The row after \<^verbatim>\<open>populate\<close>, the text of the properties being \<open>u\<close>.\<close>

definition task_written :: "string \<Rightarrow> task \<Rightarrow> task" where
  "task_written u t = set_field ''results'' (tk_results t) (set_field ''properties'' u
     (set_field_u64 ''publisher'' (ucast (publisher_code (tk_publisher t)))
     (set_field_u64 ''status'' (ucast (task_status_code (tk_status t)))
     (set_field_u64 ''type'' (ucast (task_type_code (tk_type t))) (set_field ''id'' (tk_id t) t)))))"

lemma task_populate_written:
  "task_populate t = (case dump_properties t of Inl e \<Rightarrow> (Inl e, snd (task_populate t))
     | Inr u \<Rightarrow> (Inr (), task_written u t))"
proof -
  have same: "dump_properties (set_field_u64 k3 w3 (set_field_u64 k2 w2 (set_field_u64 k1 w1 (set_field k v t))))
      = dump_properties t" for k3 w3 k2 w2 k1 w1 k v
    by (rule dump_properties_same) simp
  show ?thesis
    by (simp add: task_populate_def prog_simps task_written_def same split: sum.splits)
qed

lemma task_load_runs:
  assumes "get_int ''type'' t = Inr a" and "get_int ''status'' t = Inr b" and "get_int ''publisher'' t = Inr c"
    and "\<And>t'. read_properties (get_field ''properties'' t) t' = (Inr (), t'\<lparr>tk_properties := f (tk_properties t')\<rparr>)"
  shows "task_load t = (Inr (), t\<lparr>tk_type := task_type_of (ucast a), tk_status := task_status_of (ucast b),
     tk_publisher := publisher_of (ucast c), tk_results := get_field ''results'' t,
     tk_properties := f (tk_properties t)\<rparr>)"
proof -
  have "get_int k (t\<lparr>tk_type := x, tk_status := y\<rparr>) = get_int k t"
    "get_int k (t\<lparr>tk_type := x\<rparr>) = get_int k t"
    "get_field k (t\<lparr>tk_type := x, tk_status := y, tk_publisher := z\<rparr>) = get_field k t"
    "get_field k (t\<lparr>tk_type := x, tk_status := y, tk_publisher := z, tk_results := r\<rparr>) = get_field k t"
    for k x y z r
    by (simp_all add: get_int_def get_field_def)
  with assms show ?thesis by (simp add: task_load_def prog_simps)
qed

section \<open>A task and its row\<close>

lemma get_field_same: "fields_values t = fields_values t' \<Longrightarrow> get_field k t = get_field k t'"
  by (simp add: get_field_def)

lemma get_int_same: "fields_values t = fields_values t' \<Longrightarrow> get_int k t = get_int k t'"
  by (simp add: get_int_def)

lemma task_same_members:
  fixes w :: task
  shows "tk_type w = a \<Longrightarrow> tk_status w = b \<Longrightarrow> tk_publisher w = c \<Longrightarrow> tk_properties w = p \<Longrightarrow>
    w\<lparr>tk_id := i, tk_type := a, tk_status := b, tk_publisher := c, tk_results := r, tk_properties := p\<rparr>
      = w\<lparr>tk_id := i, tk_results := r\<rparr>"
  by (cases w) auto

text \<open>
  C37: A task written to its row and read back is the task: its kind, state, publisher and properties
  (which travel through JSON text) come back. Its id and results come back unless empty; an empty one
  is not written, so the row keeps the old text and the task gets that.
\<close>

theorem task_stored:
  assumes "task_codes_ok t" and "map_ok (tk_properties t)" and "dump_properties t = Inr u"
  shows "\<exists>t'. task_populate t = (Inr (), t')
    \<and> task_reset t' = (Inr (), t'\<lparr>tk_id := (if tk_id t = [] then get_field ''id'' t else tk_id t),
         tk_results := (if tk_results t = [] then get_field ''results'' t else tk_results t)\<rparr>)
    \<and> tk_type t' = tk_type t \<and> tk_status t' = tk_status t \<and> tk_publisher t' = tk_publisher t
    \<and> tk_properties t' = tk_properties t"
proof (intro exI conjI)
  let ?w = "task_written u t"
  let ?w' = "?w\<lparr>tk_id := get_field ''id'' ?w\<rparr>"
  from assms(3) show "task_populate t = (Inr (), ?w)" by (subst task_populate_written) simp
  note texts = dump_properties_text [OF assms(2,3)]
  have same: "get_field k (?w\<lparr>tk_id := i\<rparr>) = get_field k ?w" "get_int k (?w\<lparr>tk_id := i\<rparr>) = get_int k ?w" for k i
    by (rule get_field_same get_int_same; simp)+
  have ints: "get_int ''type'' ?w' = Inr (ucast (task_type_code (tk_type t)))"
    "get_int ''status'' ?w' = Inr (ucast (task_status_code (tk_status t)))"
    "get_int ''publisher'' ?w' = Inr (ucast (publisher_code (tk_publisher t)))"
    unfolding same by (simp_all add: task_written_def get_int_set)
  have "get_field ''properties'' ?w' = u"
    unfolding same using texts(1) by (simp add: task_written_def get_set_field)
  with texts(2) have "read_properties (get_field ''properties'' ?w') t'
      = (Inr (), t'\<lparr>tk_properties := fold (\<lambda>(k, v). map_put k v) (tk_properties t) (tk_properties t')\<rparr>)" for t'
    by simp
  from task_load_runs [OF ints this] have "task_load ?w' = (Inr (), ?w'\<lparr>
      tk_type := task_type_of (ucast (ucast (task_type_code (tk_type t)) :: 64 word)),
      tk_status := task_status_of (ucast (ucast (task_status_code (tk_status t)) :: 64 word)),
      tk_publisher := publisher_of (ucast (ucast (publisher_code (tk_publisher t)) :: 64 word)),
      tk_results := get_field ''results'' ?w',
      tk_properties := fold (\<lambda>(k, v). map_put k v) (tk_properties t) (tk_properties ?w')\<rparr>)" .
  moreover have "tk_properties ?w' = tk_properties t" "tk_type ?w' = tk_type t"
    "tk_status ?w' = tk_status t" "tk_publisher ?w' = tk_publisher t"
    by (simp_all add: task_written_def)
  moreover have "get_field ''id'' ?w = (if tk_id t = [] then get_field ''id'' t else tk_id t)"
    "get_field ''results'' ?w = (if tk_results t = [] then get_field ''results'' t else tk_results t)"
    by (simp_all add: task_written_def get_set_field get_set_field_u64)
  ultimately show "task_reset ?w = (Inr (), ?w\<lparr>tk_id := (if tk_id t = [] then get_field ''id'' t else tk_id t),
      tk_results := (if tk_results t = [] then get_field ''results'' t else tk_results t)\<rparr>)"
    using assms(1) unfolding task_reset_def
    by (simp add: prog_simps byte_back fold_put_self [OF assms(2)] task_codes_ok_def same task_same_members del: if_split)
qed (simp_all add: task_written_def)

definition sample_task :: task where
  "sample_task = (task_fresh ''7'' Pub_gazeta_esportiva)\<lparr>tk_type := Tt_new_championship,
     tk_properties := [(''country'', ''BR''), (''slots'', ''16''), (''url'', ''paulista'')]\<rparr>"

lemma sample_task_text: "dump_properties sample_task = Inr (projr (dump_properties sample_task))"
  by code_simp

theorem task_stored_witness:
  "\<exists>t'. task_populate sample_task = (Inr (), t') \<and> fst (task_reset t') = Inr ()
     \<and> tk_properties (snd (task_reset t')) = tk_properties sample_task"
proof -
  have "task_codes_ok sample_task" and "map_ok (tk_properties sample_task)"
    by (simp_all add: sample_task_def task_codes_ok_def task_fresh_def table_ctor_def task.fields_def
        task_type_code_def task_type_of_def task_status_code_def task_status_of_def
        publisher_code_def publisher_of_def map_ok_def)
  from task_stored [OF this sample_task_text] show ?thesis by auto
qed

end
