(* ===== verification/Scheduler.thy ===== *)
theory Scheduler
  imports Task Tsqueue
begin

text \<open>
  \<^verbatim>\<open>scanner/scheduler.hpp\<close>: the thread that looks for new tasks, runs them and queues their results
  for the client. It works on the shared server and on the queue it shares with the client's thread,
  which only takes from the front: what it does is said of every queue it may find.
\<close>

definition tasks_stmt :: string where
  "tasks_stmt = ''SELECT id, type FROM tasks WHERE status = ''
     @ to_string_u64 (ucast (task_status_code Ts_new_task))"

text \<open>\<^verbatim>\<open>s.erase(remove(s.begin(), s.end(), '\"'), s.end())\<close>\<close>

definition unquote :: "string \<Rightarrow> string" where
  "unquote s = filter (\<lambda>c. c \<noteq> CHR 0x22) s"

text \<open>\<^verbatim>\<open>row[key].dump()\<close> without its quotes; the rows come from \<^verbatim>\<open>prepare_execute\<close> and hold strings.\<close>

definition row_text :: "string \<Rightarrow> json \<Rightarrow> fault + string \<times> json" where
  "row_text key row = (case json_index key row of
      Inl e \<Rightarrow> Inl e
    | Inr (v, row') \<Rightarrow> (case dump_strings v of Inl e \<Rightarrow> Inl e | Inr t \<Rightarrow> Inr (unquote t, row')))"

definition task_of_row :: "json \<Rightarrow> fault + string \<times> task_type" where
  "task_of_row row = (case row_text ''id'' row of
      Inl e \<Rightarrow> Inl e
    | Inr (sid, row) \<Rightarrow> (case row_text ''type'' row of
          Inl e \<Rightarrow> Inl e
        | Inr (stype, _) \<Rightarrow> (case stoul stype of
              Inl e \<Rightarrow> Inl e
            | Inr w \<Rightarrow> Inr (sid, task_type_of (ucast w)))))"

fun read_tasks :: "'db sql_api \<Rightarrow> json list \<Rightarrow> task list \<Rightarrow> ('db server, task list) prog" where
  "read_tasks api [] tasks = return_p tasks"
| "read_tasks api (row # rows) tasks =
     bind_p (lift_p (task_of_row row)) (\<lambda>(sid, type).
     case type of
       Tt_new_championship \<Rightarrow>
         bind_p (new_championship_task_by_id api sid) (\<lambda>t. read_tasks api rows (tasks @ [t]))
     | _ \<Rightarrow> read_tasks api rows tasks)"

text \<open>The tasks are local to the pass; the one being run is passed along.\<close>

definition run_local :: "web \<Rightarrow> task \<Rightarrow> ('s, (bool \<times> string \<times> task_result option) \<times> task) prog" where
  "run_local w t = (\<lambda>s. case task_run w t of
      (Inl e, _) \<Rightarrow> (Inl e, s)
    | (Inr r, t') \<Rightarrow> (Inr (r, t'), s))"

definition process_task :: "'db sql_api \<Rightarrow> web \<Rightarrow> task \<Rightarrow> ('db server \<times> task_result tsqueue, unit) prog" where
  "process_task api w t =
     bind_p (on_fst (save_local api task_vtable (task_set_status Ts_running t))) (\<lambda>(saved, t).
     if saved then
       bind_p (run_local w t) (\<lambda>((success, message, found), t).
       if success then
         (case found of
            None \<Rightarrow> throw_p (Undefined_behaviour ''null result'')
          | Some result \<Rightarrow>
              bind_p (lift_p (result_json result)) (\<lambda>js.
              bind_p (on_fst (save_local api task_vtable
                  (task_set_status Ts_finished (task_set_results js t)))) (\<lambda>(saved, t).
              if saved then on_snd (modify_p (ts_push_back result)) else return_p ())))
       else
         then_p (on_fst (save_local api task_vtable
                  (task_set_status Ts_error (task_set_results message t))))
                (return_p ()))
     else return_p ())"

fun process_tasks :: "'db sql_api \<Rightarrow> web \<Rightarrow> task list \<Rightarrow> ('db server \<times> task_result tsqueue, unit) prog" where
  "process_tasks api w [] = return_p ()"
| "process_tasks api w (t # ts) = then_p (process_task api w t) (process_tasks api w ts)"

definition scheduler_pass :: "'db sql_api \<Rightarrow> web \<Rightarrow> ('db server \<times> task_result tsqueue, unit) prog" where
  "scheduler_pass api w =
     bind_p (on_fst (prepare_execute api tasks_stmt)) (\<lambda>t.
     bind_p (lift_p (json_parse t)) (\<lambda>tbl.
     bind_p (on_fst (read_tasks api (json_values tbl) [])) (process_tasks api w)))"

text \<open>
  \<^verbatim>\<open>thread_run\<close>, over the passes it may make: the web each finds, and what \<^verbatim>\<open>cancel_thread\<close> is after it.
  True: it has returned; False: it is still in the loop.
\<close>

fun scheduler_run :: "'db sql_api \<Rightarrow> (web \<times> bool) list \<Rightarrow> ('db server \<times> task_result tsqueue, bool) prog" where
  "scheduler_run api [] = return_p False"
| "scheduler_run api ((w, cancel_thread) # passes) =
     then_p (scheduler_pass api w)
            (if cancel_thread then return_p True else scheduler_run api passes)"

text \<open>
  The life of a scheduler: the constructor starts the thread, the destructor sets the flag during the
  last pass, waits, and has the thread's exception rethrown, out of a destructor.
\<close>

definition scheduler_life :: "'db sql_api \<Rightarrow> web list \<Rightarrow> web \<Rightarrow> ('db server \<times> task_result tsqueue, unit) prog" where
  "scheduler_life api ws w =
     then_p (catch_p is_std_exception
              (scheduler_run api (map (\<lambda>w. (w, False)) ws @ [(w, True)]))
              (\<lambda>e. throw_p Terminated))
            (return_p ())"

section \<open>What is queued\<close>

text \<open>A result of the web \<open>w\<close>: what a publisher's page said, made into a message.\<close>

definition found_on :: "web \<Rightarrow> task_result \<Rightarrow> bool" where
  "found_on w res \<longleftrightarrow> (\<exists>pub url message name country slots.
     get_new_championship w pub url = Inr (True, message, name)
     \<and> result_new_championship name country slots = Inr res)"

definition queue_grows :: "(task_result \<Rightarrow> bool) \<Rightarrow> 'db server \<times> task_result tsqueue \<Rightarrow> 'db server \<times> task_result tsqueue \<Rightarrow> bool" where
  "queue_grows P st st' \<longleftrightarrow> (\<exists>rs. ts_queue (snd st') = ts_queue (snd st) @ rs \<and> list_all P rs)"

lemma queue_grows_order: "reflp (queue_grows P)" "transp (queue_grows P)"
proof -
  show "reflp (queue_grows P)"
    by (rule reflpI) (auto simp: queue_grows_def intro: exI [of _ "[]"])
  show "transp (queue_grows P)"
  proof (rule transpI)
    fix x y z
    assume "queue_grows P x y" and "queue_grows P y z"
    then obtain rs rs' where "ts_queue (snd y) = ts_queue (snd x) @ rs" and "list_all P rs"
      and "ts_queue (snd z) = ts_queue (snd y) @ rs'" and "list_all P rs'"
      by (auto simp: queue_grows_def)
    then show "queue_grows P x z"
      by (auto simp: queue_grows_def intro: exI [of _ "rs @ rs'"])
  qed
qed

lemma keeps_server: "keeps (queue_grows P) (on_fst m)"
  by (auto simp: keeps_def on_fst_def queue_grows_def split: prod.splits)

lemma keeps_push: "P r \<Longrightarrow> keeps (queue_grows P) (on_snd (modify_p (ts_push_back r)))"
  by (auto simp: keeps_def on_snd_def modify_p_def queue_grows_def ts_push_back_def split: prod.splits)

lemma keeps_bind_value:
  assumes "transp R" and "keeps R m" and "\<And>x s s'. m s = (Inr x, s') \<Longrightarrow> keeps R (f x)"
  shows "keeps R (bind_p m f)"
proof (rule keepsI)
  fix s r s'
  assume run: "bind_p m f s = (r, s')"
  obtain q t where m: "m s = (q, t)" by fastforce
  with assms(2) have st: "R s t" by (rule keepsD)
  show "R s s'"
  proof (cases q)
    case (Inl e)
    with run m st show ?thesis by (simp add: bind_p_def)
  next
    case (Inr x)
    with run m have "f x t = (r, s')" by (simp add: bind_p_def)
    moreover from Inr m assms(3) have "keeps R (f x)" by blast
    ultimately have "R t s'" by (auto dest: keepsD)
    with st assms(1) show ?thesis by (blast dest: transpD)
  qed
qed

text \<open>A run that succeeds has a result, and the result is of the web it ran on.\<close>

lemma task_run_found:
  assumes "task_run w t = (Inr (True, message, found), t')"
  shows "\<exists>res. found = Some res \<and> found_on w res"
  using assms by (fastforce simp: task_run_def found_on_def runs split: prod.splits if_splits)

lemma run_local_found:
  "run_local w t s = (Inr ((True, message, found), t'), s') \<Longrightarrow> \<exists>res. found = Some res \<and> found_on w res"
  by (auto simp: run_local_def dest: task_run_found split: prod.splits sum.splits)

lemma keeps_run_local: "reflp R \<Longrightarrow> keeps R (run_local w t)"
  by (auto simp: keeps_def run_local_def dest: reflpD split: prod.splits sum.splits)

lemma process_task_grows: "keeps (queue_grows (found_on w)) (process_task api w t)"
proof -
  let ?R = "queue_grows (found_on w)"
  note rules = keeps_bind keeps_then keeps_server keeps_lift keeps_return keeps_throw queue_grows_order
  have run: "keeps ?R (bind_p (run_local w t) (\<lambda>((success, message, found), t).
       if success then
         (case found of
            None \<Rightarrow> throw_p (Undefined_behaviour ''null result'')
          | Some result \<Rightarrow>
              bind_p (lift_p (result_json result)) (\<lambda>js.
              bind_p (on_fst (save_local api task_vtable
                  (task_set_status Ts_finished (task_set_results js t)))) (\<lambda>(saved, t).
              if saved then on_snd (modify_p (ts_push_back result)) else return_p ())))
       else
         then_p (on_fst (save_local api task_vtable
                  (task_set_status Ts_error (task_set_results message t))))
                (return_p ())))" for t
    by (rule keeps_bind_value)
      (auto intro!: rules keeps_run_local keeps_push dest!: run_local_found split: option.splits)
  show ?thesis
    unfolding process_task_def by (rule keeps_bind) (auto intro!: rules run)
qed

lemma queue_grows_mono: "(\<And>r. P r \<Longrightarrow> Q r) \<Longrightarrow> keeps (queue_grows P) m \<Longrightarrow> keeps (queue_grows Q) m"
  by (fastforce simp: keeps_def queue_grows_def elim: list.pred_mono_strong)

lemma process_tasks_grows: "keeps (queue_grows (found_on w)) (process_tasks api w ts)"
  by (induction ts) (auto intro!: keeps_then keeps_return queue_grows_order process_task_grows)

lemma scheduler_pass_grows: "keeps (queue_grows (found_on w)) (scheduler_pass api w)"
  unfolding scheduler_pass_def
  by (intro keeps_bind keeps_server keeps_lift process_tasks_grows queue_grows_order)

lemma scheduler_run_grows:
  "keeps (queue_grows (\<lambda>r. \<exists>w \<in> fst ` set passes. found_on w r)) (scheduler_run api passes)"
proof (induction passes)
  case Nil
  then show ?case by (simp add: keeps_return queue_grows_order)
next
  case (Cons p passes)
  obtain w c where p: "p = (w, c)" by fastforce
  let ?R = "queue_grows (\<lambda>r. \<exists>w \<in> fst ` set (p # passes). found_on w r)"
  have "keeps ?R (scheduler_pass api w)"
    by (rule queue_grows_mono [OF _ scheduler_pass_grows]) (auto simp: p)
  moreover have "keeps ?R (scheduler_run api passes)"
    by (rule queue_grows_mono [OF _ Cons.IH]) auto
  ultimately show ?case
    by (simp add: p keeps_then keeps_return queue_grows_order)
qed

lemma scheduler_unconnected:
  "\<not> srv_connection s \<Longrightarrow>
     scheduler_run api ((w, c) # passes) (s, q) = (Inl (Undefined_behaviour ''null connection''), (s, q))"
  by (simp add: scheduler_pass_def prepare_execute_def prepare_def prog_simps)

section \<open>Properties\<close>

lemma result_fits:
  "result_new_championship name country slots = Inr res \<Longrightarrow> length name \<le> 100 \<and> length country \<le> 2"
  by (auto simp: result_new_championship_def copy_into_def split: if_splits)

text \<open>
  C38: Whatever the database answers and the web serves, and also when a pass ends in an exception: the
  scheduler adds to the end of the queue only, and each thing it adds is the outcome of a successful
  search of a page during these passes, with a name and a country that fit the message.
\<close>

theorem scheduler_results:
  "\<exists>rs. ts_queue (snd (snd (scheduler_run api passes (s, q)))) = ts_queue q @ rs
    \<and> list_all (\<lambda>res. \<exists>w pub url message name country slots. w \<in> fst ` set passes
        \<and> get_new_championship w pub url = Inr (True, message, name)
        \<and> length name \<le> 100 \<and> length country \<le> 2
        \<and> result_new_championship name country slots = Inr res) rs"
proof -
  have "queue_grows (\<lambda>r. \<exists>w \<in> fst ` set passes. found_on w r) (s, q) (snd (scheduler_run api passes (s, q)))"
    by (rule keepsD [OF scheduler_run_grows, of _ _ _ "fst (scheduler_run api passes (s, q))"]) simp
  then obtain rs where grows: "ts_queue (snd (snd (scheduler_run api passes (s, q)))) = ts_queue q @ rs"
    and found: "list_all (\<lambda>r. \<exists>w \<in> fst ` set passes. found_on w r) rs"
    by (auto simp: queue_grows_def)
  show ?thesis
  proof (intro exI conjI)
    show "ts_queue (snd (snd (scheduler_run api passes (s, q)))) = ts_queue q @ rs" by (rule grows)
    from found show "list_all (\<lambda>res. \<exists>w pub url message name country slots. w \<in> fst ` set passes
        \<and> get_new_championship w pub url = Inr (True, message, name)
        \<and> length name \<le> 100 \<and> length country \<le> 2
        \<and> result_new_championship name country slots = Inr res) rs"
    proof (rule list.pred_mono_strong)
      fix res
      assume "\<exists>w \<in> fst ` set passes. found_on w res"
      then obtain w pub url message name country slots
        where "w \<in> fst ` set passes" and "get_new_championship w pub url = Inr (True, message, name)"
          and res: "result_new_championship name country slots = Inr res"
        unfolding found_on_def by blast
      with result_fits [OF res] show "\<exists>w pub url message name country slots. w \<in> fst ` set passes
        \<and> get_new_championship w pub url = Inr (True, message, name)
        \<and> length name \<le> 100 \<and> length country \<le> 2
        \<and> result_new_championship name country slots = Inr res"
        by blast
    qed
  qed
qed

text \<open>
  One task, in the other direction: saved as running, with the page's name in hand, its result is queued
  if the second save succeeds; when name or country does not fit, the row stays as running.
\<close>

lemma process_task_queues:
  assumes "save_local api task_vtable (task_set_status Ts_running t) s = (Inr (True, t1), s1)"
    and "map_of (tk_properties t1) ''url'' = Some url" and "map_of (tk_properties t1) ''country'' = Some country"
    and "map_of (tk_properties t1) ''slots'' = Some slots"
    and "get_new_championship w (tk_publisher t1) url = Inr (True, message, name)"
  shows "process_task api w t (s, q) = (case result_new_championship name country slots of
      Inl e \<Rightarrow> (Inl e, (s1, q))
    | Inr res \<Rightarrow> (case result_json res of
          Inl e \<Rightarrow> (Inl e, (s1, q))
        | Inr js \<Rightarrow> (case save_local api task_vtable (task_set_status Ts_finished (task_set_results js t1)) s1 of
              (Inl e, s2) \<Rightarrow> (Inl e, (s2, q))
            | (Inr (saved, _), s2) \<Rightarrow> (Inr (), (s2, if saved then ts_push_back res q else q)))))"
proof -
  have same: "t1\<lparr>tk_properties := tk_properties t1\<rparr> = t1" by simp
  have "task_run w t1 = (case result_new_championship name country slots of
      Inl e \<Rightarrow> (Inl e, t1) | Inr res \<Rightarrow> (Inr (True, message, Some res), t1))"
    using assms(2-5) same by (simp add: task_run_def get_property_def map_index_def prog_simps split: sum.splits)
  with assms(1) show ?thesis
    by (simp add: process_task_def run_local_def prog_simps split: sum.splits prod.splits)
qed

end
