(* ===== verification/Client.thy ===== *)
theory Client
  imports Connection Task
begin

text \<open>
  \<^verbatim>\<open>net/client.hpp\<close> and \<^verbatim>\<open>net/football_client.hpp\<close>: the client's end. The connections it has made live
  at addresses; what is posted to \<^verbatim>\<open>m_context\<close> waits until the thread that runs the context takes it.
\<close>

section \<open>The client interface\<close>

datatype posted = Post_close | Post_send message

record client =
  cli_connection :: "nat option"
  cli_heap :: "nat \<Rightarrow> connection option"
  cli_fresh :: nat
  cli_posted :: "(nat \<times> posted) list"
  cli_thread :: bool
  cli_stopped :: bool
  cli_in :: "owned_message tsqueue"

definition ci_new :: client where
  "ci_new = \<lparr>cli_connection = None, cli_heap = (\<lambda>_. None), cli_fresh = 0, cli_posted = [],
     cli_thread = False, cli_stopped = False, cli_in = ts_new\<rparr>"

text \<open>
  \<^verbatim>\<open>connect\<close>, given whether the host is resolved (the resolver throws if not) and whether the socket
  is open when \<^verbatim>\<open>async_connect\<close> returns. A new connection replaces, and so deletes, the old one; a thread
  assigned to one that has not been joined ends the program.
\<close>

definition ci_connect :: "bool \<Rightarrow> bool \<Rightarrow> (client, bool) prog" where
  "ci_connect resolved opened = (\<lambda>cl.
     if \<not> resolved then (Inr False, cl)
     else
       (let a = cli_fresh cl;
            c = connection_new Client_side 0 False;
            heap = (case cli_connection cl of None \<Rightarrow> cli_heap cl | Some old \<Rightarrow> (cli_heap cl)(old := None));
            cl' = cl\<lparr>cli_connection := Some a, cli_fresh := Suc a, cli_heap := heap(a := Some (c\<lparr>c_open := opened\<rparr>))\<rparr>
        in if cli_thread cl' then (Inl Terminated, cl')
           else (Inr True, cl'\<lparr>cli_thread := True\<rparr>)))"

definition ci_is_connected :: "client \<Rightarrow> bool" where
  "ci_is_connected cl = (case cli_connection cl of
      None \<Rightarrow> False
    | Some a \<Rightarrow> (case cli_heap cl a of None \<Rightarrow> False | Some c \<Rightarrow> is_connected c))"

definition ci_post :: "posted \<Rightarrow> client \<Rightarrow> client" where
  "ci_post p cl = (case cli_connection cl of
      None \<Rightarrow> cl
    | Some a \<Rightarrow> cl\<lparr>cli_posted := cli_posted cl @ [(a, p)]\<rparr>)"

definition ci_send :: "message \<Rightarrow> client \<Rightarrow> client" where
  "ci_send msg cl = (if ci_is_connected cl then ci_post (Post_send msg) cl else cl)"

fun run_post :: "posted \<Rightarrow> connection \<Rightarrow> connection" where
  "run_post Post_close c = close_socket c"
| "run_post (Post_send msg) c = send_posted msg c"

text \<open>The context's thread takes the oldest thing posted; a stopped context runs nothing.\<close>

definition context_step :: "client \<Rightarrow> client" where
  "context_step cl = (if cli_thread cl \<and> \<not> cli_stopped cl then
      (case cli_posted cl of
         [] \<Rightarrow> cl
       | (a, p) # rest \<Rightarrow> cl\<lparr>cli_posted := rest, cli_heap := (cli_heap cl)(a := map_option (run_post p) (cli_heap cl a))\<rparr>)
     else cl)"

text \<open>
  \<^verbatim>\<open>disconnect\<close>: \<open>turns\<close> is how much the thread still runs before it sees the stop. The pointer is released,
  not reset: the connection stays in memory, and nothing refers to it any more.
\<close>

definition ci_disconnect :: "nat \<Rightarrow> client \<Rightarrow> client" where
  "ci_disconnect turns cl =
     (let cl = (if ci_is_connected cl then ci_post Post_close cl else cl);
          cl = (context_step ^^ turns) cl;
          cl = cl\<lparr>cli_stopped := True\<rparr>;
          cl = cl\<lparr>cli_thread := False\<rparr>
      in cl\<lparr>cli_connection := None\<rparr>)"

definition ci_incoming :: "client \<Rightarrow> owned_message tsqueue" where
  "ci_incoming cl = cli_in cl"

section \<open>The football client\<close>

text \<open>\<^verbatim>\<open>now\<close> is the count of \<^verbatim>\<open>system_clock::now()\<close>, eight bytes on the wire.\<close>

definition ping_server :: "64 word \<Rightarrow> client \<Rightarrow> client" where
  "ping_server now cl = ci_send (push_data u64_bytes now (message_new\<lparr>msg_id := Ev_ping\<rparr>)) cl"

text \<open>\<^verbatim>\<open>delete\<close> of the object a \<^verbatim>\<open>unique_ptr\<close> owns; None is an object that is gone.\<close>

definition delete_result :: "task_result option \<Rightarrow> fault + task_result option" where
  "delete_result obj = (case obj of
      None \<Rightarrow> Inl (Undefined_behaviour ''delete of a deleted object'')
    | Some _ \<Rightarrow> Inr None)"

definition result_message :: "task_result \<Rightarrow> message" where
  "result_message result =
     (let new_champ = result_get result
      in push_data enc_new_championship new_champ (message_new\<lparr>msg_id := nch_type new_champ\<rparr>))"

text \<open>
  The case of \<^verbatim>\<open>listen\<close> for a result: \<^verbatim>\<open>new_champ_task\<close> is a second owner of the object \<^verbatim>\<open>t_result\<close> owns. It
  deletes it at the end of the case, \<^verbatim>\<open>t_result\<close> at the end of the round.
\<close>

definition listen_result :: "task_result \<Rightarrow> (client, unit) prog" where
  "listen_result t_result = (case result_event t_result of
      Ev_new_championship \<Rightarrow>
        then_p (modify_p (ci_send (result_message t_result)))
       (bind_p (lift_p (delete_result (Some t_result))) (\<lambda>obj.
        bind_p (lift_p (delete_result obj)) (\<lambda>_. return_p ())))
    | _ \<Rightarrow> bind_p (lift_p (delete_result (Some t_result))) (\<lambda>_. return_p ()))"

text \<open>What arrives is looked at and printed; the response is read from the message without a check.\<close>

definition listen_message :: "owned_message \<Rightarrow> (client, unit) prog" where
  "listen_message om = (case msg_id (om_msg om) of
      Ev_new_championship \<Rightarrow> bind_p (lift_p (pull_data response_size dec_response (om_msg om))) (\<lambda>_. return_p ())
    | _ \<Rightarrow> return_p ())"

definition drain_incoming :: "(client, unit) prog" where
  "drain_incoming = (\<lambda>cl.
     case drain ts_pop_front ts_empty listen_message (ts_count (cli_in cl)) (cli_in cl, cl) of
       (r, (q, cl')) \<Rightarrow> (r, cl'\<lparr>cli_in := q\<rparr>))"

text \<open>
  One round of \<^verbatim>\<open>listen\<close>, over what the queues hold when it looks: the shared queue of results stands
  beside the client.
\<close>

definition listen_round :: "(task_result tsqueue \<times> client, unit) prog" where
  "listen_round = (\<lambda>(q, cl). 
     case drain ts_pop_front ts_empty listen_result (ts_count q) (q, cl) of
       (Inl e, qc) \<Rightarrow> (Inl e, qc)
     | (Inr _, qc) \<Rightarrow> on_snd drain_incoming qc)"

text \<open>
  \<^verbatim>\<open>listen\<close>, given what the other threads do between its rounds. True: it has returned; False: it is
  still in the loop.
\<close>

fun listen_rounds :: "(task_result tsqueue \<times> client \<Rightarrow> task_result tsqueue \<times> client) list \<Rightarrow>
    (task_result tsqueue \<times> client, bool) prog" where
  "listen_rounds [] = return_p False"
| "listen_rounds (others # rest) = then_p listen_round (then_p (modify_p others) (listen_rounds rest))"

definition listen :: "(task_result tsqueue \<times> client \<Rightarrow> task_result tsqueue \<times> client) list \<Rightarrow>
    (task_result tsqueue \<times> client, bool) prog" where
  "listen others =
     bind_p (on_snd (gets_p ci_is_connected)) (\<lambda>up.
     if \<not> up then return_p True else listen_rounds others)"

section \<open>After a disconnect\<close>

datatype client_op = Op_connect bool bool | Op_send message | Op_context | Op_disconnect nat

fun ci_do :: "client_op \<Rightarrow> client \<Rightarrow> client" where
  "ci_do (Op_connect resolved opened) cl = snd (ci_connect resolved opened cl)"
| "ci_do (Op_send msg) cl = ci_send msg cl"
| "ci_do Op_context cl = context_step cl"
| "ci_do (Op_disconnect turns) cl = ci_disconnect turns cl"

text \<open>Connections that are there already stay as they are; a new one has nothing to write.\<close>

definition nothing_sent :: "client \<Rightarrow> client \<Rightarrow> bool" where
  "nothing_sent cl cl' \<longleftrightarrow> cli_stopped cl' \<and> (\<forall>a c. cli_heap cl' a = Some c \<longrightarrow>
     cli_heap cl a = Some c \<or> ts_queue (c_out c) = [] \<and> c_wire c = [])"

lemma context_stopped: "cli_stopped cl \<Longrightarrow> (context_step ^^ n) cl = cl"
  by (induction n) (simp_all add: context_step_def)

lemma ci_post_heap [simp]:
  "cli_heap (ci_post p cl) = cli_heap cl" "cli_stopped (ci_post p cl) = cli_stopped cl"
  by (simp_all add: ci_post_def split: option.splits)

lemma nothing_sent_op:
  assumes "nothing_sent cl0 cl"
  shows "nothing_sent cl0 (ci_do op cl)"
proof (cases op)
  case (Op_connect resolved opened)
  with assms show ?thesis
    by (auto simp: ci_connect_def nothing_sent_def Let_def connection_new_def ts_new_def
        split: option.splits if_splits)
next
  case (Op_send msg)
  with assms show ?thesis by (simp add: ci_send_def nothing_sent_def)
next
  case Op_context
  with assms show ?thesis by (simp add: context_step_def nothing_sent_def)
next
  case (Op_disconnect turns)
  with assms show ?thesis
    by (simp add: ci_disconnect_def nothing_sent_def Let_def context_stopped)
qed

text \<open>
  The context is stopped for good (\<^verbatim>\<open>restart()\<close> is never called): whatever is done with a client that has
  been disconnected, connecting again included, no message reaches a connection any more.
\<close>

lemma disconnected_for_good:
  assumes "cli_heap (fold ci_do ops (ci_disconnect turns cl)) a = Some c"
  shows "cli_heap (ci_disconnect turns cl) a = Some c \<or> ts_queue (c_out c) = [] \<and> c_wire c = []"
proof -
  let ?cl = "ci_disconnect turns cl"
  have "nothing_sent ?cl (fold ci_do ops cl')" if "nothing_sent ?cl cl'" for cl'
    using that by (induction ops arbitrary: cl') (simp_all add: nothing_sent_op)
  moreover have "nothing_sent ?cl ?cl" by (simp add: nothing_sent_def ci_disconnect_def Let_def)
  ultimately have "nothing_sent ?cl (fold ci_do ops ?cl)" by blast
  with assms show ?thesis by (auto simp: nothing_sent_def)
qed

section \<open>Listening\<close>

lemma listen_result_undefined:
  "listen_result r cl = (Inl (Undefined_behaviour ''delete of a deleted object''), ci_send (result_message r) cl)"
  by (cases r) (simp add: listen_result_def delete_result_def prog_simps)

definition reply_whole :: "owned_message \<Rightarrow> bool" where
  "reply_whole om \<longleftrightarrow> msg_id (om_msg om) = Ev_new_championship \<longrightarrow> response_size \<le> length (msg_body (om_msg om))"

lemma listen_message_run:
  "listen_message om cl = (if reply_whole om then Inr () else Inl (Undefined_behaviour ''read past the message body''), cl)"
  by (auto simp: listen_message_def reply_whole_def pull_data_def Let_def prog_simps split: event_type.splits)

lemma listen_messages_run:
  "handle_list listen_message oms cl =
     (if list_all reply_whole oms then (Inr (), [], cl)
      else (Inl (Undefined_behaviour ''read past the message body''), tl (dropWhile reply_whole oms), cl))"
  by (induction oms) (simp_all add: listen_message_run)

lemma drain_incoming_run:
  "drain_incoming cl =
     (if list_all reply_whole (ts_queue (cli_in cl)) then (Inr (), cl\<lparr>cli_in := ts_new\<rparr>)
      else (Inl (Undefined_behaviour ''read past the message body''),
        cl\<lparr>cli_in := \<lparr>ts_queue = tl (dropWhile reply_whole (ts_queue (cli_in cl)))\<rparr>\<rparr>))"
  using tsq.drain_handles [of listen_message "ts_count (cli_in cl)" "cli_in cl" cl]
  by (auto simp: drain_incoming_def listen_messages_run ts_count_def ts_new_def)

section \<open>Properties\<close>

text \<open>
  C40: A round of \<^verbatim>\<open>listen\<close>. With a result in the queue, its message is handed to the connection and then
  the object is deleted a second time, which is undefined; no result gets past this. Without one, the
  messages that have arrived are all taken, unless the reply to a request is too short to hold a
  response, which is undefined too. Losing the connection does not end the loop: only a client that is
  not connected when it starts returns.
\<close>

theorem listen_outcome:
  "listen (others # rest) (q, cl) =
     (if \<not> ci_is_connected cl then (Inr True, (q, cl))
      else case ts_queue q of
        r # rs \<Rightarrow> (Inl (Undefined_behaviour ''delete of a deleted object''),
          (q\<lparr>ts_queue := rs\<rparr>, ci_send (result_message r) cl))
      | [] \<Rightarrow> (if list_all reply_whole (ts_queue (cli_in cl))
               then listen_rounds rest (others (q, cl\<lparr>cli_in := ts_new\<rparr>))
               else (Inl (Undefined_behaviour ''read past the message body''),
                 (q, cl\<lparr>cli_in := \<lparr>ts_queue = tl (dropWhile reply_whole (ts_queue (cli_in cl)))\<rparr>\<rparr>))))"
proof (cases "ts_queue q")
  case Nil
  then have "listen_round (q, cl) = on_snd drain_incoming (q, cl)"
    by (simp add: listen_round_def ts_count_def)
  with Nil show ?thesis
    by (simp add: listen_def prog_simps drain_incoming_run)
next
  case (Cons r rs)
  then have "listen_round (q, cl) = (Inl (Undefined_behaviour ''delete of a deleted object''),
      (q\<lparr>ts_queue := rs\<rparr>, ci_send (result_message r) cl))"
    by (simp add: listen_round_def ts_count_def ts_empty_def ts_pop_front_def listen_result_undefined)
  with Cons show ?thesis
    by (simp add: listen_def prog_simps)
qed

end
