(* ===== verification/Toml_Unicode.thy ===== *)
theory Toml_Unicode
  imports Json_Dump
begin

text \<open>
  \<^verbatim>\<open>util/toml.hpp\<close>, the classes of characters (\<^verbatim>\<open>impl/unicode.h\<close>) and the UTF-8 decoder. A code point is a
  natural number. \<^verbatim>\<open>TOML_UNREACHABLE\<close> is \<^verbatim>\<open>__builtin_unreachable\<close> or \<^verbatim>\<open>__assume(0)\<close>: to get there is
  undefined behaviour, so the tests that can are fallible.
\<close>

section \<open>Classes of characters\<close>

definition is_ascii_horizontal_whitespace :: "nat \<Rightarrow> bool" where
  "is_ascii_horizontal_whitespace c \<longleftrightarrow> c = 0x09 \<or> c = 0x20"

definition is_non_ascii_horizontal_whitespace :: "nat \<Rightarrow> fault + bool" where
  "is_non_ascii_horizontal_whitespace c =
     (if c < 0xA0 \<or> 0xFEFF < c then Inr False
      else let child_index_0 = (c - 0xA0) div 0x3FA in
        if push_bit child_index_0 1 AND 0x7FFFFFFFFFFFF75E \<noteq> (0::nat) then Inr False
        else if c = 0xA0 \<or> c = 0x3000 \<or> c = 0xFEFF then Inr True
        else if child_index_0 = 0x05 then Inr (c = 0x1680 \<or> c = 0x180E)
        else if child_index_0 = 0x07 then
          Inr (0x2000 \<le> c \<and> c \<le> 0x200B \<or> 0x205F \<le> c \<and> c \<le> 0x2060 \<or> c = 0x202F)
        else Inl (Undefined_behaviour ''TOML_UNREACHABLE''))"

definition is_ascii_vertical_whitespace :: "nat \<Rightarrow> bool" where
  "is_ascii_vertical_whitespace c \<longleftrightarrow> 0x0A \<le> c \<and> c \<le> 0x0D"

definition is_non_ascii_vertical_whitespace :: "nat \<Rightarrow> bool" where
  "is_non_ascii_vertical_whitespace c \<longleftrightarrow> 0x2028 \<le> c \<and> c \<le> 0x2029 \<or> c = 0x85"

definition is_ascii_bare_key_character :: "nat \<Rightarrow> bool" where
  "is_ascii_bare_key_character c \<longleftrightarrow> \<not> (c < 0x2D \<or> 0x7A < c) \<and>
     ((c - 0x2D) div 0x40 \<noteq> 0 \<or> push_bit (c - 0x2D) 1 AND 0xFFF43FFFFFF01FF9 \<noteq> (0::nat))"

definition is_string_delimiter :: "nat \<Rightarrow> bool" where
  "is_string_delimiter c \<longleftrightarrow> c = 0x22 \<or> c = 0x27"

definition is_ascii_letter :: "nat \<Rightarrow> bool" where
  "is_ascii_letter c \<longleftrightarrow> 0x61 \<le> c \<and> c \<le> 0x7A \<or> 0x41 \<le> c \<and> c \<le> 0x5A"

definition is_binary_digit :: "nat \<Rightarrow> bool" where
  "is_binary_digit c \<longleftrightarrow> c = 0x30 \<or> c = 0x31"

definition is_octal_digit :: "nat \<Rightarrow> bool" where
  "is_octal_digit c \<longleftrightarrow> 0x30 \<le> c \<and> c \<le> 0x37"

definition is_decimal_digit :: "nat \<Rightarrow> bool" where
  "is_decimal_digit c \<longleftrightarrow> 0x30 \<le> c \<and> c \<le> 0x39"

definition is_hexadecimal_digit :: "nat \<Rightarrow> bool" where
  "is_hexadecimal_digit c \<longleftrightarrow> 0x30 \<le> c \<and> c \<le> 0x66 \<and> push_bit (c - 0x30) 1 AND 0x7E0000007E03FF \<noteq> (0::nat)"

definition hex_to_dec :: "nat \<Rightarrow> nat" where
  "hex_to_dec c = (if 0x41 \<le> c then 10 + (c OR 0x20) - 0x61 else c - 0x30)"

definition is_horizontal_whitespace :: "nat \<Rightarrow> fault + bool" where
  "is_horizontal_whitespace c =
     (if is_ascii_horizontal_whitespace c then Inr True else is_non_ascii_horizontal_whitespace c)"

definition is_vertical_whitespace :: "nat \<Rightarrow> bool" where
  "is_vertical_whitespace c \<longleftrightarrow> is_ascii_vertical_whitespace c \<or> is_non_ascii_vertical_whitespace c"

definition is_whitespace :: "nat \<Rightarrow> fault + bool" where
  "is_whitespace c = (case is_horizontal_whitespace c of Inl e \<Rightarrow> Inl e
     | Inr b \<Rightarrow> Inr (b \<or> is_vertical_whitespace c))"

definition is_bare_key_character :: "nat \<Rightarrow> bool" where
  "is_bare_key_character c \<longleftrightarrow> is_ascii_bare_key_character c"

definition is_value_terminator :: "nat \<Rightarrow> fault + bool" where
  "is_value_terminator c = (case is_whitespace c of Inl e \<Rightarrow> Inl e
     | Inr b \<Rightarrow> Inr (b \<or> c = 0x5D \<or> c = 0x7D \<or> c = 0x2C \<or> c = 0x23))"

definition is_control_character :: "nat \<Rightarrow> bool" where
  "is_control_character c \<longleftrightarrow> c \<le> 0x1F \<or> c = 0x7F"

definition is_nontab_control_character :: "nat \<Rightarrow> bool" where
  "is_nontab_control_character c \<longleftrightarrow> c \<le> 0x08 \<or> 0x0A \<le> c \<and> c \<le> 0x1F \<or> c = 0x7F"

definition is_unicode_surrogate :: "nat \<Rightarrow> bool" where
  "is_unicode_surrogate c \<longleftrightarrow> 0xD800 \<le> c \<and> c \<le> 0xDFFF"

named_theorems char_defs "the classes of characters, unfolded"

lemmas [char_defs] = is_ascii_horizontal_whitespace_def is_ascii_vertical_whitespace_def
  is_non_ascii_vertical_whitespace_def is_string_delimiter_def is_ascii_letter_def is_binary_digit_def
  is_octal_digit_def is_decimal_digit_def is_vertical_whitespace_def is_control_character_def
  is_nontab_control_character_def is_unicode_surrogate_def

section \<open>The classes as sets\<close>

text \<open>The two bit masks of classes of ASCII characters, checked on every code unit.\<close>

lemma flag_set: "push_bit i 1 AND m \<noteq> (0::nat) \<longleftrightarrow> odd (m div 2 ^ i)"
  by (simp add: push_bit_eq_mult and_exp_eq_0_iff_not_bit ac_simps bit_iff_odd flip: and.commute [of m])

lemma bare_key_table:
  "list_all (\<lambda>c. is_ascii_bare_key_character c \<longleftrightarrow>
     is_ascii_letter c \<or> is_decimal_digit c \<or> c = 0x2D \<or> c = 0x5F) [0..<0x7B]"
  unfolding is_ascii_bare_key_character_def flag_set char_defs by (simp add: upt_rec)

lemma is_bare_key_character [char_defs, code]:
  "is_bare_key_character c \<longleftrightarrow> is_ascii_letter c \<or> is_decimal_digit c \<or> c = 0x2D \<or> c = 0x5F"
proof (cases "c < 0x7B")
  case True
  with bare_key_table show ?thesis by (simp add: list_all_iff is_bare_key_character_def)
next
  case False
  then show ?thesis
    by (simp add: is_bare_key_character_def is_ascii_bare_key_character_def is_ascii_letter_def is_decimal_digit_def)
qed

lemma hex_table:
  "list_all (\<lambda>c. is_hexadecimal_digit c \<longleftrightarrow>
     is_decimal_digit c \<or> 0x41 \<le> c \<and> c \<le> 0x46 \<or> 0x61 \<le> c \<and> c \<le> 0x66) [0..<0x67]"
  unfolding is_hexadecimal_digit_def flag_set char_defs by (simp add: upt_rec)

lemma is_hexadecimal_digit [char_defs, code]:
  "is_hexadecimal_digit c \<longleftrightarrow> is_decimal_digit c \<or> 0x41 \<le> c \<and> c \<le> 0x46 \<or> 0x61 \<le> c \<and> c \<le> 0x66"
proof (cases "c < 0x67")
  case True
  with hex_table show ?thesis by (simp add: list_all_iff)
next
  case False
  then show ?thesis by (simp add: is_hexadecimal_digit_def is_decimal_digit_def)
qed

text \<open>
  Spaces outside ASCII. The mask tells which of 64 equal ranges hold no space; in two of the other five
  the code goes on to tell which characters are spaces, in the three that are left it has tested one
  character and takes all the others for impossible.
\<close>

definition unicode_space :: "nat \<Rightarrow> bool" where
  "unicode_space c \<longleftrightarrow> c = 0xA0 \<or> c = 0x1680 \<or> c = 0x180E \<or> 0x2000 \<le> c \<and> c \<le> 0x200B \<or> c = 0x202F
     \<or> 0x205F \<le> c \<and> c \<le> 0x2060 \<or> c = 0x3000 \<or> c = 0xFEFF"

definition untested :: "nat \<Rightarrow> bool" where
  "untested c \<longleftrightarrow> 0xA1 \<le> c \<and> c \<le> 0x499 \<or> 0x2C5E \<le> c \<and> c \<le> 0x3057 \<and> c \<noteq> 0x3000 \<or> 0xFB26 \<le> c \<and> c \<le> 0xFEFE"

lemma space_mask:
  "list_all (\<lambda>i. push_bit i 1 AND 0x7FFFFFFFFFFFF75E = (0::nat) \<longleftrightarrow> i = 0 \<or> i = 5 \<or> i = 7 \<or> i = 11 \<or> i = 63) [0..<64]"
  using flag_set by (simp add: upt_rec)

lemma is_non_ascii_horizontal_whitespace:
  "is_non_ascii_horizontal_whitespace c =
     (if untested c then Inl (Undefined_behaviour ''TOML_UNREACHABLE'') else Inr (unicode_space c))"
proof (cases "c < 0xA0 \<or> 0xFEFF < c")
  case True
  then show ?thesis by (auto simp: is_non_ascii_horizontal_whitespace_def untested_def unicode_space_def)
next
  case False
  define i where "i = (c - 0xA0) div 0x3FA"
  have "i < 64" using False unfolding i_def by (intro div_less_iff_less_mult [THEN iffD2]) auto
  then have i: "i \<in> set [0..<64]" by simp
  note mask = space_mask [unfolded list_all_iff, THEN bspec, OF i]
  define r where "r = (c - 0xA0) mod 0x3FA"
  have c: "c = 0xA0 + 0x3FA * i + r" "r < 0x3FA" using False by (simp_all add: i_def r_def)
  then have range: "i = k \<longleftrightarrow> 0xA0 + 0x3FA * k \<le> c \<and> c < 0x49A + 0x3FA * k" for k
    by (cases i k rule: linorder_cases) linarith+
  note unfold = is_non_ascii_horizontal_whitespace_def Let_def i_def [symmetric]
  consider "i = 0" | "i = 5" | "i = 7" | "i = 11" | "i = 63" | "\<not> (i = 0 \<or> i = 5 \<or> i = 7 \<or> i = 11 \<or> i = 63)" by blast
  then show ?thesis
  proof cases
    case 6
    have "\<not> untested c"
    proof
      assume "untested c"
      then consider "0xA1 \<le> c \<and> c \<le> 0x499" | "0x2C5E \<le> c \<and> c \<le> 0x3057" | "0xFB26 \<le> c \<and> c \<le> 0xFEFE"
        unfolding untested_def by blast
      then show False using 6 range [of 0] range [of 11] range [of 63] by cases simp_all
    qed
    moreover have "\<not> unicode_space c"
    proof
      assume "unicode_space c"
      then consider "c = 0xA0" | "c = 0x1680" | "c = 0x180E" | "0x2000 \<le> c \<and> c \<le> 0x200B" | "c = 0x202F"
          | "0x205F \<le> c \<and> c \<le> 0x2060" | "c = 0x3000" | "c = 0xFEFF"
        unfolding unicode_space_def by blast
      then have "i = 0 \<or> i = 5 \<or> i = 7 \<or> i = 11 \<or> i = 63"
      proof cases
        case 1 then show ?thesis using range [of 0] by simp
      next
        case 2 then show ?thesis using range [of 5] by simp
      next
        case 3 then show ?thesis using range [of 5] by simp
      next
        case 4 then show ?thesis using range [of 7] by simp
      next
        case 5 then show ?thesis using range [of 7] by simp
      next
        case 6 then show ?thesis using range [of 7] by simp
      next
        case 7 then show ?thesis using range [of 11] by simp
      next
        case 8 then show ?thesis using range [of 63] by simp
      qed
      then show False using 6 by blast
    qed
    ultimately show ?thesis using 6 False mask by (simp add: unfold)
  next
    case 1
    with range [of 0] False mask show ?thesis by (simp add: unfold untested_def unicode_space_def)
  next
    case 2
    with range [of 5] False mask show ?thesis by (simp add: unfold untested_def unicode_space_def)
  next
    case 3
    with range [of 7] False mask show ?thesis by (simp add: unfold untested_def unicode_space_def) blast
  next
    case 4
    with range [of 11] False mask show ?thesis by (simp add: unfold untested_def unicode_space_def)
  next
    case 5
    with range [of 63] False mask show ?thesis by (simp add: unfold untested_def unicode_space_def)
  qed
qed

text \<open>
  C23: Which characters count as spaces. For the letters of most European languages (U+00A1 to U+0499, so for
  an accented letter outside quotes), for Japanese and for Arabic presentation forms the
  test does not answer: it runs into \<^verbatim>\<open>TOML_UNREACHABLE\<close>. It is right wherever it answers.
\<close>

theorem whitespace_untested:
  "is_horizontal_whitespace c = (if untested c then Inl (Undefined_behaviour ''TOML_UNREACHABLE'')
     else Inr (c = 0x09 \<or> c = 0x20 \<or> unicode_space c))
   \<and> is_horizontal_whitespace 0xE3 = Inl (Undefined_behaviour ''TOML_UNREACHABLE'')"
  by (auto simp: is_horizontal_whitespace_def is_ascii_horizontal_whitespace_def
      is_non_ascii_horizontal_whitespace untested_def unicode_space_def)

lemma ascii_whitespace [simp]:
  "c < 0xA0 \<Longrightarrow> is_horizontal_whitespace c = Inr (c = 0x09 \<or> c = 0x20)"
  "c < 0x80 \<Longrightarrow> is_whitespace c = Inr (0x09 \<le> c \<and> c \<le> 0x0D \<or> c = 0x20)"
  "c < 0x80 \<Longrightarrow> is_value_terminator c =
     Inr (0x09 \<le> c \<and> c \<le> 0x0D \<or> c = 0x20 \<or> c = 0x5D \<or> c = 0x7D \<or> c = 0x2C \<or> c = 0x23)"
  by (auto simp: is_horizontal_whitespace_def is_whitespace_def is_value_terminator_def char_defs
      is_non_ascii_horizontal_whitespace untested_def unicode_space_def)

section \<open>The UTF-8 decoder\<close>

text \<open>The first 256 entries give the type of a byte, the others the next state by state and type.\<close>

definition state_transitions :: "nat list" where
  "state_transitions =
     [0, 12, 24, 36, 60, 96, 84, 12, 12, 12, 48, 72, 12, 12, 12, 12, 12, 12, 12, 12, 12, 12, 12, 12, 12, 0, 12,
      12, 12, 12, 12, 0, 12, 0, 12, 12, 12, 24, 12, 12, 12, 12, 12, 24, 12, 24, 12, 12, 12, 12, 12, 12, 12, 12,
      12, 24, 12, 12, 12, 12, 12, 24, 12, 12, 12, 12, 12, 12, 12, 24, 12, 12, 12, 12, 12, 12, 12, 12, 12, 36, 12,
      36, 12, 12, 12, 36, 12, 12, 12, 12, 12, 36, 12, 36, 12, 12, 12, 36, 12, 12, 12, 12, 12, 12, 12, 12, 12, 12]"

definition state_table :: "nat list" where
  "state_table = replicate 128 0
     @ replicate 16 1 @ replicate 16 9 @ replicate 32 7
     @ [8, 8] @ replicate 30 2
     @ [10, 3, 3, 3, 3, 3, 3, 3, 3, 3, 3, 3, 3, 4, 3, 3]
     @ [11, 6, 6, 6, 5, 8, 8, 8, 8, 8, 8, 8, 8, 8, 8, 8]
     @ state_transitions"

record utf8_decoder =
  dc_state :: nat
  dc_codepoint :: nat

definition dc_new :: utf8_decoder where
  "dc_new = \<lparr>dc_state = 0, dc_codepoint = 0\<rparr>"

definition dc_error :: "utf8_decoder \<Rightarrow> bool" where
  "dc_error d \<longleftrightarrow> dc_state d = 12"

definition dc_has_code_point :: "utf8_decoder \<Rightarrow> bool" where
  "dc_has_code_point d \<longleftrightarrow> dc_state d = 0"

definition dc_needs_more_input :: "utf8_decoder \<Rightarrow> bool" where
  "dc_needs_more_input d \<longleftrightarrow> \<not> dc_has_code_point d \<and> \<not> dc_error d"

definition dc_byte :: "nat \<Rightarrow> utf8_decoder \<Rightarrow> utf8_decoder" where
  "dc_byte byte d = (let type = state_table ! byte in
     \<lparr>dc_state = state_table ! (dc_state d + 256 + type),
      dc_codepoint = (if dc_has_code_point d then drop_bit type 255 AND byte
        else (byte AND 63) OR push_bit 6 (dc_codepoint d))\<rparr>)"

definition dc_reset :: "utf8_decoder \<Rightarrow> utf8_decoder" where
  "dc_reset d = d\<lparr>dc_state := 0\<rparr>"

text \<open>It is the automaton of the JSON library, with its states numbered in steps of twelve.\<close>

lemma state_table_types:
  "b < 256 \<Longrightarrow> state_table ! b = utf8_types ! b" "state_table ! (n + 256) = state_transitions ! n"
proof -
  have "state_table = utf8_types @ state_transitions" by (simp add: state_table_def utf8_types_def)
  moreover have "length utf8_types = 256" by (simp add: utf8_types_def)
  ultimately show "b < 256 \<Longrightarrow> state_table ! b = utf8_types ! b" and "state_table ! (n + 256) = state_transitions ! n"
    by (metis nth_append, metis nth_append_length_plus add.commute)
qed

lemma state_table_states:
  "list_all (\<lambda>s. list_all (\<lambda>t. state_transitions ! (12 * s + t) = 12 * (utf8_states ! (s * 16 + t))) [0..<12]) [0..<9]"
  by code_simp

lemma dc_byte_decode:
  assumes "s < 9" and "b < 256"
  shows "dc_byte b \<lparr>dc_state = 12 * s, dc_codepoint = cp\<rparr> =
    \<lparr>dc_state = 12 * fst (decode s cp b), dc_codepoint = snd (decode s cp b)\<rparr>"
proof -
  have "utf8_types ! b < 12"
    using assms(2) by (simp add: utf8_types_nth utf8_type_def)
  with assms(1) state_table_states
  have "state_transitions ! (12 * s + utf8_types ! b) = 12 * (utf8_states ! (s * 16 + utf8_types ! b))"
    by (simp add: list_all_iff)
  moreover have "12 * s + 256 + utf8_types ! b = (12 * s + utf8_types ! b) + 256" by simp
  ultimately have "state_table ! (12 * s + 256 + utf8_types ! b) = 12 * (utf8_states ! (s * 16 + utf8_types ! b))"
    by (simp only: state_table_types)
  then show ?thesis
    using assms(2) by (auto simp: dc_byte_def decode_def utf8_state_def dc_has_code_point_def state_table_types(1) Let_def)
qed

end
