(* ===== verification/Toml_Reader.thy ===== *)
theory Toml_Reader
  imports Toml_Unicode
begin

text \<open>
  \<^verbatim>\<open>util/toml.hpp\<close>, what the parser reads from: \<^verbatim>\<open>utf8_reader\<close>, which decodes the text in blocks of 32 bytes,
  and \<^verbatim>\<open>utf8_buffered_reader\<close>, a ring of the last 127 code points in which the parser steps back. Blocks
  turn out not to matter, and the ring is a list with a position. Positions of errors are not modelled.
\<close>

section \<open>Code points\<close>

record utf8_codepoint =
  cp_value :: nat
  cp_bytes :: string

definition byte_order_mark :: string where
  "byte_order_mark = [CHR 0xEF, CHR 0xBB, CHR 0xBF]"

section \<open>Blocks\<close>

text \<open>
  The stream is the bytes that are left of the text. What is decoded of a block and not read yet is in
  \<open>rd_codepoints\<close>; \<open>rd_decoding\<close> are the bytes of a code point that is not complete.
\<close>

record utf8_reader =
  rd_stream :: string
  rd_decoder :: utf8_decoder
  rd_decoding :: string
  rd_codepoints :: "utf8_codepoint list"

definition skip_byte_order_mark :: "string \<Rightarrow> string" where
  "skip_byte_order_mark sv = (if 3 \<le> length sv \<and> take 3 sv = byte_order_mark then drop 3 sv else sv)"

definition utf8_reader_new :: "string \<Rightarrow> utf8_reader" where
  "utf8_reader_new source = \<lparr>rd_stream = skip_byte_order_mark source, rd_decoder = dc_new, rd_decoding = [], rd_codepoints = []\<rparr>"

definition is_ascii :: "string \<Rightarrow> bool" where
  "is_ascii str \<longleftrightarrow> list_all (\<lambda>c. \<not> 127 < byte_of c) str"

text \<open>The loop over the bytes of a block; an error of the decoder is thrown at once.\<close>

fun decode_loop :: "string \<Rightarrow> utf8_decoder \<Rightarrow> string \<Rightarrow> utf8_codepoint list
    \<Rightarrow> fault + utf8_decoder \<times> string \<times> utf8_codepoint list" where
  "decode_loop [] d decoding cps = Inr (d, decoding, cps)"
| "decode_loop (b # bs) d decoding cps =
     (let d = dc_byte (byte_of b) d in
      if dc_error d then Inl (Toml_exception ''Encountered invalid utf-8 sequence'')
      else let decoding = decoding @ [b] in
        if dc_has_code_point d then decode_loop bs d [] (cps @ [\<lparr>cp_value = dc_codepoint d, cp_bytes = decoding\<rparr>])
        else if length decoding = 4 then Inl (Toml_exception ''Encountered overlong utf-8 sequence'')
        else decode_loop bs d decoding cps)"

definition read_next_block :: "utf8_reader \<Rightarrow> fault + utf8_reader" where
  "read_next_block rd =
     (let raw_bytes = take 32 (rd_stream rd); rd = rd\<lparr>rd_stream := drop 32 (rd_stream rd)\<rparr> in
      if \<not> dc_needs_more_input (rd_decoder rd) \<and> is_ascii raw_bytes then
        Inr (rd\<lparr>rd_decoder := dc_reset (rd_decoder rd), rd_decoding := [],
          rd_codepoints := map (\<lambda>b. \<lparr>cp_value = byte_of b, cp_bytes = [b]\<rparr>) raw_bytes\<rparr>)
      else case decode_loop raw_bytes (rd_decoder rd) (rd_decoding rd) [] of
        Inl e \<Rightarrow> Inl e
      | Inr (d, decoding, cps) \<Rightarrow>
          if dc_needs_more_input d \<and> rd_stream rd = []
          then Inl (Toml_exception ''Encountered EOF during incomplete utf-8 code point sequence'')
          else Inr (rd\<lparr>rd_decoder := d, rd_decoding := decoding, rd_codepoints := cps\<rparr>))"

definition rd_read_next :: "utf8_reader \<Rightarrow> fault + utf8_codepoint option \<times> utf8_reader" where
  "rd_read_next rd =
     (case rd_codepoints rd of
        cp # cps \<Rightarrow> Inr (Some cp, rd\<lparr>rd_codepoints := cps\<rparr>)
      | [] \<Rightarrow> if rd_stream rd = [] then Inr (None, rd)
          else case read_next_block rd of Inl e \<Rightarrow> Inl e
            | Inr rd \<Rightarrow> (case rd_codepoints rd of
                cp # cps \<Rightarrow> Inr (Some cp, rd\<lparr>rd_codepoints := cps\<rparr>)
              | [] \<Rightarrow> Inl (Undefined_behaviour ''a block without code points'')))"

definition rd_peek_eof :: "utf8_reader \<Rightarrow> bool" where
  "rd_peek_eof rd \<longleftrightarrow> rd_stream rd = []"

section \<open>The history\<close>

text \<open>\<open>read\<close> is the virtual \<^verbatim>\<open>read_next\<close> of the \<^verbatim>\<open>utf8_reader_interface\<close> it sits on.\<close>

definition history_buffer_size :: nat where
  "history_buffer_size = 127"

record 'r utf8_buffered_reader =
  br_reader :: 'r
  br_buffer :: "utf8_codepoint list"
  br_count :: nat
  br_first :: nat
  br_head :: "utf8_codepoint option"
  br_negative_offset :: nat

definition br_new :: "'r \<Rightarrow> 'r utf8_buffered_reader" where
  "br_new rd = \<lparr>br_reader = rd, br_buffer = replicate history_buffer_size \<lparr>cp_value = 0, cp_bytes = []\<rparr>,
     br_count = 0, br_first = 0, br_head = None, br_negative_offset = 0\<rparr>"

definition br_at :: "'r utf8_buffered_reader \<Rightarrow> utf8_codepoint" where
  "br_at br = br_buffer br ! ((br_first br + br_count br - br_negative_offset br) mod history_buffer_size)"

definition br_push :: "utf8_codepoint \<Rightarrow> 'r utf8_buffered_reader \<Rightarrow> 'r utf8_buffered_reader" where
  "br_push head br =
     (if br_count br < history_buffer_size
      then br\<lparr>br_buffer := (br_buffer br)[br_count br := head], br_count := br_count br + 1\<rparr>
      else br\<lparr>br_buffer := (br_buffer br)[(br_first br + history_buffer_size) mod history_buffer_size := head],
         br_first := br_first br + 1\<rparr>)"

definition br_read_head :: "('r \<Rightarrow> fault + utf8_codepoint option \<times> 'r) \<Rightarrow> 'r utf8_buffered_reader \<Rightarrow> fault + utf8_codepoint option \<times> 'r utf8_buffered_reader" where
  "br_read_head read br = (case read (br_reader br) of Inl e \<Rightarrow> Inl e
     | Inr (cp, rd) \<Rightarrow> Inr (cp, br\<lparr>br_reader := rd, br_head := cp\<rparr>))"

definition br_read_next :: "('r \<Rightarrow> fault + utf8_codepoint option \<times> 'r) \<Rightarrow> 'r utf8_buffered_reader \<Rightarrow> fault + utf8_codepoint option \<times> 'r utf8_buffered_reader" where
  "br_read_next read br =
     (if br_negative_offset br \<noteq> 0 then
        let br = br\<lparr>br_negative_offset := br_negative_offset br - 1\<rparr> in
        Inr (if br_negative_offset br = 0 then br_head br else Some (br_at br), br)
      else if br_count br = 0 \<and> br_head br = None then br_read_head read br
      else case br_head br of
        Some head \<Rightarrow> br_read_head read (br_push head br)
      | None \<Rightarrow> Inr (None, br))"

text \<open>The two conditions are assumptions the compiler is told to make.\<close>

definition br_step_back :: "nat \<Rightarrow> 'r utf8_buffered_reader \<Rightarrow> fault + utf8_codepoint option \<times> 'r utf8_buffered_reader" where
  "br_step_back count br =
     (if br_count br = 0 \<or> br_count br < br_negative_offset br + count
      then Inl (Undefined_behaviour ''step back past the history'')
      else let br = br\<lparr>br_negative_offset := br_negative_offset br + count\<rparr> in
        Inr (if br_negative_offset br \<noteq> 0 then Some (br_at br) else br_head br, br))"

section \<open>Blocks do not matter\<close>

text \<open>What a reader still has to give, up to the end of the text or the fault it ends in.\<close>

lemma rd_read_next_less:
  assumes "rd_read_next rd = Inr (Some cp, rd')"
  shows "(rd', rd) \<in> measures [\<lambda>rd. length (rd_stream rd), \<lambda>rd. length (rd_codepoints rd)]"
  using assms
  by (auto simp: rd_read_next_def read_next_block_def Let_def split: list.splits if_splits sum.splits prod.splits)

function rd_all :: "utf8_reader \<Rightarrow> utf8_codepoint list \<times> fault option" where
  "rd_all rd = (case rd_read_next rd of
      Inl e \<Rightarrow> ([], Some e)
    | Inr (None, _) \<Rightarrow> ([], None)
    | Inr (Some cp, rd') \<Rightarrow> (case rd_all rd' of (cps, e) \<Rightarrow> (cp # cps, e)))"
  by pat_completeness auto
termination
  by (relation "measures [\<lambda>rd. length (rd_stream rd), \<lambda>rd. length (rd_codepoints rd)]") (auto dest: rd_read_next_less)

declare rd_all.simps [simp del]

text \<open>The reference: one pass over the whole text. The flag tells whether it is UTF-8 throughout.\<close>

fun decode_text :: "utf8_decoder \<Rightarrow> string \<Rightarrow> string \<Rightarrow> utf8_codepoint list \<times> bool" where
  "decode_text d decoding [] = ([], \<not> dc_needs_more_input d)"
| "decode_text d decoding (b # bs) =
     (let d = dc_byte (byte_of b) d in
      if dc_error d then ([], False)
      else if dc_has_code_point d then
        (case decode_text d [] bs of (cps, ok) \<Rightarrow> (\<lparr>cp_value = dc_codepoint d, cp_bytes = decoding @ [b]\<rparr> # cps, ok))
      else if length decoding = 3 then ([], False)
      else decode_text d (decoding @ [b]) bs)"

definition code_points :: "string \<Rightarrow> utf8_codepoint list \<times> bool" where
  "code_points text = decode_text dc_new [] text"

lemma decode_text_same:
  "dc_has_code_point d \<Longrightarrow> dc_has_code_point d' \<Longrightarrow> decode_text d decoding bs = decode_text d' decoding bs"
  by (cases bs) (simp_all add: dc_needs_more_input_def dc_byte_def dc_has_code_point_def)

lemma decode_loop_text:
  "case decode_loop bs d decoding cps of
     Inl e \<Rightarrow> (\<exists>why. e = Toml_exception why) \<and> \<not> snd (decode_text d decoding (bs @ ts))
   | Inr (d', decoding', cps') \<Rightarrow> (\<exists>new. cps' = cps @ new
       \<and> decode_text d decoding (bs @ ts) = (case decode_text d' decoding' ts of (rest, ok) \<Rightarrow> (new @ rest, ok)))"
proof (induction bs d decoding cps rule: decode_loop.induct)
  case (2 b bs d decoding cps)
  then show ?case
    by (auto simp: Let_def split: sum.splits prod.splits) fastforce+
qed auto

lemma decode_ascii:
  "is_ascii raw \<Longrightarrow> dc_has_code_point d \<Longrightarrow> decode_text d [] (raw @ ts) =
     (case decode_text d [] ts of (rest, ok) \<Rightarrow> (map (\<lambda>b. \<lparr>cp_value = byte_of b, cp_bytes = [b]\<rparr>) raw @ rest, ok))"
proof (induction raw arbitrary: d)
  case (Cons b raw)
  have b: "byte_of b < 128" using Cons.prems(1) by (simp add: is_ascii_def)
  have "dc_byte (byte_of b) \<lparr>dc_state = 12 * 0, dc_codepoint = dc_codepoint d\<rparr> = \<lparr>dc_state = 0, dc_codepoint = byte_of b\<rparr>"
    using b by (subst dc_byte_decode) (simp_all add: decode_def utf8_state_first and_255 utf8_types_nth utf8_type_def)
  moreover have "d = \<lparr>dc_state = 0, dc_codepoint = dc_codepoint d\<rparr>"
    using Cons.prems(2) by (simp add: dc_has_code_point_def)
  ultimately have step: "dc_byte (byte_of b) d = \<lparr>dc_state = 0, dc_codepoint = byte_of b\<rparr>" by simp
  have new: "dc_has_code_point \<lparr>dc_state = 0, dc_codepoint = byte_of b\<rparr>" by (simp add: dc_has_code_point_def)
  have "decode_text \<lparr>dc_state = 0, dc_codepoint = byte_of b\<rparr> [] ts = decode_text d [] ts"
    using Cons.prems(2) new by (rule decode_text_same [rotated])
  with Cons.IH [OF _ new] Cons.prems(1) show ?case
    by (simp add: is_ascii_def step dc_error_def dc_has_code_point_def split: prod.splits)
qed (simp split: prod.splits)

lemma decode_loop_keeps: "decode_loop bs d decoding cps = Inr (d', decoding', cps') \<Longrightarrow> cps \<noteq> [] \<Longrightarrow> cps' \<noteq> []"
  using decode_loop_text [where bs = bs and d = d and decoding = decoding and cps = cps and ts = "[]"] by auto

lemma decode_loop_empty:
  "decode_loop bs d decoding cps = Inr (d', decoding', []) \<Longrightarrow> length decoding \<le> 3 \<Longrightarrow>
     length decoding + length bs \<le> 3 \<and> (bs \<noteq> [] \<longrightarrow> dc_needs_more_input d')"
proof (induction bs d decoding cps rule: decode_loop.induct)
  case (2 b bs d decoding cps)
  let ?d = "dc_byte (byte_of b) d"
  have new: "\<not> dc_has_code_point ?d" "\<not> dc_error ?d" "length decoding \<noteq> 3"
    and loop: "decode_loop bs ?d (decoding @ [b]) cps = Inr (d', decoding', [])"
    using 2(3) decode_loop_keeps [where bs = bs and d = ?d and decoding = "[]"]
    by (auto simp: Let_def split: if_splits)
  from 2(2) [OF refl new(2) refl new(1)] loop new(3) 2(4)
  have IH: "length decoding + 1 + length bs \<le> 3 \<and> (bs \<noteq> [] \<longrightarrow> dc_needs_more_input d')" by simp
  moreover have "bs = [] \<Longrightarrow> d' = ?d" using loop by simp
  ultimately show ?case using new by (auto simp: dc_needs_more_input_def)
qed simp

text \<open>Between two blocks: no bytes are kept of a code point that is complete.\<close>

definition rd_inv :: "utf8_reader \<Rightarrow> bool" where
  "rd_inv rd \<longleftrightarrow> \<not> dc_error (rd_decoder rd) \<and> length (rd_decoding rd) \<le> 3
     \<and> (dc_has_code_point (rd_decoder rd) \<longrightarrow> rd_decoding rd = [])
     \<and> (rd_stream rd = [] \<longrightarrow> \<not> dc_needs_more_input (rd_decoder rd))"

definition rd_text :: "utf8_reader \<Rightarrow> utf8_codepoint list \<times> bool" where
  "rd_text rd = (case decode_text (rd_decoder rd) (rd_decoding rd) (rd_stream rd) of
     (cps, ok) \<Rightarrow> (rd_codepoints rd @ cps, ok))"

lemma decode_loop_inv:
  "decode_loop bs d decoding cps = Inr (d', decoding', cps') \<Longrightarrow> \<not> dc_error d \<Longrightarrow> length decoding \<le> 3 \<Longrightarrow>
     (dc_has_code_point d \<longrightarrow> decoding = []) \<Longrightarrow>
     \<not> dc_error d' \<and> length decoding' \<le> 3 \<and> (dc_has_code_point d' \<longrightarrow> decoding' = [])"
  by (induction bs d decoding cps rule: decode_loop.induct) (auto simp: Let_def split: if_splits)

lemma read_next_block_text:
  assumes inv: "rd_inv rd" and none: "rd_codepoints rd = []" and "rd_stream rd \<noteq> []"
  shows "case read_next_block rd of
      Inl e \<Rightarrow> (\<exists>why. e = Toml_exception why) \<and> \<not> snd (rd_text rd)
    | Inr rd' \<Rightarrow> rd_inv rd' \<and> rd_text rd' = rd_text rd \<and> rd_codepoints rd' \<noteq> []"
proof -
  let ?raw = "take 32 (rd_stream rd)" and ?ts = "drop 32 (rd_stream rd)"
  have whole: "rd_text rd = decode_text (rd_decoder rd) (rd_decoding rd) (?raw @ ?ts)"
    by (simp add: rd_text_def none)
  show ?thesis
  proof (cases "\<not> dc_needs_more_input (rd_decoder rd) \<and> is_ascii ?raw")
    case True
    with inv have new: "dc_has_code_point (rd_decoder rd)" "rd_decoding rd = []"
      by (auto simp: rd_inv_def dc_needs_more_input_def)
    moreover have reset: "dc_has_code_point (dc_reset (rd_decoder rd))"
      by (simp add: dc_reset_def dc_has_code_point_def)
    ultimately show ?thesis
      using True assms(3) decode_ascii [where raw = ?raw and d = "rd_decoder rd" and ts = ?ts] decode_text_same [OF reset new(1)]
      by (auto simp: read_next_block_def Let_def whole rd_inv_def rd_text_def dc_reset_def dc_error_def
          dc_has_code_point_def dc_needs_more_input_def none split: prod.splits)
  next
    case False
    note loop = decode_loop_text [where bs = ?raw and d = "rd_decoder rd" and decoding = "rd_decoding rd" and cps = "[]" and ts = ?ts]
    show ?thesis
    proof (cases "decode_loop ?raw (rd_decoder rd) (rd_decoding rd) []")
      case (Inl e)
      with loop False show ?thesis by (auto simp: read_next_block_def Let_def whole)
    next
      case (Inr r)
      obtain d decoding cps where r: "r = (d, decoding, cps)" by (cases r)
      from inv have "\<not> dc_error d \<and> length decoding \<le> 3 \<and> (dc_has_code_point d \<longrightarrow> decoding = [])"
        by (intro decode_loop_inv [OF Inr [unfolded r]]) (simp_all add: rd_inv_def)
      moreover have "cps \<noteq> []" if "\<not> (dc_needs_more_input d \<and> ?ts = [])"
      proof
        assume "cps = []"
        with decode_loop_empty [where bs = ?raw and d = "rd_decoder rd" and decoding = "rd_decoding rd" and cps = "[]"] Inr r inv
        have "length ?raw \<le> 3" "?raw \<noteq> [] \<longrightarrow> dc_needs_more_input d" by (auto simp: rd_inv_def)
        with that assms(3) show False by auto
      qed
      ultimately show ?thesis
        using loop False Inr r
        by (auto simp: read_next_block_def Let_def whole rd_text_def rd_inv_def none split: prod.splits)
    qed
  qed
qed

lemma rd_all_text:
  assumes "rd_inv rd"
  shows "(snd (rd_text rd) \<longrightarrow> rd_all rd = (fst (rd_text rd), None))
    \<and> (\<not> snd (rd_text rd) \<longrightarrow> (\<exists>cps ds why. rd_all rd = (cps, Some (Toml_exception why)) \<and> fst (rd_text rd) = cps @ ds))"
  using assms
proof (induction rd rule: rd_all.induct)
  case (1 rd)
  show ?case
  proof (cases "rd_codepoints rd")
    case (Cons cp cps)
    let ?rd = "rd\<lparr>rd_codepoints := cps\<rparr>"
    have read: "rd_read_next rd = Inr (Some cp, ?rd)" by (simp add: rd_read_next_def Cons)
    have "rd_inv ?rd" using 1(2) by (simp add: rd_inv_def)
    with 1(1) [OF read refl] have IH: "(snd (rd_text ?rd) \<longrightarrow> rd_all ?rd = (fst (rd_text ?rd), None))
      \<and> (\<not> snd (rd_text ?rd) \<longrightarrow> (\<exists>cps ds why. rd_all ?rd = (cps, Some (Toml_exception why)) \<and> fst (rd_text ?rd) = cps @ ds))"
      by simp
    have "rd_text rd = (cp # fst (rd_text ?rd), snd (rd_text ?rd))"
      by (simp add: rd_text_def Cons split: prod.splits)
    with IH show ?thesis by (subst (1 2) rd_all.simps) (auto simp: read)
  next
    case Nil
    show ?thesis
    proof (cases "rd_stream rd = []")
      case True
      then show ?thesis using 1(2) Nil
        by (subst (1 2) rd_all.simps) (auto simp: rd_read_next_def rd_text_def rd_inv_def)
    next
      case False
      note block = read_next_block_text [OF 1(2) Nil False]
      show ?thesis
      proof (cases "read_next_block rd")
        case (Inl e)
        with block False Nil show ?thesis by (subst (1 2) rd_all.simps) (auto simp: rd_read_next_def)
      next
        case (Inr rd')
        with block obtain cp cps where cps: "rd_codepoints rd' = cp # cps" by (cases "rd_codepoints rd'") auto
        let ?rd = "rd'\<lparr>rd_codepoints := cps\<rparr>"
        have read: "rd_read_next rd = Inr (Some cp, ?rd)" by (simp add: rd_read_next_def Nil False Inr cps)
        have "rd_inv ?rd" using block Inr by (simp add: rd_inv_def)
        with 1(1) [OF read refl] have IH: "(snd (rd_text ?rd) \<longrightarrow> rd_all ?rd = (fst (rd_text ?rd), None))
          \<and> (\<not> snd (rd_text ?rd) \<longrightarrow> (\<exists>cps ds why. rd_all ?rd = (cps, Some (Toml_exception why)) \<and> fst (rd_text ?rd) = cps @ ds))"
          by simp
        have "rd_text rd = (cp # fst (rd_text ?rd), snd (rd_text ?rd))"
          using block Inr cps by (simp add: rd_text_def split: prod.splits)
        with IH show ?thesis by (subst (1 2) rd_all.simps) (auto simp: read)
      qed
    qed
  qed
qed

lemma rd_all_new:
  "if snd (code_points (skip_byte_order_mark s)) then rd_all (utf8_reader_new s) = (fst (code_points (skip_byte_order_mark s)), None)
   else \<exists>cps ds why. rd_all (utf8_reader_new s) = (cps, Some (Toml_exception why)) \<and> fst (code_points (skip_byte_order_mark s)) = cps @ ds"
proof -
  have "rd_inv (utf8_reader_new s)"
    by (simp add: rd_inv_def utf8_reader_new_def dc_new_def dc_error_def dc_has_code_point_def dc_needs_more_input_def)
  moreover have "rd_text (utf8_reader_new s) = code_points (skip_byte_order_mark s)"
    by (simp add: rd_text_def utf8_reader_new_def code_points_def split: prod.splits)
  ultimately show ?thesis using rd_all_text [of "utf8_reader_new s"] by simp
qed

text \<open>
  C22: Reading in blocks, some of them without the decoder, gives what one pass over the text gives: all its
  code points, if it is UTF-8; otherwise some of them, and then a parse error. The number of a code point and
  its bytes are right, and the decoder is the automaton of the JSON library with the states renumbered.
\<close>

theorem utf8_reader_text:
  "if snd (code_points (skip_byte_order_mark s)) then rd_all (utf8_reader_new s) = (fst (code_points (skip_byte_order_mark s)), None)
   else \<exists>cps ds why. rd_all (utf8_reader_new s) = (cps, Some (Toml_exception why)) \<and> fst (code_points (skip_byte_order_mark s)) = cps @ ds"
  by (rule rd_all_new)

section \<open>The reader its clients see\<close>

text \<open>What \<^verbatim>\<open>read_next\<close> promises: the items one by one, then null for ever, or an exception.\<close>

locale reader_interface =
  fixes read :: "'r \<Rightarrow> fault + utf8_codepoint option \<times> 'r"
    and items :: "'r \<Rightarrow> utf8_codepoint list \<times> fault option"
  assumes read_item: "items r = (cp # cps, e) \<Longrightarrow> \<exists>r'. read r = Inr (Some cp, r') \<and> items r' = (cps, e)"
    and read_fault: "items r = ([], Some f) \<Longrightarrow> read r = Inl f"
    and read_end: "items r = ([], None) \<Longrightarrow> \<exists>r'. read r = Inr (None, r') \<and> items r' = ([], None)"

interpretation utf8: reader_interface rd_read_next rd_all
proof
  fix r cp cps e
  assume "rd_all r = (cp # cps, e)"
  then show "\<exists>r'. rd_read_next r = Inr (Some cp, r') \<and> rd_all r' = (cps, e)"
    by (subst (asm) rd_all.simps) (auto split: sum.splits prod.splits option.splits)
next
  fix r e
  assume "rd_all r = ([], Some e)"
  then show "rd_read_next r = Inl e"
    by (subst (asm) rd_all.simps) (auto split: sum.splits prod.splits option.splits)
next
  fix r
  assume all: "rd_all r = ([], None)"
  then have read: "\<exists>r'. rd_read_next r = Inr (None, r')"
    by (subst (asm) rd_all.simps) (auto split: sum.splits prod.splits option.splits)
  moreover have "r' = r" if "rd_read_next r = Inr (None, r')" for r'
    using that by (auto simp: rd_read_next_def split: list.splits if_splits sum.splits)
  ultimately show "\<exists>r'. rd_read_next r = Inr (None, r') \<and> rd_all r' = ([], None)" using all by blast
qed

section \<open>The ring is a list with a position\<close>

text \<open>
  What is remembered, what is still to come (the current code point first) and how that ends. Reading
  moves one code point to the left part, which keeps 127; stepping back moves some to the right.
\<close>

type_synonym reading = "utf8_codepoint list \<times> utf8_codepoint list \<times> fault option"

definition last_127 :: "'a list \<Rightarrow> 'a list" where
  "last_127 xs = drop (length xs - 127) xs"

fun list_next :: "reading \<Rightarrow> fault + reading" where
  "list_next (before, [], e) = Inr (before, [], e)"
| "list_next (before, cp # ahead, e) = (case (ahead, e) of
     ([], Some f) \<Rightarrow> Inl f | _ \<Rightarrow> Inr (last_127 (before @ [cp]), ahead, e))"

fun list_back :: "nat \<Rightarrow> reading \<Rightarrow> fault + reading" where
  "list_back n (before, ahead, e) = (if before = [] \<or> length before < n
     then Inl (Undefined_behaviour ''step back past the history'')
     else Inr (take (length before - n) before, drop (length before - n) before @ ahead, e))"

definition list_current :: "reading \<Rightarrow> utf8_codepoint option" where
  "list_current r = (case fst (snd r) of [] \<Rightarrow> None | cp # _ \<Rightarrow> Some cp)"

definition br_history :: "'r utf8_buffered_reader \<Rightarrow> utf8_codepoint list" where
  "br_history br = map (\<lambda>i. br_buffer br ! ((br_first br + i) mod 127)) [0..<br_count br]"

lemma br_history_length [simp]: "length (br_history br) = br_count br"
  by (simp add: br_history_def)

lemma br_history_update [simp]:
  "br_history (br\<lparr>br_negative_offset := n\<rparr>) = br_history br" "br_history (br\<lparr>br_reader := rd\<rparr>) = br_history br"
  "br_history (br\<lparr>br_head := h\<rparr>) = br_history br"
  by (simp_all add: br_history_def)

lemma br_history_nth: "i < br_count br \<Longrightarrow> br_history br ! i = br_buffer br ! ((br_first br + i) mod 127)"
  by (simp add: br_history_def)

definition br_inv :: "'r utf8_buffered_reader \<Rightarrow> bool" where
  "br_inv br \<longleftrightarrow> length (br_buffer br) = 127 \<and> br_count br \<le> 127 \<and> (br_count br < 127 \<longrightarrow> br_first br = 0)
     \<and> br_negative_offset br \<le> br_count br"

lemma br_push_history:
  assumes "br_inv br"
  shows "br_history (br_push h br) = last_127 (br_history br @ [h])"
proof (cases "br_count br < 127")
  case True
  with assms show ?thesis
    by (intro nth_equalityI)
      (auto simp: br_inv_def br_push_def history_buffer_size_def br_history_nth last_127_def nth_append less_Suc_eq)
next
  case False
  with assms have full: "br_count br = 127" "length (br_buffer br) = 127" by (auto simp: br_inv_def)
  show ?thesis
  proof (rule nth_equalityI)
    show "length (br_history (br_push h br)) = length (last_127 (br_history br @ [h]))"
      using full by (simp add: br_push_def history_buffer_size_def last_127_def)
    fix i
    assume "i < length (br_history (br_push h br))"
    then have i: "i < 127" using full by (simp add: br_push_def history_buffer_size_def)
    have new: "br_history (br_push h br) ! i
        = (br_buffer br)[br_first br mod 127 := h] ! ((br_first br + Suc i) mod 127)"
      using i full by (simp add: br_history_def br_push_def history_buffer_size_def)
    show "br_history (br_push h br) ! i = last_127 (br_history br @ [h]) ! i"
    proof (cases "i = 126")
      case True
      then have "(br_first br + Suc i) mod 127 = br_first br mod 127" by simp
      with True full new show ?thesis by (simp add: last_127_def nth_append)
    next
      case False
      with i have "Suc i < 127" by simp
      then have "(br_first br + Suc i) mod 127 \<noteq> br_first br mod 127"
        using mod_eq_dvd_iff_nat [of "br_first br" "br_first br + Suc i" 127] by (auto dest: dvd_imp_le)
      with \<open>Suc i < 127\<close> full new show ?thesis by (simp add: last_127_def nth_append br_history_nth)
    qed
  qed
qed

lemma br_push_inv: "br_inv br \<Longrightarrow> br_negative_offset br = 0 \<Longrightarrow> br_inv (br_push h br)"
  by (auto simp: br_inv_def br_push_def history_buffer_size_def)

lemma br_push_fields [simp]:
  "br_reader (br_push h br) = br_reader br" "br_negative_offset (br_push h br) = br_negative_offset br"
  "br_count (br_push h br) = (if br_count br < 127 then br_count br + 1 else br_count br)"
  by (simp_all add: br_push_def history_buffer_size_def)

lemma br_at_history:
  "0 < br_negative_offset br \<Longrightarrow> br_negative_offset br \<le> br_count br \<Longrightarrow>
     br_at br = br_history br ! (br_count br - br_negative_offset br)"
  by (simp add: br_at_def history_buffer_size_def br_history_nth)

definition br_started :: "'r utf8_buffered_reader \<Rightarrow> bool" where
  "br_started br \<longleftrightarrow> \<not> (br_count br = 0 \<and> br_head br = None)"

text \<open>\<open>items\<close> is what the reader below still has to give.\<close>

definition br_view ::
    "('r \<Rightarrow> utf8_codepoint list \<times> fault option) \<Rightarrow> 'r utf8_buffered_reader \<Rightarrow> reading" where
  "br_view items br = (let n = br_count br - br_negative_offset br in
     (take n (br_history br),
      drop n (br_history br) @ (case br_head br of None \<Rightarrow> [] | Some cp \<Rightarrow> [cp]) @ fst (items (br_reader br)),
      snd (items (br_reader br))))"

definition br_ok ::
    "('r \<Rightarrow> utf8_codepoint list \<times> fault option) \<Rightarrow> 'r utf8_buffered_reader \<Rightarrow> bool" where
  "br_ok items br \<longleftrightarrow> br_inv br \<and> br_started br \<and> (br_head br = None \<longrightarrow> items (br_reader br) = ([], None))"

context reader_interface
begin

lemma read_head:
  "case br_read_head read br of
     Inl f \<Rightarrow> items (br_reader br) = ([], Some f)
   | Inr (cp, br') \<Rightarrow> (\<exists>rd'. br' = br\<lparr>br_reader := rd', br_head := cp\<rparr>
       \<and> (case cp of None \<Rightarrow> items (br_reader br) = ([], None) \<and> items rd' = ([], None)
          | Some c \<Rightarrow> items (br_reader br) = (c # fst (items rd'), snd (items rd'))))"
proof (cases "items (br_reader br)")
  case (Pair cps e)
  consider c cs where "cps = c # cs" | f where "cps = []" "e = Some f" | "cps = []" "e = None"
    by (cases cps; cases e) auto
  then show ?thesis
  proof cases
    case 1
    with Pair read_item obtain rd' where "read (br_reader br) = Inr (Some c, rd')" "items rd' = (cs, e)" by blast
    with 1 Pair show ?thesis by (auto simp: br_read_head_def intro!: exI [of _ rd'])
  next
    case 2
    with Pair read_fault have "read (br_reader br) = Inl f" by blast
    with 2 Pair show ?thesis by (simp add: br_read_head_def)
  next
    case 3
    with Pair read_end obtain rd' where "read (br_reader br) = Inr (None, rd')" "items rd' = ([], None)" by blast
    with 3 Pair show ?thesis by (auto simp: br_read_head_def intro!: exI [of _ rd'])
  qed
qed

lemma first_read:
  assumes run: "br_read_next read (br_new rd) = Inr (cp, br)" and some: "items rd \<noteq> ([], None)"
  shows "br_ok items br" and "br_view items br = ([], items rd)" and "cp = list_current (br_view items br)"
proof -
  have new: "br_reader (br_new rd) = rd" "br_count (br_new rd) = 0" "br_negative_offset (br_new rd) = 0"
    "length (br_buffer (br_new rd)) = 127" "br_first (br_new rd) = 0"
    by (simp_all add: br_new_def history_buffer_size_def)
  have "br_read_head read (br_new rd) = Inr (cp, br)"
    using run by (simp add: br_read_next_def br_new_def)
  with read_head [of "br_new rd"] some obtain c rd' where cp: "cp = Some c"
    and br: "br = br_new rd\<lparr>br_reader := rd', br_head := cp\<rparr>" and "items rd = (c # fst (items rd'), snd (items rd'))"
    by (cases cp) (auto simp: new)
  then show "br_ok items br" and "br_view items br = ([], items rd)" and "cp = list_current (br_view items br)"
    by (simp_all add: br_ok_def br_inv_def br_started_def br_view_def list_current_def new br_history_def)
qed

lemma replay:
  assumes ok: "br_ok items br" and neg: "br_negative_offset br \<noteq> 0"
  shows "\<exists>br'. br_read_next read br = Inr (list_current (br_view items br'), br') \<and> br_ok items br'
    \<and> list_next (br_view items br) = Inr (br_view items br')"
proof -
  let ?br = "br\<lparr>br_negative_offset := br_negative_offset br - 1\<rparr>"
  let ?H = "br_history br" and ?n = "br_count br - br_negative_offset br"
  let ?head = "case br_head br of None \<Rightarrow> [] | Some cp \<Rightarrow> [cp]"
  from ok have inv: "br_inv br" by (simp add: br_ok_def)
  with neg have n: "?n < length ?H" "br_count br \<le> 127" "br_negative_offset br \<le> br_count br" by (auto simp: br_inv_def)
  have pos: "br_count br - (br_negative_offset br - Suc 0) = Suc ?n" using n neg by simp
  have cons: "drop ?n ?H = ?H ! ?n # drop (Suc ?n) ?H" using n(1) by (rule Cons_nth_drop_Suc [symmetric])
  have view: "br_view items ?br = (take (Suc ?n) ?H, drop (Suc ?n) ?H @ ?head @ fst (items (br_reader br)), snd (items (br_reader br)))"
    unfolding br_view_def Let_def by (simp add: pos)
  have "list_next (br_view items br) = Inr (br_view items ?br)"
  proof -
    have "last_127 (take ?n ?H @ [?H ! ?n]) = take (Suc ?n) ?H"
      using n by (simp add: last_127_def take_Suc_conv_app_nth)
    moreover have "drop (Suc ?n) ?H @ ?head @ fst (items (br_reader br)) \<noteq> [] \<or> snd (items (br_reader br)) = None"
      using ok by (auto simp: br_ok_def split: option.splits)
    ultimately show ?thesis
      unfolding view br_view_def [of items br] Let_def cons by (auto split: list.splits option.splits)
  qed
  moreover have "br_ok items ?br" using ok by (simp add: br_ok_def br_inv_def br_started_def) linarith
  moreover have "br_read_next read br = Inr (list_current (br_view items ?br), ?br)"
  proof (cases "br_negative_offset br = 1")
    case True
    with n(1) have "Suc ?n = length ?H" by simp
    then have "list_current (br_view items ?br) = br_head br"
      unfolding list_current_def view using ok by (auto simp: br_ok_def split: option.splits)
    with True show ?thesis by (simp add: br_read_next_def)
  next
    case False
    with neg n have "br_at ?br = ?H ! Suc ?n" "Suc ?n < length ?H"
      by (simp_all add: br_at_history pos)
    moreover from this(2) have "list_current (br_view items ?br) = Some (?H ! Suc ?n)"
      unfolding list_current_def view by (simp add: Cons_nth_drop_Suc [symmetric])
    ultimately show ?thesis using False neg by (simp add: br_read_next_def Let_def)
  qed
  ultimately show ?thesis by blast
qed

lemma read_on:
  assumes ok: "br_ok items br" and neg: "br_negative_offset br = 0"
  shows "case br_read_next read br of
      Inl f \<Rightarrow> list_next (br_view items br) = Inl f
    | Inr (cp, br') \<Rightarrow> br_ok items br' \<and> list_next (br_view items br) = Inr (br_view items br') \<and> cp = list_current (br_view items br')"
proof (cases "br_head br")
  case None
  with ok neg show ?thesis
    by (auto simp: br_read_next_def br_ok_def br_view_def br_started_def list_current_def)
next
  case (Some h)
  let ?br = "br_push h br"
  have inv: "br_inv ?br" using ok neg by (simp add: br_ok_def br_push_inv)
  have hist: "br_history ?br = last_127 (br_history br @ [h])" using ok by (simp add: br_ok_def br_push_history)
  have run: "br_read_next read br = br_read_head read ?br"
    using Some neg by (simp add: br_read_next_def)
  have view: "br_view items br = (br_history br, h # fst (items (br_reader br)), snd (items (br_reader br)))"
    using Some neg by (simp add: br_view_def Let_def)
  have count: "br_count ?br \<noteq> 0" by simp
  have after: "br_inv (?br\<lparr>br_reader := rd', br_head := cp\<rparr>)" "br_started (?br\<lparr>br_reader := rd', br_head := cp\<rparr>)"
    "br_history (?br\<lparr>br_reader := rd', br_head := cp\<rparr>) = last_127 (br_history br @ [h])" for rd' cp
    using inv count hist by (simp_all add: br_inv_def br_started_def br_history_def)
  have len: "br_count ?br = length (last_127 (br_history br @ [h]))" using hist by (metis br_history_length)
  show ?thesis
    unfolding run using read_head [of ?br]
    by (auto simp: view br_ok_def after hist br_view_def [of items "br_push h br\<lparr>br_reader := _, br_head := _\<rparr>"] Let_def neg len
        list_current_def simp del: br_push_fields(3) split: sum.splits prod.splits option.splits list.splits)
qed

lemma step_back:
  assumes ok: "br_ok items br" and n: "0 < n"
  shows "case br_step_back n br of
      Inl f \<Rightarrow> list_back n (br_view items br) = Inl f
    | Inr (cp, br') \<Rightarrow> br_ok items br' \<and> list_back n (br_view items br) = Inr (br_view items br') \<and> cp = list_current (br_view items br')"
proof -
  let ?br = "br\<lparr>br_negative_offset := br_negative_offset br + n\<rparr>"
  let ?H = "br_history br" and ?k = "br_count br - br_negative_offset br"
  from ok have neg: "br_negative_offset br \<le> br_count br" by (simp add: br_ok_def br_inv_def)
  then have before: "length (take ?k ?H) = ?k" by simp
  show ?thesis
  proof (cases "br_count br = 0 \<or> br_count br < br_negative_offset br + n")
    case True
    with neg n before show ?thesis
      by (auto simp: br_step_back_def br_view_def Let_def)
  next
    case False
    with n neg have le: "n \<le> ?k" "0 < ?k" by auto
    have view: "br_view items ?br = (take (?k - n) ?H, drop (?k - n) ?H
        @ (case br_head br of None \<Rightarrow> [] | Some cp \<Rightarrow> [cp]) @ fst (items (br_reader br)), snd (items (br_reader br)))"
      by (simp add: br_view_def Let_def)
    have "drop (?k - n) (take ?k ?H @ drop ?k ?H) = drop (?k - n) (take ?k ?H) @ drop ?k ?H"
      unfolding drop_append using before by simp
    then have "drop (?k - n) (take ?k ?H) @ drop ?k ?H = drop (?k - n) ?H" by simp
    moreover have "?H \<noteq> []" using le br_history_length [of br] by (metis list.size(3) diff_0_eq_0 less_irrefl)
    ultimately have "list_back n (br_view items br) = Inr (br_view items ?br)"
      using le before unfolding view by (auto simp: br_view_def Let_def)
    moreover have "br_ok items ?br" using ok False by (simp add: br_ok_def br_inv_def br_started_def)
    moreover have "br_at ?br = ?H ! (?k - n)" using False n by (simp add: br_at_history)
    then have "list_current (br_view items ?br) = Some (br_at ?br)"
    proof -
      have "?k - n < length ?H" using le n neg by simp
      then have "drop (?k - n) ?H = ?H ! (?k - n) # drop (Suc (?k - n)) ?H" by (rule Cons_nth_drop_Suc [symmetric])
      then show ?thesis unfolding view list_current_def \<open>br_at ?br = _\<close> by simp
    qed
    ultimately show ?thesis using False n by (simp add: br_step_back_def Let_def)
  qed
qed

end

text \<open>
  C21: The buffered reader is a list with a position. Reading the next code point and stepping back, across the
  ring's end and the blocks of the reader below, do to the last 127 code points and those to come what
  \<open>list_next\<close> and \<open>list_back\<close> do, and give the code point the position is at; a step back that is too long
  breaks what the compiler is told to assume.
\<close>

theorem buffered_reader_refines_list:
  assumes "br_ok rd_all br"
  shows "(case br_read_next rd_read_next br of
      Inl f \<Rightarrow> list_next (br_view rd_all br) = Inl f
    | Inr (cp, br') \<Rightarrow> br_ok rd_all br' \<and> list_next (br_view rd_all br) = Inr (br_view rd_all br')
        \<and> cp = list_current (br_view rd_all br'))
   \<and> (0 < n \<longrightarrow> (case br_step_back n br of
      Inl f \<Rightarrow> list_back n (br_view rd_all br) = Inl f
    | Inr (cp, br') \<Rightarrow> br_ok rd_all br' \<and> list_back n (br_view rd_all br) = Inr (br_view rd_all br')
        \<and> cp = list_current (br_view rd_all br')))"
proof (cases "br_negative_offset br = 0")
  case True
  with utf8.read_on [OF assms] utf8.step_back [OF assms] show ?thesis by blast
next
  case False
  from utf8.replay [OF assms False] obtain br'
    where "br_read_next rd_read_next br = Inr (list_current (br_view rd_all br'), br')"
      and "br_ok rd_all br'" and "list_next (br_view rd_all br) = Inr (br_view rd_all br')" by blast
  with utf8.step_back [OF assms] show ?thesis by simp
qed

definition one_char :: "utf8_reader utf8_buffered_reader" where
  "one_char = snd (projr (br_read_next rd_read_next (br_new (utf8_reader_new ''a''))))"

theorem buffered_reader_refines_list_witness:
  "list_next ([], fst (code_points ''a''), None) = Inr (br_view rd_all (snd (projr (br_read_next rd_read_next one_char))))"
proof -
  have a: "code_points ''a'' = ([\<lparr>cp_value = 97, cp_bytes = ''a''\<rparr>], True)" by code_simp
  then have all: "rd_all (utf8_reader_new ''a'') = ([\<lparr>cp_value = 97, cp_bytes = ''a''\<rparr>], None)"
    using rd_all_new [of "''a''"] by (simp add: skip_byte_order_mark_def)
  obtain r where r: "br_read_next rd_read_next (br_new (utf8_reader_new ''a'')) = Inr r"
    using utf8.read_head [of "br_new (utf8_reader_new ''a'')"] all
    by (cases "br_read_head rd_read_next (br_new (utf8_reader_new ''a''))")
      (auto simp: br_read_next_def br_new_def)
  then have one: "br_read_next rd_read_next (br_new (utf8_reader_new ''a'')) = Inr (fst r, one_char)"
    by (simp add: one_char_def)
  have ok: "br_ok rd_all one_char" and view: "br_view rd_all one_char = ([], fst (code_points ''a''), None)"
    using utf8.first_read [OF one] all a by simp_all
  then have "list_next (br_view rd_all one_char) = Inr ([\<lparr>cp_value = 97, cp_bytes = ''a''\<rparr>], [], None)"
    using a by (simp add: last_127_def)
  with buffered_reader_refines_list [OF ok, of 0]
  have "list_next (br_view rd_all one_char) = Inr (br_view rd_all (snd (projr (br_read_next rd_read_next one_char))))"
    by (cases "br_read_next rd_read_next one_char") auto
  then show ?thesis unfolding view .
qed

end
