(* ===== verification/Toml_Cursor.thy ===== *)
theory Toml_Cursor
  imports Toml_Reader
begin

text \<open>
  \<^verbatim>\<open>util/toml.hpp\<close>, class \<^verbatim>\<open>parser\<close>: moving through the text. The parser's \<^verbatim>\<open>cp\<close> is the first of the code
  points ahead (\<open>buffered_reader_refines_list\<close> says that the reader gives it that); going back is returning
  to an earlier cursor. An error is a \<open>Toml_exception\<close> with the fixed part of its text; positions, scopes and
  recorded text only serve messages and are left out.
\<close>

section \<open>The cursor\<close>

record cursor =
  cur_rest :: "utf8_codepoint list"
  cur_end :: "fault option"

type_synonym 'a parse = "(cursor, 'a) prog"

text \<open>\<^verbatim>\<open>is_eof\<close> and the current code point: what is done at the end, and what with \<^verbatim>\<open>*cp\<close>.\<close>

definition with_cp :: "'a parse \<Rightarrow> (nat \<Rightarrow> 'a parse) \<Rightarrow> 'a parse" where
  "with_cp at_eof f = (\<lambda>c. case cur_rest c of [] \<Rightarrow> at_eof c | cp # _ \<Rightarrow> f (cp_value cp) c)"

definition cp_text :: "cursor \<Rightarrow> string" where
  "cp_text c = (case cur_rest c of [] \<Rightarrow> [] | cp # _ \<Rightarrow> cp_bytes cp)"

definition set_error :: "string \<Rightarrow> 'a parse" where
  "set_error reason = throw_p (Toml_exception reason)"

definition assumption_broken :: "'a parse" where
  "assumption_broken = throw_p (Undefined_behaviour ''TOML_ASSERT_ASSUME'')"

definition advance :: "unit parse" where
  "advance = (\<lambda>c. case cur_rest c of
      [] \<Rightarrow> assumption_broken c
    | _ # cps \<Rightarrow> (case (cps, cur_end c) of
        ([], Some e) \<Rightarrow> (Inl e, c)
      | _ \<Rightarrow> (Inr (), c\<lparr>cur_rest := cps\<rparr>)))"

text \<open>\<^verbatim>\<open>set_error_and_return_if_eof\<close> and \<^verbatim>\<open>advance_and_return_if_error_or_eof\<close>.\<close>

definition not_eof :: "unit parse" where
  "not_eof = with_cp (set_error ''encountered end-of-file'') (\<lambda>_. return_p ())"

definition advance_not_eof :: "unit parse" where
  "advance_not_eof = then_p advance not_eof"

text \<open>A test of \<^verbatim>\<open>impl/unicode.h\<close> that may not answer, and a branch on it.\<close>

definition if_p :: "fault + bool \<Rightarrow> 'a parse \<Rightarrow> 'a parse \<Rightarrow> 'a parse" where
  "if_p b m k = bind_p (lift_p b) (\<lambda>b. if b then m else k)"

section \<open>Loops\<close>

text \<open>
  A loop whose rounds each use up a code point: \<open>Inl\<close> goes round again, \<open>Inr\<close> leaves it. As many rounds as
  code points are ahead, and one, are enough.
\<close>

definition out_of_rounds :: fault where
  "out_of_rounds = Undefined_behaviour ''a round without progress''"

primrec rounds :: "nat \<Rightarrow> ('a \<Rightarrow> ('a + 'b) parse) \<Rightarrow> 'a \<Rightarrow> 'b parse" where
  "rounds 0 body a = throw_p out_of_rounds"
| "rounds (Suc n) body a = bind_p (body a) (\<lambda>r. case r of Inl a' \<Rightarrow> rounds n body a' | Inr b \<Rightarrow> return_p b)"

definition loop_p :: "('a \<Rightarrow> ('a + 'b) parse) \<Rightarrow> 'a \<Rightarrow> 'b parse" where
  "loop_p body a = (\<lambda>c. rounds (Suc (length (cur_rest c))) body a c)"

definition progressing :: "('a \<Rightarrow> ('a + 'b) parse) \<Rightarrow> bool" where
  "progressing body \<longleftrightarrow> (\<forall>a c a' c'. body a c = (Inr (Inl a'), c') \<longrightarrow> length (cur_rest c') < length (cur_rest c))"

lemma progressingI:
  "(\<And>a c a' c'. body a c = (Inr (Inl a'), c') \<Longrightarrow> length (cur_rest c') < length (cur_rest c)) \<Longrightarrow> progressing body"
  by (simp add: progressing_def)

lemma rounds_enough:
  assumes "progressing body"
  shows "length (cur_rest c) < n \<Longrightarrow> length (cur_rest c) < m \<Longrightarrow> rounds n body a c = rounds m body a c"
proof (induction n arbitrary: m a c)
  case (Suc n)
  from Suc.prems(2) obtain m' where m: "m = Suc m'" by (cases m) auto
  have "rounds n body a' c' = rounds m' body a' c'" if "body a c = (Inr (Inl a'), c')" for a' c'
  proof -
    from assms that have "length (cur_rest c') < length (cur_rest c)" by (auto simp: progressing_def)
    with Suc.prems m show ?thesis by (intro Suc.IH) auto
  qed
  then show ?case by (auto simp: m bind_p_def split: prod.splits sum.splits)
qed simp

lemma loop_unfold:
  assumes "progressing body"
  shows "loop_p body a c = bind_p (body a) (\<lambda>r. case r of Inl a' \<Rightarrow> loop_p body a' | Inr b \<Rightarrow> return_p b) c"
proof -
  have "rounds (length (cur_rest c)) body a' c' = loop_p body a' c'" if "body a c = (Inr (Inl a'), c')" for a' c'
  proof -
    from assms that have "length (cur_rest c') < length (cur_rest c)" by (auto simp: progressing_def)
    then show ?thesis unfolding loop_p_def by (intro rounds_enough [OF assms]) auto
  qed
  then show ?thesis by (auto simp: loop_p_def [of body a] bind_p_def split: prod.splits sum.splits)
qed

text \<open>Rules about what a loop has done, by induction on its rounds.\<close>

lemma rounds_invariant:
  assumes "\<And>a c r c'. P a c \<Longrightarrow> body a c = (r, c') \<Longrightarrow> (case r of Inl e \<Rightarrow> E e | Inr (Inl a') \<Rightarrow> P a' c' | Inr (Inr b) \<Rightarrow> Q b c')"
    and "E out_of_rounds"
  shows "P a c \<Longrightarrow> rounds n body a c = (r, c') \<Longrightarrow> (case r of Inl e \<Rightarrow> E e | Inr b \<Rightarrow> Q b c')"
proof (induction n arbitrary: a c)
  case 0
  with assms(2) show ?case by (auto simp: throw_p_def)
next
  case (Suc n)
  then show ?case
    using assms(1) [OF Suc.prems(1)]
    by (fastforce simp: bind_p_def return_p_def split: prod.splits sum.splits)
qed

section \<open>White space, line breaks and comments\<close>

definition consume_leading_whitespace :: "bool parse" where
  "consume_leading_whitespace = loop_p (\<lambda>consumed.
     with_cp (return_p (Inr consumed)) (\<lambda>cp.
       if_p (is_horizontal_whitespace cp)
        (if \<not> is_ascii_horizontal_whitespace cp then set_error ''expected space or tab''
         else then_p advance (return_p (Inl True)))
        (return_p (Inr consumed)))) False"

definition consume_line_break :: "bool parse" where
  "consume_line_break = with_cp (return_p False) (\<lambda>cp.
     if cp = 0x0B \<or> cp = 0x0C then set_error ''vertical tabs and form-feeds are not legal line breaks in TOML''
     else if cp = 0x0D then
       then_p advance (with_cp (set_error ''expected a line feed, saw EOF'') (\<lambda>cp.
         if cp \<noteq> 0x0A then set_error ''expected a line feed'' else then_p advance (return_p True)))
     else if cp \<noteq> 0x0A then return_p False
     else then_p advance (return_p True))"

definition consume_comment :: "bool parse" where
  "consume_comment = with_cp (return_p False) (\<lambda>cp.
     if cp \<noteq> 0x23 then return_p False
     else then_p advance (loop_p (\<lambda>_ :: unit.
       with_cp (return_p (Inr True)) (\<lambda>cp.
         bind_p consume_line_break (\<lambda>b.
           if b then return_p (Inr True)
           else if is_nontab_control_character cp then set_error ''control characters are prohibited in comments''
           else if is_unicode_surrogate cp then set_error ''unicode surrogates are prohibited in comments''
           else then_p advance (return_p (Inl ()))))) ()))"

text \<open>\<^verbatim>\<open>consume_leading_whitespace() || consume_line_break() || consume_comment()\<close>\<close>

definition consume_blank :: "bool parse" where
  "consume_blank = bind_p consume_leading_whitespace (\<lambda>b. if b then return_p True
     else bind_p consume_line_break (\<lambda>b. if b then return_p True else consume_comment))"

section \<open>Sequences\<close>

primrec consume_expected_sequence :: "nat list \<Rightarrow> bool parse" where
  "consume_expected_sequence [] = return_p True"
| "consume_expected_sequence (c # seq) =
     with_cp (set_error ''encountered end-of-file'') (\<lambda>cp.
       if cp \<noteq> c then return_p False else then_p advance (consume_expected_sequence seq))"

text \<open>The digits, or None for false.\<close>

primrec consume_digit_sequence :: "nat \<Rightarrow> nat list option parse" where
  "consume_digit_sequence 0 = return_p (Some [])"
| "consume_digit_sequence (Suc len) =
     with_cp (set_error ''encountered end-of-file'') (\<lambda>cp.
       if \<not> is_decimal_digit cp then return_p None
       else then_p advance (bind_p (consume_digit_sequence len) (\<lambda>ds.
         return_p (map_option (\<lambda>ds. (cp - 0x30) # ds) ds))))"

primrec consume_variable_length_digit_sequence :: "nat \<Rightarrow> nat list parse" where
  "consume_variable_length_digit_sequence 0 = return_p []"
| "consume_variable_length_digit_sequence (Suc max_len) =
     with_cp (return_p []) (\<lambda>cp.
       if \<not> is_decimal_digit cp then return_p []
       else then_p advance (bind_p (consume_variable_length_digit_sequence max_len) (\<lambda>ds.
         return_p ((cp - 0x30) # ds))))"

end
