(* ===== verification/Toml_Value.thy ===== *)
theory Toml_Value
  imports Toml_Cursor
begin

text \<open>
  \<^verbatim>\<open>util/toml.hpp\<close>, the nodes of a document and where the parser may put new ones. A table knows in which of the
  parser's lists of tables it stands, which the code keeps as lists of pointers. Nodes have no position
  in the text here; a number has no record of the base it was written in.
\<close>

section \<open>Nodes\<close>

record toml_date =
  td_year :: nat
  td_month :: nat
  td_day :: nat

record toml_time =
  tt_hour :: nat
  tt_minute :: nat
  tt_second :: nat
  tt_nanosecond :: nat

text \<open>A number with a point or exponent is kept as its sign and text.\<close>

datatype toml_float = Tf_number bool string | Tf_inf bool | Tf_nan

datatype table_kind =
    Tk_header \<comment> \<open>the root, or a table with a header of its own\<close>
  | Tk_implicit \<comment> \<open>in \<^verbatim>\<open>implicit_tables\<close>: made for a longer header\<close>
  | Tk_dotted \<comment> \<open>in \<^verbatim>\<open>dotted_key_tables\<close>: made for a dotted key\<close>
  | Tk_inline \<comment> \<open>\<^verbatim>\<open>is_inline()\<close>\<close>

text \<open>The flag of an array tells whether it is in \<^verbatim>\<open>table_arrays\<close>, that is, made by a header in double brackets.\<close>

datatype toml_node =
    Tn_table table_kind "(string \<times> toml_node) list"
  | Tn_array bool "toml_node list"
  | Tn_string string
  | Tn_integer int
  | Tn_float toml_float
  | Tn_boolean bool
  | Tn_date toml_date
  | Tn_time toml_time
  | Tn_date_time toml_date toml_time "int option"

type_synonym toml_entries = "(string, toml_node) std_map"

fun is_table :: "toml_node \<Rightarrow> bool" where
  "is_table (Tn_table _ _) = True"
| "is_table _ = False"

fun is_array_of_tables :: "toml_node \<Rightarrow> bool" where
  "is_array_of_tables (Tn_array _ elems) = (elems \<noteq> [] \<and> list_all is_table elems)"
| "is_array_of_tables _ = False"

section \<open>Headers\<close>

text \<open>
  \<^verbatim>\<open>parse_table_header\<close> once the key has been read: the entries of the root afterwards. The new table is found
  again along the key: through tables, and through the last element of an array of tables. While a header
  is read no inline table is open.
\<close>

fun open_table :: "bool \<Rightarrow> string list \<Rightarrow> toml_entries \<Rightarrow> fault + toml_entries" where
  "open_table is_arr [] t = Inl (Undefined_behaviour ''empty key'')"
| "open_table is_arr [last_segment] t =
     (case map_of t last_segment of
        Some matching_node \<Rightarrow>
          (case matching_node of
             Tn_array True elems \<Rightarrow>
               if is_arr then Inr (map_put last_segment (Tn_array True (elems @ [Tn_table Tk_header []])) t)
               else Inl (Toml_exception ''cannot redefine existing array as table'')
           | Tn_table Tk_implicit es \<Rightarrow>
               if \<not> is_arr \<and> list_all (\<lambda>(_, child). is_table child \<or> is_array_of_tables child) es
               then Inr (map_put last_segment (Tn_table Tk_header es) t)
               else Inl (Toml_exception ''cannot redefine existing table'')
           | _ \<Rightarrow> Inl (Toml_exception ''cannot redefine existing value''))
      | None \<Rightarrow> Inr (map_put last_segment
          (if is_arr then Tn_array True [Tn_table Tk_header []] else Tn_table Tk_header []) t))"
| "open_table is_arr (segment # key) t =
     (case map_of t segment of
        Some p \<Rightarrow>
          (case p of
             Tn_table kind es \<Rightarrow>
               if kind = Tk_inline then Inl (Toml_exception ''cannot insert into existing inline table'')
               else (case open_table is_arr key es of Inl e \<Rightarrow> Inl e
                 | Inr es' \<Rightarrow> Inr (map_put segment (Tn_table kind es') t))
           | Tn_array True elems \<Rightarrow>
               (case elems of [] \<Rightarrow> Inl (Undefined_behaviour ''TOML_ASSERT'') | _ \<Rightarrow>
                 case last elems of
                   Tn_table kind es \<Rightarrow> (case open_table is_arr key es of Inl e \<Rightarrow> Inl e
                     | Inr es' \<Rightarrow> Inr (map_put segment (Tn_array True (butlast elems @ [Tn_table kind es'])) t))
                 | _ \<Rightarrow> Inl (Undefined_behaviour ''TOML_ASSERT''))
           | _ \<Rightarrow> Inl (Toml_exception ''cannot redefine existing value''))
      | None \<Rightarrow> (case open_table is_arr key [] of Inl e \<Rightarrow> Inl e
          | Inr es' \<Rightarrow> Inr (map_put segment (Tn_table Tk_implicit es') t)))"

text \<open>The table a header has opened, and the change of that table in the whole.\<close>

fun current_table :: "string list \<Rightarrow> toml_entries \<Rightarrow> toml_entries option" where
  "current_table [] t = Some t"
| "current_table (segment # key) t =
     (case map_of t segment of
        Some (Tn_table kind es) \<Rightarrow> if kind = Tk_inline then None else current_table key es
      | Some (Tn_array True elems) \<Rightarrow>
          (case elems of [] \<Rightarrow> None | _ \<Rightarrow> case last elems of Tn_table _ es \<Rightarrow> current_table key es | _ \<Rightarrow> None)
      | _ \<Rightarrow> None)"

fun update_table :: "string list \<Rightarrow> toml_entries \<Rightarrow> toml_entries \<Rightarrow> toml_entries" where
  "update_table [] new t = new"
| "update_table (segment # key) new t =
     (case map_of t segment of
        Some (Tn_table kind es) \<Rightarrow> map_put segment (Tn_table kind (update_table key new es)) t
      | Some (Tn_array True elems) \<Rightarrow>
          (case elems of [] \<Rightarrow> t | _ \<Rightarrow> case last elems of
             Tn_table kind es \<Rightarrow> map_put segment (Tn_array True (butlast elems @ [Tn_table kind (update_table key new es)])) t
           | _ \<Rightarrow> t)
      | _ \<Rightarrow> t)"

section \<open>Key-value pairs\<close>

text \<open>
  The part of \<^verbatim>\<open>parse_key_value_pair_and_insert\<close> between key and value: the tables of a dotted key are made or
  found, and the place must be free. The result says where the value goes.
\<close>

fun key_place :: "string list \<Rightarrow> toml_entries \<Rightarrow> fault + (toml_node \<Rightarrow> toml_entries)" where
  "key_place [] t = Inl (Undefined_behaviour ''empty key'')"
| "key_place [last_segment] t =
     (case map_of t last_segment of
        Some _ \<Rightarrow> Inl (Toml_exception ''cannot redefine existing value'')
      | None \<Rightarrow> Inr (\<lambda>val. map_put last_segment val t))"
| "key_place (segment # key) t =
     (case map_of t segment of
        Some p \<Rightarrow>
          (case p of
             Tn_table kind es \<Rightarrow>
               if kind = Tk_dotted \<or> kind = Tk_implicit then
                 (case key_place key es of Inl e \<Rightarrow> Inl e
                  | Inr put \<Rightarrow> Inr (\<lambda>val. map_put segment (Tn_table kind (put val)) t))
               else Inl (Toml_exception ''cannot redefine existing table as dotted key-value pair'')
           | _ \<Rightarrow> Inl (Toml_exception ''cannot redefine existing value as dotted key-value pair''))
      | None \<Rightarrow> (case key_place key [] of Inl e \<Rightarrow> Inl e
          | Inr put \<Rightarrow> Inr (\<lambda>val. map_put segment (Tn_table Tk_dotted (put val)) t)))"

section \<open>Reading values\<close>

text \<open>
  \<^verbatim>\<open>config[section][key]\<close> is a view that may be null, \<^verbatim>\<open>value<T>()\<close> an optional. \<open>whole\<close> is what the conversion of a
  double to \<^verbatim>\<open>int64_t\<close> gives: the integer the number is equal to, if there is one; it is undefined for a number out of
  range.
\<close>

definition view_entry :: "toml_node option \<Rightarrow> string \<Rightarrow> toml_node option" where
  "view_entry v key = (case v of Some (Tn_table _ es) \<Rightarrow> map_of es key | _ \<Rightarrow> None)"

definition value_string :: "toml_node option \<Rightarrow> string option" where
  "value_string v = (case v of Some (Tn_string s) \<Rightarrow> Some s | _ \<Rightarrow> None)"

definition node_integer_cast :: "int \<Rightarrow> int \<Rightarrow> int \<Rightarrow> int option" where
  "node_integer_cast lo hi val = (if val < lo \<or> hi < val then None else Some val)"

definition value_integer :: "(toml_float \<Rightarrow> fault + int option) \<Rightarrow> int \<Rightarrow> int \<Rightarrow> toml_node option \<Rightarrow> fault + int option" where
  "value_integer whole lo hi v = (case v of
      Some (Tn_integer i) \<Rightarrow> Inr (node_integer_cast lo hi i)
    | Some (Tn_float f) \<Rightarrow> (case whole f of Inl e \<Rightarrow> Inl e
        | Inr None \<Rightarrow> Inr None | Inr (Some i) \<Rightarrow> Inr (node_integer_cast lo hi i))
    | Some (Tn_boolean b) \<Rightarrow> Inr (Some (if b then 1 else 0))
    | _ \<Rightarrow> Inr None)"

end
