(* ===== verification/Toml_Scalar.thy ===== *)
theory Toml_Scalar
  imports Toml_Value
begin

text \<open>
  \<^verbatim>\<open>util/toml.hpp\<close>, class \<^verbatim>\<open>parser\<close>: strings, booleans and numbers. \<open>here\<close> reads \<^verbatim>\<open>*cp\<close> where the code knows that it
  is not at the end. The conversion of a text to a double is the standard library's: the parameter \<open>to_double\<close>
  tells whether it accepts a text.
\<close>

definition here :: "(nat \<Rightarrow> 'a parse) \<Rightarrow> 'a parse" where
  "here = with_cp assumption_broken"

definition at_eof :: "bool parse" where
  "at_eof = with_cp (return_p True) (\<lambda>_. return_p False)"

text \<open>\<^verbatim>\<open>cp && !is_value_terminator(*cp)\<close>\<close>

definition no_terminator :: "bool parse" where
  "no_terminator = with_cp (return_p False) (\<lambda>cp. if_p (is_value_terminator cp) (return_p False) (return_p True))"

definition expect_terminator :: "unit parse" where
  "expect_terminator = bind_p no_terminator (\<lambda>b. if b then set_error ''expected value-terminator'' else return_p ())"

section \<open>Strings\<close>

text \<open>The code points of the named characters.\<close>

abbreviation (input) Quote :: nat where "Quote \<equiv> 0x22"
abbreviation (input) Apostrophe :: nat where "Apostrophe \<equiv> 0x27"
abbreviation (input) Backslash :: nat where "Backslash \<equiv> 0x5C"

primrec scalar_sequence :: "nat list \<Rightarrow> nat \<Rightarrow> nat parse" where
  "scalar_sequence [] sequence_value = return_p sequence_value"
| "scalar_sequence (place_value # places) sequence_value =
     with_cp (set_error ''encountered end-of-file'') (\<lambda>cp.
       if \<not> is_hexadecimal_digit cp then set_error ''expected hex digit''
       else then_p advance (scalar_sequence places (sequence_value + place_value * hex_to_dec cp)))"

definition place_values :: "nat \<Rightarrow> nat list" where
  "place_values escaped_codepoint = (if escaped_codepoint = 0x55
     then [0x10000000, 0x1000000, 0x100000, 0x10000, 0x1000, 0x100, 0x10, 0x1] else [0x1000, 0x100, 0x10, 0x1])"

definition utf8_bytes :: "nat \<Rightarrow> string" where
  "utf8_bytes v =
     (if v < 0x80 then [char_of v]
      else if v < 0x800 then [char_of (v div 64 + 0xC0), char_of (v mod 64 + 0x80)]
      else if v < 0x10000 then [char_of (v div 4096 + 0xE0), char_of (v div 64 mod 64 + 0x80), char_of (v mod 64 + 0x80)]
      else if v < 0x110000 then [char_of (v div 262144 + 0xF0), char_of (v div 4096 mod 64 + 0x80),
         char_of (v div 64 mod 64 + 0x80), char_of (v mod 64 + 0x80)]
      else [])"

text \<open>What stands after a backslash: the bytes it means. The cursor is left behind it.\<close>

definition escape_sequence :: "string parse" where
  "escape_sequence = here (\<lambda>escaped_codepoint.
     let regular = (\<lambda>s. then_p advance_not_eof (return_p s)) in
     if escaped_codepoint = 0x62 then regular [CHR 0x08]
     else if escaped_codepoint = 0x66 then regular [CHR 0x0C]
     else if escaped_codepoint = 0x6E then regular [CHR 0x0A]
     else if escaped_codepoint = 0x72 then regular [CHR 0x0D]
     else if escaped_codepoint = 0x74 then regular [CHR 0x09]
     else if escaped_codepoint = Quote then regular [CHR 0x22]
     else if escaped_codepoint = Backslash then regular [CHR 0x5C]
     else if escaped_codepoint = 0x65 then set_error ''escape sequence e is not supported''
     else if escaped_codepoint = 0x78 then set_error ''escape sequence x is not supported''
     else if escaped_codepoint = 0x75 \<or> escaped_codepoint = 0x55 then
       then_p advance_not_eof (bind_p (scalar_sequence (place_values escaped_codepoint) 0) (\<lambda>sequence_value.
         if is_unicode_surrogate sequence_value then set_error ''unicode surrogates are prohibited''
         else if 0x10FFFF < sequence_value then set_error ''values greater than U+10FFFF are invalid''
         else return_p (utf8_bytes sequence_value)))
     else set_error ''unknown escape sequence'')"

text \<open>
  The loop over the delimiters in a multi-line string: at most \<open>lookaheads\<close> more, and those seen so far.
\<close>

primrec consecutive_delimiters :: "nat \<Rightarrow> nat \<Rightarrow> nat \<Rightarrow> nat parse" where
  "consecutive_delimiters delimiter 0 n = return_p n"
| "consecutive_delimiters delimiter (Suc lookaheads) n =
     then_p advance (with_cp (return_p n) (\<lambda>cp.
       if cp = delimiter then consecutive_delimiters delimiter lookaheads (n + 1) else return_p n))"

text \<open>Those that belong to the string, and whether it ends.\<close>

definition closing_delimiters :: "nat \<Rightarrow> (string \<times> bool) parse" where
  "closing_delimiters delimiter = bind_p (consecutive_delimiters delimiter 4 1) (\<lambda>n.
     if n = 1 then return_p ([char_of delimiter], False)
     else if n = 2 then return_p ([char_of delimiter, char_of delimiter], False)
     else if n = 3 then return_p ([], True)
     else if n = 4 then return_p ([char_of delimiter], True)
     else then_p advance (return_p ([char_of delimiter, char_of delimiter], True)))"

record string_state =
  ss_str :: string
  ss_escaped :: bool
  ss_skipping_whitespace :: bool

definition ss_append :: "string \<Rightarrow> string_state \<Rightarrow> string_state" where
  "ss_append s st = st\<lparr>ss_str := ss_str st @ s\<rparr>"

definition skip_first_line_break :: "bool \<Rightarrow> unit parse" where
  "skip_first_line_break multi_line = (if multi_line then then_p consume_line_break not_eof else return_p ())"

text \<open>A round after a backslash, and one without.\<close>

definition escaped_round :: "bool \<Rightarrow> string_state \<Rightarrow> (string_state + string) parse" where
  "escaped_round multi_line st = here (\<lambda>cp. let st = st\<lparr>ss_escaped := False\<rparr> in
     if_p (if multi_line then is_whitespace cp else Inr False)
      (then_p consume_leading_whitespace (bind_p consume_line_break (\<lambda>b.
         if \<not> b then set_error ''line-ending backslashes must be the last non-whitespace character on the line''
         else return_p (Inl (st\<lparr>ss_skipping_whitespace := True\<rparr>)))))
      (bind_p escape_sequence (\<lambda>s. return_p (Inl (ss_append s st)))))"

definition plain_round :: "bool \<Rightarrow> string_state \<Rightarrow> (string_state + string) parse" where
  "plain_round multi_line st = here (\<lambda>cp.
     if cp = Quote then
       if multi_line then bind_p (closing_delimiters Quote) (\<lambda>(s, closed).
         if closed then return_p (Inr (ss_str st @ s))
         else return_p (Inl ((ss_append s st)\<lparr>ss_skipping_whitespace := False\<rparr>)))
       else then_p advance (return_p (Inr (ss_str st)))
     else if cp = Backslash then
       then_p advance_not_eof (return_p (Inl (st\<lparr>ss_skipping_whitespace := False, ss_escaped := True\<rparr>)))
     else if multi_line \<and> is_ascii_vertical_whitespace cp then
       then_p consume_line_break (return_p (Inl (if ss_skipping_whitespace st then st else ss_append [CHR 0x0A] st)))
     else if is_nontab_control_character cp then set_error ''unescaped control characters are prohibited''
     else if is_unicode_surrogate cp then set_error ''unescaped unicode surrogates are prohibited''
     else bind_p (gets_p cp_text) (\<lambda>bytes.
       if multi_line then
         if_p (if \<not> ss_skipping_whitespace st then Inr False else is_horizontal_whitespace cp)
          (then_p advance (return_p (Inl st)))
          (then_p advance (return_p (Inl ((ss_append bytes st)\<lparr>ss_skipping_whitespace := False\<rparr>))))
       else then_p advance (return_p (Inl (ss_append bytes st)))))"

definition parse_basic_string :: "bool \<Rightarrow> string parse" where
  "parse_basic_string multi_line =
     then_p advance_not_eof (then_p (skip_first_line_break multi_line) (loop_p (\<lambda>st.
       with_cp (set_error ''encountered end-of-file'') (\<lambda>_.
         if ss_escaped st then escaped_round multi_line st else plain_round multi_line st))
       \<lparr>ss_str = [], ss_escaped = False, ss_skipping_whitespace = False\<rparr>))"

definition literal_round :: "bool \<Rightarrow> string \<Rightarrow> (string + string) parse" where
  "literal_round multi_line str = here (\<lambda>cp.
     if cp = Apostrophe then
       if multi_line then bind_p (closing_delimiters Apostrophe) (\<lambda>(s, closed).
         return_p (if closed then Inr (str @ s) else Inl (str @ s)))
       else then_p advance (return_p (Inr str))
     else if multi_line \<and> is_ascii_vertical_whitespace cp then
       then_p consume_line_break (return_p (Inl (str @ [CHR 0x0A])))
     else if is_nontab_control_character cp then set_error ''control characters are prohibited''
     else if is_unicode_surrogate cp then set_error ''unicode surrogates are prohibited''
     else bind_p (gets_p cp_text) (\<lambda>bytes. then_p advance (return_p (Inl (str @ bytes)))))"

definition parse_literal_string :: "bool \<Rightarrow> string parse" where
  "parse_literal_string multi_line =
     then_p advance_not_eof (then_p (skip_first_line_break multi_line) (loop_p (\<lambda>str.
       with_cp (set_error ''encountered end-of-file'') (\<lambda>_. literal_round multi_line str)) []))"

text \<open>
  \<^verbatim>\<open>go_back\<close>: the reader keeps the last \<open>history_buffer_size\<close> code points and assumes that it is not taken back
  further. \<open>negative_offset\<close> is how far behind the furthest code point read it is already.
\<close>

definition go_back_to :: "nat \<Rightarrow> cursor \<Rightarrow> unit parse" where
  "go_back_to negative_offset c = bind_p (gets_p (\<lambda>now. length (cur_rest c) - length (cur_rest now))) (\<lambda>count.
     if history_buffer_size < negative_offset + count then assumption_broken else modify_p (\<lambda>_. c))"

text \<open>Looking three code points ahead and going back. The result tells whether the string was multi-line.\<close>

definition parse_quoted :: "nat \<Rightarrow> bool \<Rightarrow> string parse" where
  "parse_quoted first multi_line = (if first = Apostrophe then parse_literal_string multi_line else parse_basic_string multi_line)"

definition parse_string :: "(string \<times> bool) parse" where
  "parse_string = bind_p (gets_p (\<lambda>c. c)) (\<lambda>start.
     here (\<lambda>first.
       then_p advance_not_eof (here (\<lambda>second.
         then_p advance (with_cp
           (if second = first then return_p ([], False) else set_error ''encountered end-of-file'')
           (\<lambda>third. if first = second \<and> first = third then bind_p (parse_quoted first True) (\<lambda>s. return_p (s, True))
              else then_p (go_back_to 0 start) (bind_p (parse_quoted first False) (\<lambda>s. return_p (s, False)))))))))"

definition parse_bare_key_segment :: "string parse" where
  "parse_bare_key_segment = loop_p (\<lambda>segment.
     with_cp (return_p (Inr segment)) (\<lambda>cp.
       if \<not> is_bare_key_character cp then return_p (Inr segment)
       else bind_p (gets_p cp_text) (\<lambda>bytes. then_p advance (return_p (Inl (segment @ bytes)))))) []"

section \<open>Booleans, infinities and floating-point numbers\<close>

definition parse_boolean :: "bool parse" where
  "parse_boolean = here (\<lambda>cp. let result = cp = 0x74 \<or> cp = 0x54 in
     bind_p (consume_expected_sequence (map byte_of (if result then ''true'' else ''false''))) (\<lambda>b.
       if \<not> b then set_error ''expected a boolean'' else then_p expect_terminator (return_p result)))"

definition parse_inf_or_nan :: "toml_float parse" where
  "parse_inf_or_nan = here (\<lambda>cp. let negative = cp = 0x2D in
     then_p (if negative \<or> cp = 0x2B then advance_not_eof else return_p ())
     (here (\<lambda>cp. let inf = cp = 0x69 \<or> cp = 0x49 in
       bind_p (consume_expected_sequence (map byte_of (if inf then ''inf'' else ''nan''))) (\<lambda>b.
         if \<not> b then set_error ''expected inf or nan''
         else then_p expect_terminator (return_p (if inf then Tf_inf negative else Tf_nan))))))"

text \<open>\<open>fs_prev\<close> is the value of the code point before.\<close>

record float_state =
  fs_chars :: string
  fs_prev :: "nat option"
  fs_seen_decimal :: bool
  fs_seen_exponent :: bool
  fs_first_integer_part :: "char option"

definition prev_in :: "nat list \<Rightarrow> nat option \<Rightarrow> bool" where
  "prev_in cps prev = (case prev of None \<Rightarrow> False | Some cp \<Rightarrow> cp \<in> set cps)"

definition prev_is :: "(nat \<Rightarrow> bool) \<Rightarrow> nat option \<Rightarrow> bool" where
  "prev_is P prev = (case prev of None \<Rightarrow> False | Some cp \<Rightarrow> P cp)"

text \<open>What a code point other than an underscore does to the flags.\<close>

definition float_char :: "nat \<Rightarrow> char \<Rightarrow> float_state \<Rightarrow> fault + float_state" where
  "float_char cp byte st =
     (let wrong = Inl (Toml_exception ''expected decimal digit'') in
      if prev_in [0x5F] (fs_prev st) \<and> \<not> is_decimal_digit cp then Inl (Toml_exception ''underscores must be followed by digits'')
      else if length (fs_chars st) = 128 then Inl (Toml_exception ''exceeds length limit'')
      else if cp = 0x2E then
        if fs_first_integer_part st = None \<or> fs_seen_exponent st \<or> fs_seen_decimal st then wrong
        else Inr (st\<lparr>fs_seen_decimal := True\<rparr>)
      else if cp = 0x65 \<or> cp = 0x45 then
        if fs_prev st \<noteq> None \<and> \<not> prev_is is_decimal_digit (fs_prev st) \<or> fs_seen_exponent st then wrong
        else Inr (st\<lparr>fs_seen_decimal := True, fs_seen_exponent := True\<rparr>)
      else if cp = 0x2B \<or> cp = 0x2D then
        if \<not> fs_seen_exponent st \<or> \<not> prev_in [0x65, 0x45] (fs_prev st) then wrong else Inr st
      else if is_decimal_digit cp then
        if \<not> fs_seen_decimal st then
          if fs_first_integer_part st = None then Inr (st\<lparr>fs_first_integer_part := Some byte\<rparr>)
          else if fs_first_integer_part st = Some (CHR ''0'') then Inl (Toml_exception ''leading zeroes are prohibited'')
          else Inr st
        else Inr st
      else wrong)"

definition first_byte :: "cursor \<Rightarrow> char" where
  "first_byte c = (case cp_text c of [] \<Rightarrow> CHR 0x00 | b # _ \<Rightarrow> b)"

definition float_round :: "float_state \<Rightarrow> (float_state + float_state) parse" where
  "float_round st = bind_p no_terminator (\<lambda>b. if \<not> b then return_p (Inr st) else here (\<lambda>cp.
     if cp = 0x5F then
       if \<not> prev_is is_decimal_digit (fs_prev st) then set_error ''underscores may only follow digits''
       else then_p advance_not_eof (return_p (Inl (st\<lparr>fs_prev := Some cp\<rparr>)))
     else bind_p (gets_p first_byte) (\<lambda>byte. bind_p (lift_p (float_char cp byte st)) (\<lambda>st.
       then_p advance (return_p (Inl (st\<lparr>fs_chars := fs_chars st @ [byte], fs_prev := Some cp\<rparr>)))))))"

definition parse_float :: "(string \<Rightarrow> bool) \<Rightarrow> toml_float parse" where
  "parse_float to_double = here (\<lambda>cp. let negative = cp = 0x2D in
     then_p (if cp = 0x2B \<or> cp = 0x2D then advance_not_eof else return_p ())
     (bind_p (loop_p float_round \<lparr>fs_chars = [], fs_prev = None, fs_seen_decimal = False, fs_seen_exponent = False,
          fs_first_integer_part = None\<rparr>) (\<lambda>st.
       if prev_in [0x5F] (fs_prev st) then then_p not_eof (set_error ''underscores must be followed by digits'')
       else if prev_in [0x65, 0x45, 0x2B, 0x2D, 0x2E] (fs_prev st) then then_p not_eof (set_error ''expected decimal digit'')
       else if to_double (fs_chars st) then return_p (Tf_number negative (fs_chars st))
       else set_error ''could not be interpreted as a value'')))"

definition parse_hex_float :: "toml_float parse" where
  "parse_hex_float = set_error ''hexadecimal floating-point values are not supported''"

section \<open>Integers\<close>

record integer_traits =
  it_base :: nat
  it_digit :: "nat \<Rightarrow> bool"
  it_signed :: bool
  it_max_digits :: nat
  it_prefix_codepoint :: "nat option"

definition binary_traits :: integer_traits where
  "binary_traits = \<lparr>it_base = 2, it_digit = is_binary_digit, it_signed = False, it_max_digits = 63, it_prefix_codepoint = Some 0x62\<rparr>"

definition octal_traits :: integer_traits where
  "octal_traits = \<lparr>it_base = 8, it_digit = is_octal_digit, it_signed = False, it_max_digits = 21, it_prefix_codepoint = Some 0x6F\<rparr>"

definition decimal_traits :: integer_traits where
  "decimal_traits = \<lparr>it_base = 10, it_digit = is_decimal_digit, it_signed = True, it_max_digits = 19, it_prefix_codepoint = None\<rparr>"

definition hexadecimal_traits :: integer_traits where
  "hexadecimal_traits = \<lparr>it_base = 16, it_digit = is_hexadecimal_digit, it_signed = False, it_max_digits = 16, it_prefix_codepoint = Some 0x78\<rparr>"

definition digit_value :: "integer_traits \<Rightarrow> char \<Rightarrow> nat" where
  "digit_value tr ch = (if it_base tr = 16 then hex_to_dec (byte_of ch) else byte_of ch - 0x30)"

definition integer_head :: "integer_traits \<Rightarrow> bool parse" where
  "integer_head tr = here (\<lambda>cp.
     let negative = it_signed tr \<and> cp = 0x2D in
     then_p (if it_signed tr \<and> (cp = 0x2B \<or> cp = 0x2D) then advance_not_eof else return_p ())
     (case it_prefix_codepoint tr of
        None \<Rightarrow> here (\<lambda>cp. if \<not> it_digit tr cp then set_error ''expected expected digit or sign'' else return_p negative)
      | Some prefix_codepoint \<Rightarrow> here (\<lambda>cp. if cp \<noteq> 0x30 then set_error ''expected 0'' else
          then_p advance_not_eof (here (\<lambda>cp. if cp \<noteq> prefix_codepoint then set_error ''expected prefix'' else
            then_p advance_not_eof (here (\<lambda>cp. if \<not> it_digit tr cp then set_error ''expected digit'' else return_p negative)))))))"

definition integer_round :: "integer_traits \<Rightarrow> string \<times> nat option \<Rightarrow> ((string \<times> nat option) + (string \<times> nat option)) parse" where
  "integer_round tr st = bind_p no_terminator (\<lambda>b. if \<not> b then return_p (Inr st) else here (\<lambda>cp.
     let (digits, prev) = st in
     if cp = 0x5F then
       if \<not> prev_is (it_digit tr) prev then set_error ''underscores may only follow digits''
       else then_p advance_not_eof (return_p (Inl (digits, Some cp)))
     else if prev_in [0x5F] prev \<and> \<not> it_digit tr cp then set_error ''underscores must be followed by digits''
     else if \<not> it_digit tr cp then set_error ''expected digit''
     else if length digits = 128 then set_error ''exceeds length limit''
     else bind_p (gets_p first_byte) (\<lambda>byte. then_p advance (return_p (Inl (digits @ [byte], Some cp))))))"

text \<open>The sum from the last digit on, of 64 bits.\<close>

fun integer_sum :: "integer_traits \<Rightarrow> char list \<Rightarrow> 64 word \<Rightarrow> 64 word \<Rightarrow> 64 word" where
  "integer_sum tr [] place result = result"
| "integer_sum tr (ch # chs) place result =
     integer_sum tr chs (place * of_nat (it_base tr)) (result + place * of_nat (digit_value tr ch))"

definition i64_max :: "64 word" where
  "i64_max = 0x7FFFFFFFFFFFFFFF"

definition in_range :: "bool \<Rightarrow> 64 word \<Rightarrow> fault + int" where
  "in_range negative result =
     (if i64_max + (if negative then 1 else 0) < result then Inl (Toml_exception ''not representable in 64 bits'')
      else if negative \<and> result = i64_max + 1 then Inr (- (2 ^ 63))
      else Inr (sint result * (if negative then -1 else 1)))"

definition integer_value :: "integer_traits \<Rightarrow> bool \<Rightarrow> string \<Rightarrow> fault + int" where
  "integer_value tr negative digits =
     (if length digits = 1 then Inr (int (digit_value tr (hd digits)) * (if negative then -1 else 1))
      else let sig = (if it_base tr \<noteq> 10 then dropWhile (\<lambda>ch. ch = CHR ''0'') digits else digits) in
        if sig = [] then Inr 0
        else if it_base tr = 10 \<and> hd digits = CHR ''0'' then Inl (Toml_exception ''leading zeroes are prohibited'')
        else if it_max_digits tr < length sig then Inl (Toml_exception ''not representable in 64 bits'')
        else in_range negative (integer_sum tr (rev sig) 1 0))"

definition parse_integer :: "integer_traits \<Rightarrow> int parse" where
  "parse_integer tr = bind_p (integer_head tr) (\<lambda>negative.
     bind_p (loop_p (integer_round tr) ([], None)) (\<lambda>(digits, prev).
       if prev_in [0x5F] prev then then_p not_eof (set_error ''underscores must be followed by digits'')
       else lift_p (integer_value tr negative digits)))"

end
