(* ===== verification/Toml_Parser.thy ===== *)
theory Toml_Parser
  imports Toml_Scalar
begin

text \<open>
  \<^verbatim>\<open>util/toml.hpp\<close>, class \<^verbatim>\<open>parser\<close>: dates and times, values of unknown type, arrays, inline tables and the
  document, and the functions \<^verbatim>\<open>parse\<close> and \<^verbatim>\<open>parse_file\<close> around it. An array or inline table gets \<^verbatim>\<open>parse_value\<close> as an
  argument, one level of \<^verbatim>\<open>nested_values\<close> down.
\<close>

section \<open>Dates and times\<close>

definition expect :: "nat \<Rightarrow> string \<Rightarrow> unit parse" where
  "expect cp reason = then_p not_eof (here (\<lambda>c. if c \<noteq> cp then set_error reason else advance_not_eof))"

text \<open>Two digits, or an error.\<close>

definition two_digits :: "string \<Rightarrow> nat parse" where
  "two_digits reason = bind_p (consume_digit_sequence 2) (\<lambda>ds. case ds of
     Some digits \<Rightarrow> return_p (digits ! 1 + digits ! 0 * 10) | None \<Rightarrow> set_error reason)"

definition max_days_in_month :: "nat \<Rightarrow> nat \<Rightarrow> nat" where
  "max_days_in_month year month =
     (let is_leap_year = year mod 4 = 0 \<and> (year mod 100 \<noteq> 0 \<or> year mod 400 = 0) in
      if month = 2 then (if is_leap_year then 29 else 28)
      else if month = 4 \<or> month = 6 \<or> month = 9 \<or> month = 11 then 30 else 31)"

definition parse_date :: "bool \<Rightarrow> toml_date parse" where
  "parse_date part_of_datetime = bind_p (consume_digit_sequence 4) (\<lambda>ds. case ds of
     None \<Rightarrow> set_error ''expected 4-digit year''
   | Some digits \<Rightarrow> let year = digits ! 3 + digits ! 2 * 10 + digits ! 1 * 100 + digits ! 0 * 1000 in
     then_p (expect 0x2D ''expected -'') (bind_p (two_digits ''expected 2-digit month'') (\<lambda>month.
     if month = 0 \<or> 12 < month then set_error ''expected month between 1 and 12'' else
     then_p (expect 0x2D ''expected -'') (bind_p (two_digits ''expected 2-digit day'') (\<lambda>day.
     if day = 0 \<or> max_days_in_month year month < day then set_error ''expected day of the month'' else
     then_p (if \<not> part_of_datetime then expect_terminator else return_p ())
     (return_p \<lparr>td_year = year, td_month = month, td_day = day\<rparr>))))))"

text \<open>Whether a time may end here, its seconds or fraction read.\<close>

definition time_ends :: "bool \<Rightarrow> bool parse" where
  "time_ends part_of_datetime = with_cp (return_p True) (\<lambda>cp. if_p (is_value_terminator cp) (return_p True)
     (return_p (part_of_datetime \<and> (cp = 0x2B \<or> cp = 0x2D \<or> cp = 0x5A \<or> cp = 0x7A))))"

definition fractional_value :: "nat list \<Rightarrow> nat" where
  "fractional_value digits = foldl (\<lambda>value d. value * 10 + d) 0 (take 9 digits) * 10 ^ (9 - length digits)"

definition fractional_part :: "bool \<Rightarrow> nat parse" where
  "fractional_part part_of_datetime = bind_p (consume_variable_length_digit_sequence 64) (\<lambda>digits.
     if digits = [] then then_p not_eof (set_error ''expected fractional digits'')
     else then_p (with_cp (return_p ()) (\<lambda>cp.
       if length digits = 64 \<and> is_decimal_digit cp then set_error ''fractional component exceeds maximum precision''
       else if \<not> part_of_datetime then expect_terminator else return_p ()))
     (return_p (fractional_value digits)))"

definition parse_time :: "bool \<Rightarrow> toml_time parse" where
  "parse_time part_of_datetime = bind_p (two_digits ''expected 2-digit hour'') (\<lambda>hour.
     if 23 < hour then set_error ''expected hour between 0 and 59'' else
     then_p (expect 0x3A ''expected colon'') (bind_p (two_digits ''expected 2-digit minute'') (\<lambda>minute.
     if 59 < minute then set_error ''expected minute between 0 and 59'' else
     then_p (expect 0x3A ''expected colon'') (bind_p (two_digits ''expected 2-digit second'') (\<lambda>second.
     if 59 < second then set_error ''expected second between 0 and 59'' else
     bind_p (time_ends part_of_datetime) (\<lambda>ends.
       if ends then return_p \<lparr>tt_hour = hour, tt_minute = minute, tt_second = second, tt_nanosecond = 0\<rparr>
       else then_p (expect 0x2E ''expected .'') (bind_p (fractional_part part_of_datetime) (\<lambda>value.
         return_p \<lparr>tt_hour = hour, tt_minute = minute, tt_second = second, tt_nanosecond = value\<rparr>))))))))"

definition time_offset :: "int parse" where
  "time_offset = here (\<lambda>cp. let sign = (if cp = 0x2D then -1 else 1 :: int) in
     then_p advance_not_eof (bind_p (two_digits ''expected 2-digit hour'') (\<lambda>hour.
     if 23 < hour then set_error ''expected hour between 0 and 23'' else
     then_p (expect 0x3A ''expected colon'') (bind_p (two_digits ''expected 2-digit minute'') (\<lambda>minute.
     if 59 < minute then set_error ''expected minute between 0 and 59'' else
     return_p ((int hour * 60 + int minute) * sign))))))"

definition parse_date_time :: "toml_node parse" where
  "parse_date_time = bind_p (parse_date True) (\<lambda>date.
     then_p not_eof (here (\<lambda>cp.
       if cp \<noteq> 0x20 \<and> cp \<noteq> 0x54 \<and> cp \<noteq> 0x74 then set_error ''expected space or T'' else
       then_p advance_not_eof (bind_p (parse_time True) (\<lambda>time.
       bind_p no_terminator (\<lambda>b. if \<not> b then return_p (Tn_date_time date time None) else here (\<lambda>cp.
         bind_p (if cp = 0x5A \<or> cp = 0x7A then then_p advance (return_p 0)
             else if cp = 0x2B \<or> cp = 0x2D then time_offset else return_p 0) (\<lambda>offset.
           then_p expect_terminator (return_p (Tn_date_time date time (Some offset)))))))))))"

section \<open>Looking ahead\<close>

datatype value_trait =
    Has_digits | Has_b | Has_e | Has_o | Has_p | Has_t | Has_x | Has_z | Has_colon | Has_plus | Has_minus | Has_dot
  | Begins_sign | Begins_digit | Begins_zero

record scan_state =
  sc_traits :: "value_trait set"
  sc_chars :: "nat list"
  sc_advance_count :: nat
  sc_eof :: bool

definition add_trait :: "value_trait \<Rightarrow> scan_state \<Rightarrow> scan_state" where
  "add_trait t sc = sc\<lparr>sc_traits := insert t (sc_traits sc)\<rparr>"

definition has_any :: "value_trait set \<Rightarrow> scan_state \<Rightarrow> bool" where
  "has_any ts sc \<longleftrightarrow> ts \<inter> sc_traits sc \<noteq> {}"

text \<open>
  The trait a code point adds to the scan that ends in it, and \<open>scan_char\<close>, a round for a code point other than an
  underscore.
\<close>

definition trait_of :: "nat \<Rightarrow> scan_state \<Rightarrow> value_trait option" where
  "trait_of c sc =
     (let char_count = length (sc_chars sc); trait_if = (\<lambda>b t. if b then Some t else None) in
      if is_decimal_digit c then Some Has_digits
      else if is_ascii_letter c then
        if c = 0x62 \<or> c = 0x42 then trait_if (char_count = 2 \<and> has_any {Begins_zero} sc) Has_b
        else if c = 0x65 \<or> c = 0x45 then
          trait_if (1 < char_count \<and> \<not> has_any {Has_b, Has_o, Has_p, Has_t, Has_x, Has_z, Has_colon} sc
            \<and> (\<not> has_any {Has_plus, Has_minus} sc \<or> has_any {Begins_sign} sc)) Has_e
        else if c = 0x6F \<or> c = 0x4F then trait_if (char_count = 2 \<and> has_any {Begins_zero} sc) Has_o
        else if c = 0x70 \<or> c = 0x50 then trait_if (has_any {Has_x} sc) Has_p
        else if c = 0x78 \<or> c = 0x58 then
          trait_if (char_count = 2 \<and> has_any {Begins_zero} sc
            \<or> char_count = 3 \<and> has_any {Begins_sign} sc \<and> sc_chars sc ! 1 = 0x30) Has_x
        else if c = 0x74 \<or> c = 0x54 then Some Has_t
        else if c = 0x7A \<or> c = 0x5A then Some Has_z
        else None
      else if c = 0x2B then Some Has_plus
      else if c = 0x2D then Some Has_minus
      else if c = 0x2E then Some Has_dot
      else if c = 0x3A then Some Has_colon
      else None)"

definition scan_char :: "nat \<Rightarrow> scan_state \<Rightarrow> scan_state" where
  "scan_char c sc =
     (let sc = sc\<lparr>sc_chars := sc_chars sc @ [c]\<rparr> in
      case trait_of c sc of None \<Rightarrow> sc | Some t \<Rightarrow> add_trait t sc)"

definition scan_round :: "scan_state \<Rightarrow> (scan_state + scan_state) parse" where
  "scan_round sc = here (\<lambda>c. let sc = (if c \<noteq> 0x5F then scan_char c sc else sc) in
     then_p advance (bind_p at_eof (\<lambda>eof.
       let sc = sc\<lparr>sc_advance_count := sc_advance_count sc + 1, sc_eof := eof\<rparr> in
       if sc_advance_count sc < history_buffer_size then bind_p no_terminator (\<lambda>b. return_p (if b then Inl sc else Inr sc))
       else return_p (Inr sc))))"

definition scan_traits :: "scan_state \<Rightarrow> scan_state parse" where
  "scan_traits sc = with_cp (return_p sc) (\<lambda>cp. if_p (is_value_terminator cp) assumption_broken (loop_p scan_round sc))"

definition bdigit_msk :: "value_trait set" where
  "bdigit_msk = {Has_digits, Begins_digit}"

definition bzero_msk :: "value_trait set" where
  "bzero_msk = insert Begins_zero bdigit_msk"

text \<open>
  A date may be followed by a space and a time. Beside the scan, how far the reader is behind when it has gone
  back to the space.
\<close>

definition scan_past_space :: "scan_state \<Rightarrow> (scan_state \<times> nat) parse" where
  "scan_past_space sc =
     (if length (sc_chars sc) = 10 \<and> insert Begins_zero (sc_traits sc) = insert Has_minus bzero_msk
         \<and> sc_chars sc ! 4 = 0x2D \<and> sc_chars sc ! 7 = 0x2D then
        with_cp (return_p (sc, 0)) (\<lambda>cp. if cp \<noteq> 0x20 then return_p (sc, 0) else
          bind_p (gets_p (\<lambda>c. c)) (\<lambda>at_space.
          let backpedal = (\<lambda>eof. bind_p (gets_p (\<lambda>now. length (cur_rest at_space) - length (cur_rest now))) (\<lambda>count.
                then_p (go_back_to 0 at_space) (return_p (sc\<lparr>sc_eof := eof\<rparr>, count)))) in
          then_p advance (with_cp (backpedal (sc_eof sc)) (\<lambda>cp.
            if \<not> is_decimal_digit cp then backpedal (sc_eof sc) else
            then_p advance (bind_p (scan_traits (add_trait Has_t
                (sc\<lparr>sc_chars := sc_chars sc @ [0x20, cp], sc_advance_count := sc_advance_count sc + 2\<rparr>))) (\<lambda>sc'.
              if length (sc_chars sc') = 12 then backpedal (sc_eof sc') else return_p (sc', 0)))))))
      else return_p (sc, 0))"

text \<open>The first character of a value whose type it does not tell; None when it can begin no value.\<close>

definition begin_traits :: "nat \<Rightarrow> value_trait set option" where
  "begin_traits cp =
     (if is_decimal_digit cp then Some (if cp = 0x30 then {Begins_digit, Begins_zero} else {Begins_digit})
      else if cp = 0x2B \<or> cp = 0x2D then Some {Begins_sign} else None)"

definition scan_value :: "value_trait set \<Rightarrow> scan_state parse" where
  "scan_value ts = bind_p (gets_p (\<lambda>c. c)) (\<lambda>start.
     bind_p (scan_traits \<lparr>sc_traits = ts, sc_chars = [], sc_advance_count = 0, sc_eof = False\<rparr>) (\<lambda>sc.
     bind_p (scan_past_space sc) (\<lambda>(sc, negative_offset).
     then_p (go_back_to negative_offset start) (return_p sc))))"

section \<open>The type of a value\<close>

definition signs_msk :: "value_trait set" where
  "signs_msk = {Has_plus, Has_minus}"

definition integer_masks :: "value_trait set list" where
  "integer_masks = [bzero_msk, bdigit_msk, {Begins_sign, Has_digits, Has_minus}, {Begins_sign, Has_digits, Has_plus}]"

definition float_masks :: "value_trait set list" where
  "float_masks =
     concat (map (\<lambda>m. map ((\<union>) m) [{Has_e}, {Has_e, Has_minus}, {Has_e, Has_plus}, {Has_dot}, {Has_dot, Has_e},
       {Has_dot, Has_e, Has_minus}, {Has_dot, Has_e, Has_plus}]) [bzero_msk, bdigit_msk])
     @ map ((\<union>) {Begins_sign, Has_digits}) [{Has_e, Has_plus}, {Has_dot, Has_plus}, {Has_dot, Has_e, Has_plus},
       {Has_dot, Has_e} \<union> signs_msk, {Has_e, Has_minus}, {Has_e} \<union> signs_msk, {Has_dot, Has_minus}, {Has_dot, Has_e, Has_minus}]"

definition hex_float_masks :: "value_trait set list" where
  "hex_float_masks =
     map ((\<union>) bzero_msk) [{Has_x, Has_p}, {Has_x, Has_p, Has_minus}, {Has_x, Has_p, Has_plus},
       {Has_x, Has_dot, Has_p}, {Has_x, Has_dot, Has_p, Has_minus}, {Has_x, Has_dot, Has_p, Has_plus}]
     @ map ((\<union>) {Begins_sign, Has_digits, Has_x, Has_p}) [{Has_minus}, {Has_plus}, signs_msk,
       {Has_dot, Has_minus}, {Has_dot, Has_plus}, insert Has_dot signs_msk]"

definition time_masks :: "value_trait set list" where
  "time_masks = [insert Has_colon bzero_msk, bzero_msk \<union> {Has_colon, Has_dot}, insert Has_colon bdigit_msk, bdigit_msk \<union> {Has_colon, Has_dot}]"

definition date_masks :: "value_trait set list" where
  "date_masks = [insert Has_minus bzero_msk, insert Has_minus bdigit_msk]"

definition date_time_masks :: "value_trait set list" where
  "date_time_masks = concat (map (\<lambda>m. map ((\<union>) (insert Has_colon m))
     [{Has_minus, Has_t}, insert Has_t signs_msk, {Has_minus, Has_dot, Has_t}, {Has_dot, Has_t} \<union> signs_msk,
      {Has_minus, Has_z, Has_t}, {Has_minus, Has_dot, Has_z, Has_t}]) [bzero_msk, bdigit_msk])"

definition node_of :: "('a \<Rightarrow> toml_node) \<Rightarrow> 'a parse \<Rightarrow> toml_node option parse" where
  "node_of f m = bind_p m (\<lambda>x. return_p (Some (f x)))"

text \<open>The switch over the traits.\<close>

definition match_traits :: "(string \<Rightarrow> bool) \<Rightarrow> scan_state \<Rightarrow> toml_node option parse" where
  "match_traits to_double sc =
     (let tr = sc_traits sc in
      if tr = insert Has_b bzero_msk then node_of Tn_integer (parse_integer binary_traits)
      else if tr = insert Has_o bzero_msk then node_of Tn_integer (parse_integer octal_traits)
      else if tr \<in> set integer_masks then
        if \<not> sc_eof sc \<and> history_buffer_size - 1 < sc_advance_count sc then set_error ''numeric value too long to identify type''
        else node_of Tn_integer (parse_integer decimal_traits)
      else if tr = insert Has_x bzero_msk then node_of Tn_integer (parse_integer hexadecimal_traits)
      else if tr \<in> set float_masks then node_of Tn_float (parse_float to_double)
      else if tr \<in> set hex_float_masks then node_of Tn_float parse_hex_float
      else if tr \<in> set time_masks then node_of Tn_time (parse_time False)
      else if tr \<in> set date_masks then node_of Tn_date (parse_date False)
      else if tr \<in> set date_time_masks then node_of (\<lambda>v. v) parse_date_time
      else return_p None)"

definition parse_scanned :: "(string \<Rightarrow> bool) \<Rightarrow> scan_state \<Rightarrow> toml_node option parse" where
  "parse_scanned to_double sc =
     (let chars = sc_chars sc in
      if length chars = 1 then
        if has_any {Begins_digit} sc then then_p advance (return_p (Some (Tn_integer (int (chars ! 0) - 0x30))))
        else set_error (if sc_eof sc then ''encountered end-of-file'' else ''could not determine value type'')
      else if length chars = 0 then assumption_broken
      else if has_any {Has_p} sc then node_of Tn_float parse_hex_float
      else if has_any {Has_x, Has_o, Has_b} sc then
        node_of Tn_integer (parse_integer (if has_any {Has_x} sc then hexadecimal_traits
          else if has_any {Has_o} sc then octal_traits else binary_traits))
      else if has_any {Has_e} sc \<or> has_any {Begins_digit} sc \<and> chars ! 1 = 0x2E then node_of Tn_float (parse_float to_double)
      else if has_any {Begins_sign} sc \<and> length chars = 2 \<and> has_any {Has_digits} sc then
        then_p advance (then_p advance (return_p (Some (Tn_integer
          ((int (chars ! 1) - 0x30) * (if chars ! 0 = 0x2D then -1 else 1))))))
      else if has_any {Begins_sign} sc \<and> is_decimal_digit (chars ! 1) \<and> chars ! 2 = 0x2E then node_of Tn_float (parse_float to_double)
      else if has_any {Begins_sign} sc \<and> chars ! 1 \<in> {0x69, 0x6E, 0x49, 0x4E} then node_of Tn_float parse_inf_or_nan
      else match_traits to_double sc)"

section \<open>Keys\<close>

definition key_segment :: "string parse" where
  "key_segment = here (\<lambda>cp.
     if is_bare_key_character cp then parse_bare_key_segment
     else if is_string_delimiter cp then bind_p parse_string (\<lambda>(s, was_multi_line).
       if was_multi_line then set_error ''multi-line strings are prohibited in keys'' else return_p s)
     else set_error ''expected bare key starting character or string delimiter'')"

definition parse_key :: "string list parse" where
  "parse_key = loop_p (\<lambda>key_buffer.
     bind_p (key_segment) (\<lambda>segment. let key_buffer = key_buffer @ [segment] in
     then_p consume_leading_whitespace (with_cp (return_p (Inr key_buffer)) (\<lambda>cp.
       if cp \<noteq> 0x2E then return_p (Inr key_buffer)
       else then_p advance_not_eof (then_p consume_leading_whitespace (then_p not_eof (return_p (Inl key_buffer)))))))) []"

section \<open>Values\<close>

definition parse_key_value_pair_and_insert :: "toml_node parse \<Rightarrow> toml_entries \<Rightarrow> toml_entries parse" where
  "parse_key_value_pair_and_insert value tbl = bind_p parse_key (\<lambda>key_buffer.
     then_p consume_leading_whitespace (then_p (expect 0x3D ''expected ='')
     (then_p consume_leading_whitespace (then_p not_eof (here (\<lambda>cp.
       if_p (is_value_terminator cp) (set_error ''expected value'')
        (bind_p (lift_p (key_place key_buffer tbl)) (\<lambda>insert_at.
         bind_p value (\<lambda>val. return_p (insert_at val))))))))))"

datatype parse_type = Pt_none | Pt_comma | Pt_val

definition skip_blanks :: "bool parse \<Rightarrow> unit parse" where
  "skip_blanks consume = loop_p (\<lambda>_ :: unit. bind_p consume (\<lambda>b. return_p (if b then Inl () else Inr ()))) ()"

definition array_round :: "toml_node parse \<Rightarrow> toml_node list \<times> parse_type \<Rightarrow> ((toml_node list \<times> parse_type) + toml_node list) parse" where
  "array_round value st = (case st of (arr, prev) \<Rightarrow>
     then_p (skip_blanks consume_blank) (then_p not_eof (here (\<lambda>cp.
       if cp = 0x2C then
         if prev = Pt_val then then_p advance_not_eof (return_p (Inl (arr, Pt_comma)))
         else set_error ''expected value or closing bracket, saw comma''
       else if cp = 0x5D then then_p advance (return_p (Inr arr))
       else if prev = Pt_val then set_error ''expected comma or closing bracket''
       else bind_p value (\<lambda>val. return_p (Inl (arr @ [val], Pt_val)))))))"

definition parse_array :: "toml_node parse \<Rightarrow> toml_node parse" where
  "parse_array value = then_p advance_not_eof (bind_p (loop_p (array_round value) ([], Pt_none)) (\<lambda>arr.
     return_p (Tn_array False arr)))"

definition inline_table_round :: "toml_node parse \<Rightarrow> toml_entries \<times> parse_type \<Rightarrow> ((toml_entries \<times> parse_type) + toml_entries) parse" where
  "inline_table_round value st = (case st of (tbl, prev) \<Rightarrow>
     then_p (skip_blanks consume_leading_whitespace) (then_p not_eof (here (\<lambda>cp.
       if cp = 0x2C then
         if prev = Pt_val then then_p advance_not_eof (return_p (Inl (tbl, Pt_comma)))
         else set_error ''expected key-value pair or closing brace, saw comma''
       else if cp = 0x7D then
         if prev = Pt_comma then set_error ''expected key-value pair, saw closing brace''
         else then_p advance (return_p (Inr tbl))
       else if is_string_delimiter cp \<or> is_bare_key_character cp then
         if prev = Pt_val then set_error ''expected comma or closing brace''
         else bind_p (parse_key_value_pair_and_insert value tbl) (\<lambda>tbl. return_p (Inl (tbl, Pt_val)))
       else set_error ''expected key or closing brace''))))"

definition parse_inline_table :: "toml_node parse \<Rightarrow> toml_node parse" where
  "parse_inline_table value = then_p advance_not_eof (bind_p (loop_p (inline_table_round value) ([], Pt_none)) (\<lambda>tbl.
     return_p (Tn_table Tk_inline tbl)))"

definition parse_value_known_prefixes :: "(string \<Rightarrow> bool) \<Rightarrow> toml_node parse \<Rightarrow> toml_node option parse" where
  "parse_value_known_prefixes to_double value = here (\<lambda>cp.
     if cp = 0x5B then node_of (\<lambda>v. v) (parse_array value)
     else if cp = 0x7B then node_of (\<lambda>v. v) (parse_inline_table value)
     else if cp = 0x2E then node_of Tn_float (parse_float to_double)
     else if is_string_delimiter cp then node_of (\<lambda>s. Tn_string (fst s)) parse_string
     else if cp \<in> {0x46, 0x66, 0x54, 0x74} then node_of Tn_boolean parse_boolean
     else if cp \<in> {0x49, 0x69, 0x4E, 0x6E} then node_of Tn_float parse_inf_or_nan
     else return_p None)"

definition parse_value_at :: "(string \<Rightarrow> bool) \<Rightarrow> toml_node parse \<Rightarrow> toml_node parse" where
  "parse_value_at to_double value = here (\<lambda>cp.
     if is_control_character cp then set_error ''unexpected control character''
     else if cp = 0x5F then set_error ''values may not begin with underscores''
     else bind_p (parse_value_known_prefixes to_double value) (\<lambda>v. case v of
         Some val \<Rightarrow> return_p val
       | None \<Rightarrow> bind_p (case begin_traits cp of None \<Rightarrow> return_p None
             | Some ts \<Rightarrow> bind_p (scan_value ts) (parse_scanned to_double)) (\<lambda>v.
           case v of Some val \<Rightarrow> return_p val | None \<Rightarrow> set_error ''could not determine value type'')))"

primrec parse_value :: "nat \<Rightarrow> (string \<Rightarrow> bool) \<Rightarrow> toml_node parse" where
  "parse_value 0 to_double = here (\<lambda>cp. if_p (is_value_terminator cp) assumption_broken
     (set_error ''exceeded maximum nested value depth''))"
| "parse_value (Suc levels) to_double = here (\<lambda>cp. if_p (is_value_terminator cp) assumption_broken
     (parse_value_at to_double (parse_value levels to_double)))"

definition max_nested_values :: nat where
  "max_nested_values = 256"

section \<open>The document\<close>

text \<open>The part of \<^verbatim>\<open>parse_table_header\<close> that reads: whether the header is in double brackets, and its key.\<close>

definition rest_of_line :: "unit parse" where
  "rest_of_line = then_p consume_leading_whitespace (with_cp (return_p ()) (\<lambda>_.
     bind_p consume_comment (\<lambda>b. if b then return_p () else bind_p consume_line_break (\<lambda>b.
       if b then return_p () else set_error ''expected a comment or whitespace''))))"

definition read_table_header :: "(bool \<times> string list) parse" where
  "read_table_header = then_p advance_not_eof (bind_p consume_leading_whitespace (\<lambda>had_leading_whitespace.
     then_p not_eof (here (\<lambda>cp.
     bind_p (if cp = 0x5B then
         if had_leading_whitespace then set_error ''brackets must be contiguous''
         else then_p advance_not_eof (then_p consume_leading_whitespace (then_p not_eof (return_p True)))
       else return_p False) (\<lambda>is_arr.
     here (\<lambda>cp. if cp = 0x5D then set_error ''tables with blank bare keys are prohibited'' else
     bind_p parse_key (\<lambda>key_buffer.
     then_p consume_leading_whitespace (then_p not_eof (here (\<lambda>cp.
     if cp \<noteq> 0x5D then set_error ''expected closing bracket'' else
     then_p (if is_arr then then_p advance_not_eof (here (\<lambda>cp.
         if cp \<noteq> 0x5D then set_error ''expected closing bracket'' else return_p ())) else return_p ())
     (then_p advance (then_p rest_of_line (return_p (is_arr, key_buffer))))))))))))))"

definition parse_table_header :: "toml_entries \<Rightarrow> (toml_entries \<times> string list) parse" where
  "parse_table_header root = bind_p read_table_header (\<lambda>(is_arr, key_buffer).
     bind_p (lift_p (open_table is_arr key_buffer root)) (\<lambda>root. return_p (root, key_buffer)))"

text \<open>The state is the root and the key of the header whose table is the current one.\<close>

definition document_round :: "(string \<Rightarrow> bool) \<Rightarrow> toml_entries \<times> string list \<Rightarrow> (toml_entries \<times> string list) parse" where
  "document_round to_double st = bind_p consume_blank (\<lambda>b. if b then return_p st else (case st of (root, path) \<Rightarrow>
     here (\<lambda>cp.
       if cp = 0x5B then parse_table_header root
       else if is_bare_key_character cp \<or> is_string_delimiter cp then
         bind_p (case current_table path root of None \<Rightarrow> throw_p (Undefined_behaviour ''current_table'')
             | Some tbl \<Rightarrow> parse_key_value_pair_and_insert (parse_value max_nested_values to_double) tbl) (\<lambda>tbl.
           then_p rest_of_line (return_p (update_table path tbl root, path)))
       else set_error ''expected keys, tables, whitespace or comments'')))"

definition parse_document :: "(string \<Rightarrow> bool) \<Rightarrow> toml_entries parse" where
  "parse_document to_double = loop_p (\<lambda>st. with_cp (return_p (Inr (fst st))) (\<lambda>_.
     bind_p (document_round to_double st) (\<lambda>st. return_p (Inl st)))) ([], [])"

text \<open>The constructor of the parser reads the first code point; nothing is parsed of an empty text.\<close>

definition first_cursor :: "utf8_reader \<Rightarrow> fault + cursor" where
  "first_cursor rd = (case rd_all rd of
      ([], Some e) \<Rightarrow> Inl e
    | (cps, e) \<Rightarrow> Inr \<lparr>cur_rest = cps, cur_end = e\<rparr>)"

definition toml_parse :: "(string \<Rightarrow> bool) \<Rightarrow> string \<Rightarrow> fault + toml_entries" where
  "toml_parse to_double doc = (let rd = utf8_reader_new doc in
     if rd_peek_eof rd then Inr []
     else case first_cursor rd of Inl e \<Rightarrow> Inl e | Inr c \<Rightarrow> fst (parse_document to_double c))"

definition large_file_threshold :: nat where
  "large_file_threshold = 1024 * 1024 * 2"

text \<open>
  \<open>file\<close> is the content of the file of a name, if it can be opened; \<open>parse_stream\<close> is what parsing from a stream gives,
  which a file of more than two megabytes is.
\<close>

definition toml_parse_file ::
    "(string \<Rightarrow> bool) \<Rightarrow> (string \<Rightarrow> fault + toml_entries) \<Rightarrow> (string \<Rightarrow> string option) \<Rightarrow> string \<Rightarrow> fault + toml_entries" where
  "toml_parse_file to_double parse_stream file file_path = (case file file_path of
      None \<Rightarrow> Inl (Toml_exception ''File could not be opened for reading'')
    | Some file_data \<Rightarrow>
        if length file_data \<le> large_file_threshold then toml_parse to_double file_data else parse_stream file_data)"

end
