(* ===== verification/Toml_Document.thy ===== *)
theory Toml_Document
  imports Toml_Value
begin

text \<open>
  What the nodes of a TOML document always satisfy, and what placing a table or a value keeps: the keys of every
  table are in order, numbers and dates are in range, nothing is added to an inline table or a plain array once it
  is read, and what is in the document stays.
\<close>

section \<open>Well-formed nodes\<close>

definition integer_ok :: "int \<Rightarrow> bool" where
  "integer_ok i \<longleftrightarrow> - (2 ^ 63) \<le> i \<and> i < 2 ^ 63"

definition date_ok :: "toml_date \<Rightarrow> bool" where
  "date_ok d \<longleftrightarrow> td_year d \<le> 9999 \<and> 1 \<le> td_month d \<and> td_month d \<le> 12 \<and> 1 \<le> td_day d
     \<and> td_day d \<le> (if td_month d = 2 then (if td_year d mod 4 = 0 \<and> (td_year d mod 100 \<noteq> 0 \<or> td_year d mod 400 = 0) then 29 else 28)
         else if td_month d \<in> {4, 6, 9, 11} then 30 else 31)"

definition time_ok :: "toml_time \<Rightarrow> bool" where
  "time_ok t \<longleftrightarrow> tt_hour t \<le> 23 \<and> tt_minute t \<le> 59 \<and> tt_second t \<le> 59 \<and> tt_nanosecond t < 10 ^ 9"

text \<open>What stands inside an inline table or a plain array.\<close>

fun closed_node :: "toml_node \<Rightarrow> bool" where
  "closed_node (Tn_table kind es) = ((kind = Tk_inline \<or> kind = Tk_dotted) \<and> list_all (\<lambda>kv. closed_node (snd kv)) es)"
| "closed_node (Tn_array b elems) = (\<not> b \<and> list_all closed_node elems)"
| "closed_node _ = True"

fun is_header_table :: "toml_node \<Rightarrow> bool" where
  "is_header_table (Tn_table kind _) = (kind = Tk_header)"
| "is_header_table _ = False"

text \<open>\<open>to_double\<close> tells which texts the standard library reads as floating-point numbers.\<close>

fun node_ok :: "(string \<Rightarrow> bool) \<Rightarrow> toml_node \<Rightarrow> bool" where
  "node_ok to_double (Tn_table kind es) =
     (map_ok es \<and> list_all (\<lambda>kv. node_ok to_double (snd kv)) es
      \<and> (kind = Tk_implicit \<or> kind = Tk_dotted \<longrightarrow> es \<noteq> [])
      \<and> (kind = Tk_inline \<longrightarrow> list_all (\<lambda>kv. closed_node (snd kv)) es))"
| "node_ok to_double (Tn_array b elems) =
     (list_all (node_ok to_double) elems
      \<and> (if b then elems \<noteq> [] \<and> list_all is_header_table elems else list_all closed_node elems))"
| "node_ok to_double (Tn_integer i) = integer_ok i"
| "node_ok to_double (Tn_float (Tf_number _ s)) = to_double s"
| "node_ok to_double (Tn_date d) = date_ok d"
| "node_ok to_double (Tn_time t) = time_ok t"
| "node_ok to_double (Tn_date_time d t offset) = (date_ok d \<and> time_ok t
     \<and> (case offset of None \<Rightarrow> True | Some minutes \<Rightarrow> \<bar>minutes\<bar> < 24 * 60))"
| "node_ok to_double _ = True"

definition entries_ok :: "(string \<Rightarrow> bool) \<Rightarrow> toml_entries \<Rightarrow> bool" where
  "entries_ok to_double t \<longleftrightarrow> map_ok t \<and> list_all (\<lambda>kv. node_ok to_double (snd kv)) t"

lemma entries_ok_Nil [simp]: "entries_ok d []"
  by (simp add: entries_ok_def)

lemma node_ok_table [simp]:
  "node_ok d (Tn_table kind es) \<longleftrightarrow> entries_ok d es \<and> (kind = Tk_implicit \<or> kind = Tk_dotted \<longrightarrow> es \<noteq> [])
     \<and> (kind = Tk_inline \<longrightarrow> list_all (\<lambda>kv. closed_node (snd kv)) es)"
  by (auto simp: entries_ok_def)

declare node_ok.simps(1) [simp del]

lemma entries_put:
  "list_all (\<lambda>kv. Q (snd kv)) t \<Longrightarrow> Q v \<Longrightarrow> list_all (\<lambda>kv. Q (snd kv)) (map_put k v t)"
  using set_map_put [of k v t] by (auto simp: list_all_iff)

lemma entries_ok_put [intro]: "entries_ok d t \<Longrightarrow> node_ok d v \<Longrightarrow> entries_ok d (map_put k v t)"
  by (simp add: entries_ok_def entries_put map_ok_put)

lemma entries_ok_get: "entries_ok d t \<Longrightarrow> map_of t k = Some v \<Longrightarrow> node_ok d v"
  by (fastforce simp: entries_ok_def list_all_iff dest: map_of_SomeD)

lemma closed_get: "list_all (\<lambda>kv. closed_node (snd kv)) t \<Longrightarrow> map_of t k = Some v \<Longrightarrow> closed_node v"
  by (fastforce simp: list_all_iff dest: map_of_SomeD)

text \<open>The last table of an array of tables.\<close>

lemma array_of_tables_last:
  assumes "node_ok d (Tn_array True elems)"
  obtains es where "elems \<noteq> []" "last elems = Tn_table Tk_header es" "entries_ok d es"
proof -
  from assms have "elems \<noteq> []" "is_header_table (last elems)" "node_ok d (last elems)"
    by (auto simp: list_all_iff)
  with that show ?thesis by (cases "last elems" rule: is_header_table.cases) (auto simp: entries_ok_def)
qed

lemma array_of_tables_put:
  assumes "node_ok d (Tn_array True elems)" and "entries_ok d es"
  shows "node_ok d (Tn_array True (butlast elems @ [Tn_table Tk_header es]))"
  using assms by (auto simp: list_all_iff entries_ok_def dest: in_set_butlastD)

lemma list_all_butlast: "list_all Q xs \<Longrightarrow> list_all Q (butlast xs)"
  by (auto simp: list_all_iff dest: in_set_butlastD)

lemma list_case_ne [simp]: "xs \<noteq> [] \<Longrightarrow> (case xs of [] \<Rightarrow> a | y # ys \<Rightarrow> b) = b"
  by (cases xs) auto

section \<open>Headers\<close>

lemma open_table_ne_Nil: "open_table is_arr key t = Inr t' \<Longrightarrow> t' \<noteq> []"
  by (cases "(is_arr, key, t)" rule: open_table.cases)
    (auto split: option.splits toml_node.splits table_kind.splits bool.splits if_splits sum.splits list.splits)

lemma open_table_ok:
  assumes "entries_ok d t" and "key \<noteq> []"
  shows "case open_table is_arr key t of
      Inl e \<Rightarrow> (\<exists>s. e = Toml_exception s)
    | Inr t' \<Rightarrow> entries_ok d t' \<and> (\<exists>tbl. current_table key t' = Some tbl)"
  using assms
proof (induction is_arr key t rule: open_table.induct)
  case (2 is_arr last_segment t)
  show ?case
  proof (cases "map_of t last_segment")
    case None
    with 2 show ?thesis by auto
  next
    case (Some v)
    with 2 have "node_ok d v" by (auto dest: entries_ok_get)
    with Some 2 show ?thesis
      by (cases v) (auto intro!: entries_ok_put split: table_kind.splits bool.splits)
  qed
next
  case (3 is_arr segment s key t)
  let ?key = "s # key"
  show ?case
  proof (cases "map_of t segment")
    case None
    have "open_table is_arr ?key [] = Inr es' \<Longrightarrow> es' \<noteq> []" for es' by (rule open_table_ne_Nil)
    with None 3 show ?thesis
      by (cases "open_table is_arr ?key []") auto
  next
    case (Some p)
    with 3 have p: "node_ok d p" by (auto dest: entries_ok_get)
    show ?thesis
    proof (cases p)
      case (Tn_table kind es)
      with p have "entries_ok d es" by simp
      with Some Tn_table 3 show ?thesis
        by (cases "open_table is_arr ?key es") (auto intro!: entries_ok_put dest: open_table_ne_Nil)
    next
      case (Tn_array b elems)
      show ?thesis
      proof (cases b)
        case True
        with Tn_array p have "node_ok d (Tn_array True elems)" by simp
        then obtain es where "elems \<noteq> []" "last elems = Tn_table Tk_header es" "entries_ok d es"
          by (rule array_of_tables_last)
        with Some Tn_array True p 3
        have "case open_table is_arr ?key es of Inl e \<Rightarrow> (\<exists>s. e = Toml_exception s)
          | Inr t' \<Rightarrow> entries_ok d t' \<and> (\<exists>tbl. current_table ?key t' = Some tbl)"
          by (cases elems) (auto simp del: last.simps)
        with Some Tn_array True p 3(4) \<open>elems \<noteq> []\<close> \<open>last elems = _\<close> show ?thesis
          by (cases elems; cases "open_table is_arr ?key es") (auto intro!: entries_ok_put list_all_butlast simp del: last.simps butlast.simps)
      qed (use Some Tn_array in simp)
    qed (use Some in simp_all)
  qed
qed simp

text \<open>Changing the table a header has opened.\<close>

lemma current_table_ok:
  assumes "entries_ok d t" and "current_table key t = Some tbl"
  shows "entries_ok d tbl"
  using assms
proof (induction key t rule: current_table.induct)
  case (2 segment key t)
  from 2(4) obtain p where p: "map_of t segment = Some p" by (auto split: option.splits)
  with 2 have ok: "node_ok d p" by (auto dest: entries_ok_get)
  show ?case
  proof (cases p)
    case (Tn_table kind es)
    with p ok 2 show ?thesis by (auto split: if_splits)
  next
    case (Tn_array b elems)
    with p 2(4) have b by (auto split: bool.splits)
    with Tn_array ok have "node_ok d (Tn_array True elems)" by simp
    then obtain es where "elems \<noteq> []" "last elems = Tn_table Tk_header es" "entries_ok d es"
      by (rule array_of_tables_last)
    with p Tn_array \<open>b\<close> 2 show ?thesis by (cases elems) (auto simp del: last.simps)
  qed (use p 2(4) in simp_all)
qed simp

lemma update_table_ok:
  assumes "entries_ok d t" and "current_table key t = Some tbl" and "entries_ok d new" and "new \<noteq> []"
  shows "entries_ok d (update_table key new t) \<and> current_table key (update_table key new t) = Some new
    \<and> update_table key new t \<noteq> []"
  using assms
proof (induction key t rule: current_table.induct)
  case (2 segment key t)
  from 2(4) obtain p where p: "map_of t segment = Some p" by (auto split: option.splits)
  with 2 have ok: "node_ok d p" by (auto dest: entries_ok_get)
  show ?case
  proof (cases p)
    case (Tn_table kind es)
    with p ok 2 show ?thesis by (auto intro!: entries_ok_put split: if_splits)
  next
    case (Tn_array b elems)
    with p 2(4) have b by (auto split: bool.splits)
    with Tn_array ok have ok: "node_ok d (Tn_array True elems)" by simp
    then obtain es where "elems \<noteq> []" "last elems = Tn_table Tk_header es" "entries_ok d es"
      by (rule array_of_tables_last)
    with p Tn_array \<open>b\<close> ok 2 show ?thesis
      by (cases elems) (auto intro!: entries_ok_put list_all_butlast simp del: last.simps butlast.simps)
  qed (use p 2(4) in simp_all)
qed simp

section \<open>Key-value pairs\<close>

lemma key_place_ok:
  assumes "entries_ok d t" and "key \<noteq> []"
  shows "case key_place key t of
      Inl e \<Rightarrow> (\<exists>s. e = Toml_exception s)
    | Inr put \<Rightarrow> (\<forall>val. put val \<noteq> [] \<and> (node_ok d val \<longrightarrow> entries_ok d (put val))
        \<and> (closed_node val \<longrightarrow> list_all (\<lambda>kv. closed_node (snd kv)) t \<longrightarrow> list_all (\<lambda>kv. closed_node (snd kv)) (put val)))"
  using assms
proof (induction key t rule: key_place.induct)
  case (2 last_segment t)
  then show ?case by (auto intro: entries_put split: option.splits)
next
  case (3 segment s key t)
  let ?key = "s # key"
  show ?case
  proof (cases "map_of t segment")
    case None
    with 3 show ?thesis
      by (cases "key_place ?key []") (auto intro!: entries_ok_put entries_put)
  next
    case (Some p)
    with 3 have p: "node_ok d p" by (auto dest: entries_ok_get)
    show ?thesis
    proof (cases p)
      case (Tn_table kind es)
      with p have "entries_ok d es" by simp
      with Some Tn_table 3 show ?thesis
        by (cases "key_place ?key es") (auto intro!: entries_ok_put entries_put dest: closed_get)
    qed (use Some in simp_all)
  qed
qed simp

section \<open>What is in the document stays\<close>

datatype step = Key string | Index nat

fun node_at :: "step list \<Rightarrow> toml_node \<Rightarrow> toml_node option" where
  "node_at [] v = Some v"
| "node_at (Key k # path) (Tn_table _ es) = (case map_of es k of None \<Rightarrow> None | Some v \<Rightarrow> node_at path v)"
| "node_at (Index i # path) (Tn_array _ elems) = (if i < length elems then node_at path (elems ! i) else None)"
| "node_at _ _ = None"

text \<open>A table that is not inline stays a table, an array of tables one that is not shorter; all else stays the same.\<close>

fun kept :: "toml_node \<Rightarrow> toml_node \<Rightarrow> bool" where
  "kept (Tn_table kind es) w = (if kind = Tk_inline then w = Tn_table kind es else is_table w)"
| "kept (Tn_array True elems) w = (case w of Tn_array True elems' \<Rightarrow> length elems \<le> length elems' | _ \<Rightarrow> False)"
| "kept v w = (w = v)"

definition keeps_nodes :: "toml_node \<Rightarrow> toml_node \<Rightarrow> bool" where
  "keeps_nodes v w \<longleftrightarrow> (\<forall>path x. node_at path v = Some x \<longrightarrow> (\<exists>y. node_at path w = Some y \<and> kept x y))"

lemma kept_refl [simp]: "kept v v"
  by (cases "(v, v)" rule: kept.cases) auto

lemma keeps_nodes_refl [simp]: "keeps_nodes v v"
  by (auto simp: keeps_nodes_def)

lemma keeps_nodes_table:
  assumes "kind \<noteq> Tk_inline"
    and "\<And>k v. map_of es k = Some v \<Longrightarrow> \<exists>w. map_of es' k = Some w \<and> keeps_nodes v w"
  shows "keeps_nodes (Tn_table kind es) (Tn_table kind' es')"
  unfolding keeps_nodes_def
proof (intro allI impI)
  fix path x
  assume at: "node_at path (Tn_table kind es) = Some x"
  show "\<exists>y. node_at path (Tn_table kind' es') = Some y \<and> kept x y"
  proof (cases "(path, Tn_table kind es)" rule: node_at.cases)
    case (2 k path' kd es'')
    with at assms(2) [of k] show ?thesis by (fastforce simp: keeps_nodes_def split: option.splits)
  qed (use at assms(1) in auto)
qed

lemma keeps_nodes_put_new: "kind \<noteq> Tk_inline \<Longrightarrow> map_of es k = None \<Longrightarrow> keeps_nodes (Tn_table kind es) (Tn_table kind' (map_put k v es))"
  by (rule keeps_nodes_table) (auto intro: keeps_nodes_refl)

lemma keeps_nodes_put:
  "kind \<noteq> Tk_inline \<Longrightarrow> map_of es k = Some v \<Longrightarrow> keeps_nodes v w \<Longrightarrow> keeps_nodes (Tn_table kind es) (Tn_table kind' (map_put k w es))"
  by (rule keeps_nodes_table) (auto intro: keeps_nodes_refl)

lemma keeps_nodes_array:
  assumes "length elems \<le> length elems'" and "\<And>i. i < length elems \<Longrightarrow> keeps_nodes (elems ! i) (elems' ! i)"
  shows "keeps_nodes (Tn_array True elems) (Tn_array True elems')"
  unfolding keeps_nodes_def
proof (intro allI impI)
  fix path x
  assume at: "node_at path (Tn_array True elems) = Some x"
  show "\<exists>y. node_at path (Tn_array True elems') = Some y \<and> kept x y"
  proof (cases "(path, Tn_array True elems)" rule: node_at.cases)
    case (3 i path' b es)
    with at assms show ?thesis by (auto simp: keeps_nodes_def split: if_splits)
  qed (use at assms(1) in auto)
qed

lemma keeps_nodes_append: "keeps_nodes (Tn_array True elems) (Tn_array True (elems @ [v]))"
  by (rule keeps_nodes_array) (auto simp: nth_append)

lemma keeps_nodes_last:
  assumes "elems \<noteq> []" and "keeps_nodes (last elems) v"
  shows "keeps_nodes (Tn_array True elems) (Tn_array True (butlast elems @ [v]))"
proof (rule keeps_nodes_array)
  fix i assume "i < length elems"
  then show "keeps_nodes (elems ! i) ((butlast elems @ [v]) ! i)"
    using assms by (cases "i = length elems - 1") (auto simp: nth_append nth_butlast last_conv_nth)
qed (use assms in simp)

lemma open_table_keeps:
  assumes "entries_ok d t" and "open_table is_arr key t = Inr t'" and "kind \<noteq> Tk_inline"
  shows "keeps_nodes (Tn_table kind t) (Tn_table kind' t')"
  using assms
proof (induction is_arr key t arbitrary: kind kind' t' rule: open_table.induct)
  case (2 is_arr last_segment t)
  show ?case
  proof (cases "map_of t last_segment")
    case None
    with 2 show ?thesis by (auto intro: keeps_nodes_put_new)
  next
    case (Some v)
    with 2 show ?thesis
      by (auto intro!: keeps_nodes_put [OF _ Some] keeps_nodes_append keeps_nodes_table
          split: toml_node.splits bool.splits table_kind.splits if_splits)
  qed
next
  case (3 is_arr segment s key t)
  let ?key = "s # key"
  show ?case
  proof (cases "map_of t segment")
    case None
    with 3 show ?thesis by (auto intro: keeps_nodes_put_new split: sum.splits)
  next
    case (Some p)
    with 3 have p: "node_ok d p" by (auto dest: entries_ok_get)
    show ?thesis
    proof (cases p)
      case (Tn_table kd es)
      with p have "entries_ok d es" by simp
      with Some Tn_table 3 show ?thesis
        by (auto intro!: keeps_nodes_put [OF _ Some] split: if_splits sum.splits)
    next
      case (Tn_array b elems)
      with Some 3(5) have b by (auto split: bool.splits)
      with Tn_array p have "node_ok d (Tn_array True elems)" by simp
      then obtain es where "elems \<noteq> []" "last elems = Tn_table Tk_header es" "entries_ok d es"
        by (rule array_of_tables_last)
      with Some Tn_array \<open>b\<close> 3 show ?thesis
        by (cases elems) (auto intro!: keeps_nodes_put [OF _ Some] keeps_nodes_last simp del: last.simps butlast.simps split: sum.splits)
    qed (use Some 3 in simp_all)
  qed
qed simp

lemma update_table_keeps:
  assumes "entries_ok d t" and "current_table key t = Some tbl" and "kind \<noteq> Tk_inline"
    and "\<And>kd kd'. kd \<noteq> Tk_inline \<Longrightarrow> keeps_nodes (Tn_table kd tbl) (Tn_table kd' new)"
  shows "keeps_nodes (Tn_table kind t) (Tn_table kind' (update_table key new t))"
  using assms(1-3)
proof (induction key t arbitrary: kind kind' rule: current_table.induct)
  case (1 t)
  with assms(4) show ?case by simp
next
  case (2 segment key t)
  from 2(4) obtain p where p: "map_of t segment = Some p" by (auto split: option.splits)
  with 2 have ok: "node_ok d p" by (auto dest: entries_ok_get)
  show ?case
  proof (cases p)
    case (Tn_table kind es)
    with p ok 2 show ?thesis by (auto intro!: keeps_nodes_put [OF _ p] split: if_splits)
  next
    case (Tn_array b elems)
    with p 2(4) have b by (auto split: bool.splits)
    with Tn_array ok have "node_ok d (Tn_array True elems)" by simp
    then obtain es where "elems \<noteq> []" "last elems = Tn_table Tk_header es" "entries_ok d es"
      by (rule array_of_tables_last)
    with p Tn_array \<open>b\<close> 2 show ?thesis
      by (cases elems) (auto intro!: keeps_nodes_put [OF _ p] keeps_nodes_last simp del: last.simps butlast.simps)
  qed (use p 2(4) in simp_all)
qed

lemma key_place_keeps:
  assumes "key_place key t = Inr put" and "kind \<noteq> Tk_inline"
  shows "keeps_nodes (Tn_table kind t) (Tn_table kind' (put val))"
  using assms
proof (induction key t arbitrary: kind kind' put rule: key_place.induct)
  case (2 last_segment t)
  then show ?case by (auto intro: keeps_nodes_put_new split: option.splits)
next
  case (3 segment s key t)
  show ?case
  proof (cases "map_of t segment")
    case None
    with 3 show ?thesis by (auto intro: keeps_nodes_put_new split: sum.splits)
  next
    case (Some p)
    with 3 show ?thesis
      by (cases p) (auto intro!: keeps_nodes_put [OF _ Some] split: if_splits sum.splits)
  qed
qed simp

end
