(* ===== verification/Toml_Outcome.thy ===== *)
theory Toml_Outcome
  imports Toml_Parser Toml_Document "HOL-Library.Sublist"
begin

text \<open>
  What parsing can end in. \<open>yields V P c m\<close>: from the cursor \<open>c\<close> the program ends in a fault the library knows, or in a
  value with \<open>V\<close> and a cursor not before \<open>c\<close>, which is behind \<open>c\<close> when the value has \<open>P\<close>. The rules go along the
  combinators; the rule for loops asks that a round which goes on has moved the cursor, so that every loop ends.
\<close>

named_theorems yields_intros "what the programs of the parser end in"

section \<open>The calculus\<close>

definition later :: "cursor \<Rightarrow> cursor \<Rightarrow> bool" where
  "later c c' \<longleftrightarrow> suffix (cur_rest c') (cur_rest c) \<and> cur_end c' = cur_end c"

text \<open>
  An exception, one of the two marks of the library for what its authors take for impossible, or what ends the text.
\<close>

definition parse_fault :: "fault \<Rightarrow> bool" where
  "parse_fault e \<longleftrightarrow> (case e of Toml_exception _ \<Rightarrow> True
     | Undefined_behaviour s \<Rightarrow> s = ''TOML_ASSERT_ASSUME'' \<or> s = ''TOML_UNREACHABLE'' | _ \<Rightarrow> False)"

definition yields :: "('a \<Rightarrow> bool) \<Rightarrow> ('a \<Rightarrow> bool) \<Rightarrow> cursor \<Rightarrow> 'a parse \<Rightarrow> bool" where
  "yields V P c m \<longleftrightarrow> (case m c of
      (Inl e, _) \<Rightarrow> parse_fault e \<or> cur_end c = Some e
    | (Inr x, c') \<Rightarrow> V x \<and> later c c' \<and> (P x \<longrightarrow> cur_rest c' \<noteq> cur_rest c))"

abbreviation (input) anything :: "'a \<Rightarrow> bool" where "anything \<equiv> \<lambda>_. True"
abbreviation (input) nothing :: "'a \<Rightarrow> bool" where "nothing \<equiv> \<lambda>_. False"

lemma parse_fault_simps [simp]:
  "parse_fault (Toml_exception s)" "\<not> parse_fault out_of_rounds"
  "parse_fault (Undefined_behaviour ''TOML_ASSERT_ASSUME'')" "parse_fault (Undefined_behaviour ''TOML_UNREACHABLE'')"
  by (simp_all add: parse_fault_def out_of_rounds_def)

lemma later_refl [simp]: "later c c"
  by (simp add: later_def)

lemma later_trans: "later c c' \<Longrightarrow> later c' c'' \<Longrightarrow> later c c''"
  by (auto simp: later_def dest: suffix_order.trans)

lemma later_end: "later c c' \<Longrightarrow> cur_end c' = cur_end c"
  by (simp add: later_def)

lemma later_moved: "later c c' \<Longrightarrow> cur_rest c' \<noteq> cur_rest c \<longleftrightarrow> length (cur_rest c') < length (cur_rest c)"
  by (fastforce simp: later_def suffix_def)

lemma later_behind:
  "later c c' \<Longrightarrow> later c' c'' \<Longrightarrow> cur_rest c'' = cur_rest c \<Longrightarrow> cur_rest c' = cur_rest c"
  by (metis later_def suffix_order.antisym)

lemma yields_weaken:
  "yields V P c m \<Longrightarrow> (\<And>x. V x \<Longrightarrow> V' x) \<Longrightarrow> (\<And>x. V x \<Longrightarrow> P' x \<Longrightarrow> P x) \<Longrightarrow> yields V' P' c m"
  by (fastforce simp: yields_def split: prod.splits sum.splits)

lemma yields_Inr:
  "yields V P c m \<Longrightarrow> m c = (Inr x, c') \<Longrightarrow> V x \<and> later c c' \<and> (P x \<longrightarrow> cur_rest c' \<noteq> cur_rest c)"
  by (simp add: yields_def)

lemma yields_Inl: "yields V P c m \<Longrightarrow> m c = (Inl e, c') \<Longrightarrow> parse_fault e \<or> cur_end c = Some e"
  by (simp add: yields_def)

lemma yields_bind_at:
  assumes m: "yields V P c m"
    and f: "\<And>x c'. m c = (Inr x, c') \<Longrightarrow> V x \<Longrightarrow> later c c' \<Longrightarrow> yields V' (\<lambda>y. \<not> P x \<and> P' y) c' (f x)"
  shows "yields V' P' c (bind_p m f)"
proof (cases "m c")
  case (Pair r c')
  show ?thesis
  proof (cases r)
    case (Inl e)
    with Pair yields_Inl [OF m] show ?thesis by (simp add: bind_p_def yields_def)
  next
    case (Inr x)
    with Pair yields_Inr [OF m] have x: "V x" "later c c'" "P x \<longrightarrow> cur_rest c' \<noteq> cur_rest c" by simp_all
    with f [of x c'] Inr Pair show ?thesis
      by (auto simp: bind_p_def yields_def later_end split: prod.splits sum.splits intro: later_trans dest: later_behind)
  qed
qed

lemma yields_bind [yields_intros]:
  assumes "yields V P c m"
    and "\<And>x c'. V x \<Longrightarrow> yields V' (\<lambda>y. \<not> P x \<and> P' y) c' (f x)"
  shows "yields V' P' c (bind_p m f)"
  using assms by (blast intro: yields_bind_at)

lemma yields_then [yields_intros]:
  assumes "yields V P c m"
    and "\<And>x c'. V x \<Longrightarrow> yields V' (\<lambda>y. \<not> P x \<and> P' y) c' k"
  shows "yields V' P' c (then_p m k)"
  unfolding then_p_def using assms by (rule yields_bind)

lemma yields_return [yields_intros]: "V x \<Longrightarrow> \<not> P x \<Longrightarrow> yields V P c (return_p x)"
  by (simp add: yields_def return_p_def)

lemma yields_gets [yields_intros]: "yields anything nothing c (gets_p f)"
  by (simp add: yields_def gets_p_def)

lemma yields_error [yields_intros]: "yields V P c (set_error s)" "yields V P c assumption_broken"
  by (simp_all add: yields_def set_error_def assumption_broken_def throw_p_def)

lemma yields_with_cp:
  assumes "cur_rest c = [] \<Longrightarrow> yields V P c m"
    and "\<And>cp cps. cur_rest c = cp # cps \<Longrightarrow> yields V P c (f (cp_value cp))"
  shows "yields V P c (with_cp m f)"
  using assms by (cases "cur_rest c") (auto simp: yields_def with_cp_def)

lemma yields_with_cp' [yields_intros]:
  "yields V P c m \<Longrightarrow> (\<And>cp. yields V P c (f cp)) \<Longrightarrow> yields V P c (with_cp m f)"
  by (rule yields_with_cp)

lemma if_p_known [simp]: "if_p (Inr b) m k = (if b then m else k)"
  by (simp add: if_p_def lift_p_def bind_p_def fun_eq_iff)

text \<open>A test that is only made when it matters.\<close>

lemma if_p_guard: "if_p (if b then t else Inr False) m k = (if b then if_p t m k else k)"
  "if_p (if b then Inr False else t) m k = (if b then k else if_p t m k)"
  by (simp_all add: if_p_def lift_p_def bind_p_def fun_eq_iff)

lemma yields_here:
  "(\<And>cp cps. cur_rest c = cp # cps \<Longrightarrow> yields V P c (f (cp_value cp))) \<Longrightarrow> yields V P c (here f)"
  unfolding here_def by (rule yields_with_cp) (auto intro: yields_error)

lemma yields_here' [yields_intros]: "(\<And>cp. yields V P c (f cp)) \<Longrightarrow> yields V P c (here f)"
  by (rule yields_here)

lemma yields_if [yields_intros]:
  "(b \<Longrightarrow> yields V P c m) \<Longrightarrow> (\<not> b \<Longrightarrow> yields V P c k) \<Longrightarrow> yields V P c (if b then m else k)"
  by simp

lemma yields_let [yields_intros]: "yields V P c (f x) \<Longrightarrow> yields V P c (Let x f)"
  by simp

lemma yields_lift:
  "(\<And>e. r = Inl e \<Longrightarrow> parse_fault e) \<Longrightarrow> (\<And>x. r = Inr x \<Longrightarrow> V x) \<Longrightarrow> yields V nothing c (lift_p r)"
  by (auto simp: yields_def lift_p_def split: sum.splits)

text \<open>Loops\<close>

lemma yields_rounds:
  fixes body :: "'a \<Rightarrow> ('a + 'b) parse"
  assumes round: "\<And>a c. J a \<Longrightarrow> yields (case_sum J V) isl c (body a)"
  shows "J a \<Longrightarrow> length (cur_rest c) < n \<Longrightarrow> yields V nothing c (rounds n body a)"
proof (induction n arbitrary: a c)
  case (Suc n)
  show ?case
    unfolding rounds.simps
  proof (rule yields_bind_at [OF round [OF Suc.prems(1)]])
    fix r :: "'a + 'b" and c'
    assume run: "body a c = (Inr r, c')" and r: "case_sum J V r" and "later c c'"
    with yields_Inr [OF round [OF Suc.prems(1)] run] have "isl r \<Longrightarrow> length (cur_rest c') < length (cur_rest c)"
      by (simp add: later_moved)
    with Suc.IH Suc.prems(2) r
    show "yields V (\<lambda>y. \<not> isl r \<and> nothing y) c' (case r of Inl a' \<Rightarrow> rounds n body a' | Inr b \<Rightarrow> return_p b)"
      by (cases r) (auto intro: yields_return)
  qed
qed simp

lemma yields_loop:
  fixes body :: "'a \<Rightarrow> ('a + 'b) parse"
  assumes round: "\<And>a c. J a \<Longrightarrow> yields (case_sum J V) isl c (body a)" and "J a"
    and first: "yields anything (case_sum nothing P) c (body a)"
  shows "yields V P c (loop_p body a)"
proof -
  let ?n = "length (cur_rest c)"
  have "yields V P c (rounds (Suc ?n) body a)"
    unfolding rounds.simps
  proof (rule yields_bind_at [where V = "case_sum J V" and P = "\<lambda>r. case r of Inl _ \<Rightarrow> True | Inr b \<Rightarrow> P b"])
    show both: "yields (case_sum J V) (\<lambda>r. case r of Inl _ \<Rightarrow> True | Inr b \<Rightarrow> P b) c (body a)"
      using first round [OF \<open>J a\<close>, of c] by (auto simp: yields_def split: prod.splits sum.splits)
    fix r :: "'a + 'b" and c'
    assume run: "body a c = (Inr r, c')" and r: "case_sum J V r" and "later c c'"
    with yields_Inr [OF round [OF \<open>J a\<close>] run] have "isl r \<Longrightarrow> length (cur_rest c') < ?n"
      by (simp add: later_moved)
    with yields_rounds [OF round, where c = c' and n = ?n] r
    show "yields V (\<lambda>y. \<not> (case r of Inl _ \<Rightarrow> True | Inr b \<Rightarrow> P b) \<and> P y) c'
        (case r of Inl a' \<Rightarrow> rounds ?n body a' | Inr b \<Rightarrow> return_p b)"
      by (cases r) (auto intro: yields_return yields_weaken)
  qed
  then show ?thesis by (simp add: yields_def loop_p_def)
qed

lemma yields_option [yields_intros]:
  "(r = None \<Longrightarrow> yields V P c m) \<Longrightarrow> (\<And>x. r = Some x \<Longrightarrow> yields V P c (f x)) \<Longrightarrow>
     yields V P c (case r of None \<Rightarrow> m | Some x \<Rightarrow> f x)"
  by (cases r) auto

lemma yields_prod [yields_intros]:
  "(\<And>x y. r = (x, y) \<Longrightarrow> yields V P c (f x y)) \<Longrightarrow> yields V P c (case r of (x, y) \<Rightarrow> f x y)"
  by (cases r) auto

lemma yields_returns [yields_intros]: "V x \<Longrightarrow> yields V nothing c (return_p x)"
  by (simp add: yields_return)

section \<open>The cursor\<close>

text \<open>\<open>yields_facts\<close>: what each function of the parser ends in.\<close>

named_theorems yields_facts "what the functions of the parser end in"

lemma is_horizontal_whitespace_fault: "is_horizontal_whitespace cp = Inl e \<Longrightarrow> parse_fault e"
  by (auto simp: is_horizontal_whitespace_def is_non_ascii_horizontal_whitespace_def Let_def parse_fault_def split: if_splits)

lemma is_whitespace_fault: "is_whitespace cp = Inl e \<Longrightarrow> parse_fault e"
  by (auto simp: is_whitespace_def is_horizontal_whitespace_fault split: sum.splits)

lemma is_value_terminator_fault: "is_value_terminator cp = Inl e \<Longrightarrow> parse_fault e"
  by (auto simp: is_value_terminator_def is_whitespace_fault split: sum.splits)

lemmas char_faults = is_horizontal_whitespace_fault is_whitespace_fault is_value_terminator_fault

lemma yields_if_p:
  assumes "\<And>e. b = Inl e \<Longrightarrow> parse_fault e"
    and "b = Inr True \<Longrightarrow> yields V P c m" and "b = Inr False \<Longrightarrow> yields V P c k"
  shows "yields V P c (if_p b m k)"
  using assms by (cases b) (auto simp: if_p_def bind_p_def lift_p_def yields_def)

lemma yields_if_ps [yields_intros]:
  "(is_horizontal_whitespace cp = Inr True \<Longrightarrow> yields V P c m) \<Longrightarrow> (is_horizontal_whitespace cp = Inr False \<Longrightarrow> yields V P c k)
     \<Longrightarrow> yields V P c (if_p (is_horizontal_whitespace cp) m k)"
  "(is_whitespace cp = Inr True \<Longrightarrow> yields V P c m) \<Longrightarrow> (is_whitespace cp = Inr False \<Longrightarrow> yields V P c k)
     \<Longrightarrow> yields V P c (if_p (is_whitespace cp) m k)"
  "(is_value_terminator cp = Inr True \<Longrightarrow> yields V P c m) \<Longrightarrow> (is_value_terminator cp = Inr False \<Longrightarrow> yields V P c k)
     \<Longrightarrow> yields V P c (if_p (is_value_terminator cp) m k)"
  by (auto intro: yields_if_p dest: char_faults)

lemma yields_advance [yields_facts]: "yields anything anything c advance"
  by (cases c)
    (auto simp: yields_def advance_def assumption_broken_def throw_p_def later_def suffix_ConsI split: list.splits option.splits)

lemma yields_not_eof [yields_facts]: "yields anything nothing c not_eof"
  unfolding not_eof_def by (rule yields_intros | (simp; fail))+

lemma yields_advance_not_eof [yields_facts]: "yields anything anything c advance_not_eof"
  unfolding advance_not_eof_def
  by (rule yields_facts | rule yields_intros | rule yields_facts [THEN yields_weaken] | (simp; fail))+

lemma yields_at_eof [yields_facts]: "yields anything nothing c at_eof"
  unfolding at_eof_def by (rule yields_intros | (simp; fail))+

lemma yields_no_terminator [yields_facts]: "yields anything nothing c no_terminator"
  unfolding no_terminator_def by (rule yields_intros | (simp; fail))+

lemma yields_expect_terminator [yields_facts]: "yields anything nothing c expect_terminator"
  unfolding expect_terminator_def
  by (rule yields_facts | rule yields_intros | (simp; fail))+

lemma yields_consume_leading_whitespace [yields_facts]: "yields anything id c consume_leading_whitespace"
  unfolding consume_leading_whitespace_def
  by (rule yields_loop [where J = anything])
    (rule yields_facts | rule yields_intros | (simp; fail))+

lemma yields_consume_line_break [yields_facts]: "yields anything id c consume_line_break"
  unfolding consume_line_break_def
  by (rule yields_facts | rule yields_intros | (simp; fail))+

lemma yields_line_break_here:
  "cur_rest c = cp # cps \<Longrightarrow> is_ascii_vertical_whitespace (cp_value cp) \<Longrightarrow> yields anything anything c consume_line_break"
  unfolding consume_line_break_def
  by (rule yields_with_cp | rule yields_facts | rule yields_intros | rule yields_facts [THEN yields_weaken] | (simp; fail) | (auto simp: char_defs; fail))+

lemma yields_then_line_break:
  "cur_rest c = cp # cps \<Longrightarrow> is_ascii_vertical_whitespace (cp_value cp) \<Longrightarrow> (\<And>c'. yields V nothing c' k) \<Longrightarrow>
     yields V P c (then_p consume_line_break k)"
  by (rule yields_then [OF yields_line_break_here]) simp_all

lemma yields_consume_comment [yields_facts]: "yields anything id c consume_comment"
  unfolding consume_comment_def
  by (rule yields_facts | rule yields_loop [where J = anything] | rule yields_intros | (simp; fail))+

lemma yields_consume_blank [yields_facts]: "yields anything id c consume_blank"
  unfolding consume_blank_def
  by (rule yields_facts | rule yields_intros | rule yields_facts [THEN yields_weaken] | (simp; fail))+

lemma yields_skip_blanks:
  assumes "\<And>c. yields anything id c consume"
  shows "yields anything nothing c (skip_blanks consume)"
  unfolding skip_blanks_def
  by (rule yields_loop [where J = anything])
    (rule assms | rule yields_facts | rule yields_intros | (simp; fail))+

lemma yields_skip_blanks_facts [yields_facts]:
  "yields anything nothing c (skip_blanks consume_blank)" "yields anything nothing c (skip_blanks consume_leading_whitespace)"
  by (rule yields_skip_blanks, rule yields_facts)+

section \<open>Sequences\<close>

lemma yields_consume_expected_sequence [yields_facts]:
  "yields anything (\<lambda>b. b \<and> seq \<noteq> []) c (consume_expected_sequence seq)"
proof (induction seq arbitrary: c)
  case (Cons x seq)
  show ?case
    unfolding consume_expected_sequence.simps
    by (rule yields_facts | rule yields_intros | rule Cons.IH [THEN yields_weaken] | (simp; fail))+
qed (simp add: yields_return)

definition digits_ok :: "nat list \<Rightarrow> bool" where
  "digits_ok ds \<longleftrightarrow> list_all (\<lambda>d. d < 10) ds"

lemma digit_ok: "is_decimal_digit cp \<Longrightarrow> cp - 0x30 < 10"
  by (auto simp: char_defs)

lemma yields_consume_digit_sequence [yields_facts]:
  "yields (\<lambda>r. \<forall>ds. r = Some ds \<longrightarrow> length ds = n \<and> digits_ok ds) (\<lambda>r. r \<noteq> None \<and> 0 < n) c (consume_digit_sequence n)"
proof (induction n arbitrary: c)
  case (Suc n)
  show ?case
    unfolding consume_digit_sequence.simps
    by (rule yields_facts | rule yields_intros | rule Suc.IH | (simp; fail)
        | (auto simp: digits_ok_def digit_ok; fail))+
qed (simp add: yields_return digits_ok_def)

lemma yields_consume_variable_length_digit_sequence [yields_facts]:
  "yields (\<lambda>ds. length ds \<le> n \<and> digits_ok ds) nothing c (consume_variable_length_digit_sequence n)"
proof (induction n arbitrary: c)
  case (Suc n)
  show ?case
    unfolding consume_variable_length_digit_sequence.simps
    by (rule yields_facts | rule yields_intros | rule Suc.IH | (simp; fail)
        | (auto simp: digits_ok_def digit_ok; fail))+
qed (simp add: yields_return digits_ok_def)

section \<open>Strings\<close>

lemma yields_scalar_sequence [yields_facts]: "yields anything nothing c (scalar_sequence places v)"
proof (induction places arbitrary: c v)
  case (Cons p places)
  show ?case
    unfolding scalar_sequence.simps
    by (rule yields_facts | rule yields_intros | rule Cons.IH [THEN yields_weaken] | (simp; fail))+
qed (simp add: yields_return)

lemma yields_escape_sequence [yields_facts]: "yields anything anything c escape_sequence"
  unfolding escape_sequence_def Let_def
  by (rule yields_facts | rule yields_intros | (simp; fail))+

lemma yields_consecutive_delimiters: "yields anything (\<lambda>_. 0 < k) c (consecutive_delimiters delimiter k n)"
proof (induction k arbitrary: c n)
  case (Suc k)
  show ?case
    unfolding consecutive_delimiters.simps
    by (rule yields_facts | rule yields_intros | rule Suc.IH [THEN yields_weaken] | (simp; fail))+
qed (simp add: yields_return)

lemma yields_closing_delimiters [yields_facts]: "yields anything anything c (closing_delimiters delimiter)"
  unfolding closing_delimiters_def
  by (rule yields_consecutive_delimiters yields_facts | rule yields_intros | (simp; fail))+

lemma yields_skip_first_line_break [yields_facts]: "yields anything nothing c (skip_first_line_break multi_line)"
  unfolding skip_first_line_break_def
  by (rule yields_facts | rule yields_intros | rule yields_facts [THEN yields_weaken] | (simp; fail))+

lemma yields_escaped_round [yields_facts]: "yields anything isl c (escaped_round multi_line st)"
  unfolding escaped_round_def Let_def if_p_guard
  by (rule yields_facts | rule yields_intros | rule yields_facts [THEN yields_weaken] | (simp; fail))+

lemma yields_plain_round [yields_facts]: "yields anything anything c (plain_round multi_line st)"
  unfolding plain_round_def Let_def if_p_guard
  by (rule yields_here | (rule yields_then_line_break, assumption, (simp; fail)) | rule yields_facts | rule yields_intros
      | rule yields_facts [THEN yields_weaken] | (simp; fail))+

lemma yields_parse_basic_string [yields_facts]: "yields anything anything c (parse_basic_string multi_line)"
  unfolding parse_basic_string_def
  by (rule yields_facts | rule yields_loop [where J = anything] | rule yields_intros | rule yields_facts [THEN yields_weaken]
      | (simp add: sum.case_eq_if; fail))+

lemma yields_literal_round [yields_facts]: "yields anything anything c (literal_round multi_line str)"
  unfolding literal_round_def
  by (rule yields_here | (rule yields_then_line_break, assumption, (simp; fail)) | rule yields_facts | rule yields_intros
      | rule yields_facts [THEN yields_weaken] | (simp; fail))+

lemma yields_parse_literal_string [yields_facts]: "yields anything anything c (parse_literal_string multi_line)"
  unfolding parse_literal_string_def
  by (rule yields_facts | rule yields_loop [where J = anything] | rule yields_intros | rule yields_facts [THEN yields_weaken]
      | (simp add: sum.case_eq_if; fail))+

lemma yields_parse_quoted [yields_facts]: "yields anything anything c (parse_quoted first multi_line)"
  unfolding parse_quoted_def by (rule yields_facts | rule yields_intros)+

text \<open>Where the parser goes back, the cursor in between does not matter.\<close>

definition ends_in :: "fault option \<Rightarrow> ('a \<Rightarrow> cursor \<Rightarrow> bool) \<Rightarrow> cursor \<Rightarrow> 'a parse \<Rightarrow> bool" where
  "ends_in end_fault Q c m \<longleftrightarrow> (case m c of (Inl e, _) \<Rightarrow> parse_fault e \<or> end_fault = Some e | (Inr x, c') \<Rightarrow> Q x c')"

lemma yields_ends_in:
  "ends_in (cur_end c) (\<lambda>x c'. V x \<and> later c c' \<and> (P x \<longrightarrow> cur_rest c' \<noteq> cur_rest c)) c m \<Longrightarrow> yields V P c m"
  by (simp add: yields_def ends_in_def)

lemma ends_in_yields:
  "yields V P c m \<Longrightarrow> cur_end c = end_fault
     \<Longrightarrow> (\<And>x c'. V x \<Longrightarrow> later c c' \<Longrightarrow> cur_end c' = end_fault \<Longrightarrow> P x \<longrightarrow> cur_rest c' \<noteq> cur_rest c \<Longrightarrow> Q x c')
     \<Longrightarrow> ends_in end_fault Q c m"
  by (auto simp: yields_def ends_in_def later_end split: prod.splits sum.splits)

lemma ends_in_weaken:
  "ends_in end_fault Q c m \<Longrightarrow> (\<And>x c'. Q x c' \<Longrightarrow> Q' x c') \<Longrightarrow> ends_in end_fault Q' c m"
  by (auto simp: ends_in_def split: prod.splits sum.splits)

named_theorems ends_intros "where a program ends, along its combinators"

lemma ends_in_bind [ends_intros]:
  "ends_in end_fault (\<lambda>x c'. ends_in end_fault Q c' (f x)) c m \<Longrightarrow> ends_in end_fault Q c (bind_p m f)"
  by (auto simp: ends_in_def bind_p_def split: prod.splits sum.splits)

lemma ends_in_then [ends_intros]:
  "ends_in end_fault (\<lambda>x c'. ends_in end_fault Q c' k) c m \<Longrightarrow> ends_in end_fault Q c (then_p m k)"
  by (simp add: then_p_def ends_in_bind)

lemma ends_in_simple [ends_intros]:
  "Q x c \<Longrightarrow> ends_in end_fault Q c (return_p x)"
  "ends_in end_fault Q c (set_error s)" "ends_in end_fault Q c assumption_broken"
  by (simp_all add: ends_in_def return_p_def set_error_def assumption_broken_def throw_p_def)

lemma ends_in_gets [ends_intros]: "Q (f c) c \<Longrightarrow> ends_in end_fault Q c (gets_p f)"
  by (simp add: ends_in_def gets_p_def)

lemma ends_in_go_back [ends_intros]: "Q () back \<Longrightarrow> ends_in end_fault Q c (go_back_to n back)"
  by (simp add: ends_in_def go_back_to_def bind_p_def gets_p_def modify_p_def assumption_broken_def throw_p_def)

lemma ends_in_case_prod [ends_intros]:
  "ends_in end_fault Q c (f (fst r) (snd r)) \<Longrightarrow> ends_in end_fault Q c (case r of (a, b) \<Rightarrow> f a b)"
  by (simp add: case_prod_beta)

lemma ends_in_with_cp [ends_intros]:
  "ends_in end_fault Q c m \<Longrightarrow> (\<And>cp. ends_in end_fault Q c (f cp)) \<Longrightarrow> ends_in end_fault Q c (with_cp m f)"
  by (cases "cur_rest c") (auto simp: ends_in_def with_cp_def)

lemma ends_in_here [ends_intros]: "(\<And>cp. ends_in end_fault Q c (f cp)) \<Longrightarrow> ends_in end_fault Q c (here f)"
  unfolding here_def by (rule ends_in_with_cp [OF ends_in_simple(3)])

lemma ends_in_if [ends_intros]:
  "(b \<Longrightarrow> ends_in end_fault Q c m) \<Longrightarrow> (\<not> b \<Longrightarrow> ends_in end_fault Q c k) \<Longrightarrow> ends_in end_fault Q c (if b then m else k)"
  by simp

lemma yields_parse_string [yields_facts]: "yields anything anything c parse_string"
  unfolding parse_string_def
  by (rule yields_ends_in)
    (rule ends_intros | (rule ends_in_yields, rule yields_facts) | (simp; fail) | (metis later_trans later_behind))+

lemma yields_parse_bare_key_segment [yields_facts]: "yields anything nothing c parse_bare_key_segment"
  unfolding parse_bare_key_segment_def
  by (rule yields_facts | rule yields_loop [where J = anything] | rule yields_intros | (simp add: sum.case_eq_if; fail))+

section \<open>Numbers\<close>

lemma yields_parse_boolean [yields_facts]: "yields anything anything c parse_boolean"
  unfolding parse_boolean_def Let_def
  by (rule yields_facts | rule yields_intros | (simp; fail))+

lemma yields_optional_sign [yields_facts]:
  "yields anything (\<lambda>_. b) c (if b then advance_not_eof else return_p ())"
  by (rule yields_intros yields_facts [THEN yields_weaken] | (simp; fail))+

lemma yields_parse_inf_or_nan: "yields (\<lambda>f. \<forall>b s. f \<noteq> Tf_number b s) anything c parse_inf_or_nan"
  unfolding parse_inf_or_nan_def Let_def
  by (rule yields_facts | rule yields_intros | (simp; fail))+

lemma float_char_fault: "float_char cp byte st = Inl e \<Longrightarrow> parse_fault e"
  by (auto simp: float_char_def Let_def split: if_splits)

lemma yields_float_round: "yields anything isl c (float_round st)"
  unfolding float_round_def
  by (rule yields_facts | rule yields_intros | (rule yields_lift, erule float_char_fault, (simp; fail)) | (simp; fail))+

lemma no_terminator_run:
  "cur_rest c = cp # cps \<Longrightarrow> is_value_terminator (cp_value cp) = Inr False \<Longrightarrow> no_terminator c = (Inr True, c)"
  by (simp add: no_terminator_def with_cp_def if_p_def bind_p_def lift_p_def return_p_def)

lemma yields_while_no_terminator:
  assumes "cur_rest c = cp # cps" and "is_value_terminator (cp_value cp) = Inr False" and "yields V P c k"
  shows "yields V P c (bind_p no_terminator (\<lambda>b. if \<not> b then m else k))"
  using assms by (simp add: yields_def bind_p_def no_terminator_run)

lemma yields_float_first:
  "cur_rest c = cp # cps \<Longrightarrow> is_value_terminator (cp_value cp) = Inr False \<Longrightarrow> yields anything anything c (float_round st)"
  unfolding float_round_def
  by (rule yields_while_no_terminator, assumption, assumption)
    (rule yields_facts | rule yields_intros | (rule yields_lift, erule float_char_fault, (simp; fail)) | (simp; fail))+

definition begins_float :: "cursor \<Rightarrow> bool" where
  "begins_float c \<longleftrightarrow> (case cur_rest c of [] \<Rightarrow> False
     | cp # _ \<Rightarrow> is_decimal_digit (cp_value cp) \<or> cp_value cp \<in> {0x2B, 0x2D, 0x2E})"

lemma yields_float_loop: "yields anything (\<lambda>_. begins_float c) c (loop_p float_round st)"
proof (rule yields_loop [where J = anything])
  show "yields anything (case_sum nothing (\<lambda>_. begins_float c)) c (float_round st)"
  proof (cases "begins_float c")
    case True
    then obtain cp cps where c: "cur_rest c = cp # cps" and "is_decimal_digit (cp_value cp) \<or> cp_value cp \<in> {0x2B, 0x2D, 0x2E}"
      by (auto simp: begins_float_def split: list.splits)
    then have "is_value_terminator (cp_value cp) = Inr False" by (auto simp: char_defs)
    with c show ?thesis by (rule yields_weaken [OF yields_float_first]) simp_all
  next
    case False
    then show ?thesis by (intro yields_weaken [OF yields_float_round]) (auto split: sum.splits)
  qed
qed (simp_all add: sum.case_eq_if yields_float_round [THEN yields_weaken])

lemma yields_parse_float:
  "yields (\<lambda>f. node_ok to_double (Tn_float f)) (\<lambda>_. begins_float c) c (parse_float to_double)"
  unfolding parse_float_def Let_def
proof (rule yields_here)
  fix cp cps assume c: "cur_rest c = cp # cps"
  let ?sign = "cp_value cp = 0x2B \<or> cp_value cp = 0x2D"
  show "yields (\<lambda>f. node_ok to_double (Tn_float f)) (\<lambda>_. begins_float c) c
    (then_p (if ?sign then advance_not_eof else return_p ())
     (bind_p (loop_p float_round \<lparr>fs_chars = [], fs_prev = None, fs_seen_decimal = False, fs_seen_exponent = False,
          fs_first_integer_part = None\<rparr>) (\<lambda>st.
       if prev_in [0x5F] (fs_prev st) then then_p not_eof (set_error ''underscores must be followed by digits'')
       else if prev_in [0x65, 0x45, 0x2B, 0x2D, 0x2E] (fs_prev st) then then_p not_eof (set_error ''expected decimal digit'')
       else if to_double (fs_chars st) then return_p (Tf_number (cp_value cp = 0x2D) (fs_chars st))
       else set_error ''could not be interpreted as a value'')))"
  proof (cases ?sign)
    case True
    then show ?thesis
      by (simp only: if_True)
        (rule yields_facts | rule yields_float_loop | rule yields_intros | (simp; fail))+
  next
    case False
    then show ?thesis
      by (simp only: if_False then_p_def bind_return_p)
        (rule yields_facts | rule yields_float_loop | rule yields_intros | (simp; fail))+
  qed
qed

lemma yields_parse_hex_float: "yields V P c parse_hex_float"
  by (simp add: parse_hex_float_def yields_intros)

text \<open>Integers\<close>

lemma with_cp_Inr [runs]:
  "with_cp m f c = (Inr x, c') \<longleftrightarrow>
     cur_rest c = [] \<and> m c = (Inr x, c') \<or> (\<exists>cp cps. cur_rest c = cp # cps \<and> f (cp_value cp) c = (Inr x, c'))"
  by (auto simp: with_cp_def split: list.splits)

lemma here_Inr [runs]:
  "here f c = (Inr x, c') \<longleftrightarrow> (\<exists>cp cps. cur_rest c = cp # cps \<and> f (cp_value cp) c = (Inr x, c'))"
  by (simp add: here_def runs assumption_broken_def)

lemma set_error_Inr [runs]: "set_error s c = (Inr x, c') \<longleftrightarrow> False"
  by (simp add: set_error_def runs)

lemma digit_value_small: "digit_value tr ch < 400"
proof -
  have byte: "byte_of ch < 256" by simp
  then have "take_bit 8 (byte_of ch OR 0x20) = byte_of ch OR 0x20"
    by (simp add: take_bit_nat_eq_self)
  then have "(byte_of ch OR 0x20) < 256" using take_bit_nat_less_exp [of 8 "byte_of ch OR 0x20"] by simp
  then have "10 + (byte_of ch OR 0x20) - 0x61 < 400" and "byte_of ch - 0x30 < 400" using byte by linarith+
  then show ?thesis by (simp only: digit_value_def hex_to_dec_def split: if_split) simp
qed

lemma signed_ok:
  fixes w :: "64 word"
  assumes "w \<le> i64_max"
  shows "integer_ok (sint w)" and "integer_ok (- sint w)"
proof -
  have "unat i64_max = 0x7FFFFFFFFFFFFFFF" by (simp add: i64_max_def)
  with assms have "unat w < 2 ^ 63" by (simp add: word_le_nat_alt)
  then have "int (unat w) < int (2 ^ 63)" by (simp only: of_nat_less_iff)
  then have "uint w < 2 ^ 63" by simp
  then have "sint w = uint w"
    unfolding sint_uint by (intro signed_take_bit_int_eq_self) (auto intro: order_trans [of _ 0])
  with \<open>uint w < 2 ^ 63\<close> have "0 \<le> sint w" "sint w < 2 ^ 63" by simp_all
  then show "integer_ok (sint w)" and "integer_ok (- sint w)" unfolding integer_ok_def by linarith+
qed

lemma in_range_ok:
  assumes "in_range negative w = Inr i"
  shows "integer_ok i"
proof (cases "negative \<and> w = i64_max + 1")
  case True
  with assms show ?thesis by (auto simp: in_range_def integer_ok_def split: if_splits)
next
  case False
  with assms have le: "w \<le> i64_max + (if negative then 1 else 0)" and i: "i = sint w * (if negative then -1 else 1)"
    by (simp_all add: in_range_def not_less split: if_split_asm)
  have "unat w \<le> unat i64_max + (if negative then 1 else 0)"
    using le by (cases negative) (simp_all add: i64_max_def word_le_nat_alt)
  moreover have "negative \<Longrightarrow> unat w \<noteq> unat i64_max + 1"
    using False by (auto simp: i64_max_def word_unat_eq_iff)
  ultimately have "w \<le> i64_max" by (auto simp: word_le_nat_alt split: if_split_asm)
  with i signed_ok show ?thesis by simp
qed

lemma integer_value_fault: "integer_value tr negative digits = Inl e \<Longrightarrow> parse_fault e"
  by (auto simp: integer_value_def in_range_def Let_def split: if_split_asm)

lemma digit_integer_ok: "integer_ok (int (digit_value tr ch) * (if negative then -1 else 1))"
  using digit_value_small [of tr ch] by (cases negative) (simp_all add: integer_ok_def)

lemma integer_value_ok: "integer_value tr negative digits = Inr i \<Longrightarrow> integer_ok i"
proof (cases "length digits = 1")
  case True
  moreover assume "integer_value tr negative digits = Inr i"
  ultimately show ?thesis using digit_integer_ok [of tr "hd digits" negative] by (simp only: integer_value_def simp_thms if_True sum.inject)
next
  case False
  moreover assume "integer_value tr negative digits = Inr i"
  ultimately have "i = 0 \<or> (\<exists>w. in_range negative w = Inr i)"
    unfolding integer_value_def Let_def by (auto split: if_split_asm)
  then show ?thesis using in_range_ok by (auto simp: integer_ok_def)
qed

definition known_traits :: "integer_traits \<Rightarrow> bool" where
  "known_traits tr \<longleftrightarrow> tr = binary_traits \<or> tr = octal_traits \<or> tr = decimal_traits \<or> tr = hexadecimal_traits"

lemma known_digit: "known_traits tr \<Longrightarrow> it_digit tr cp \<Longrightarrow> is_value_terminator cp = Inr False"
  by (auto simp: known_traits_def binary_traits_def octal_traits_def decimal_traits_def hexadecimal_traits_def char_defs)

lemma yields_integer_head: "yields anything nothing c (integer_head tr)"
  unfolding integer_head_def Let_def
  by (rule yields_facts | rule yields_intros | (simp; fail))+

lemma integer_head_digit:
  "integer_head tr c = (Inr negative, c') \<Longrightarrow> \<exists>cp cps. cur_rest c' = cp # cps \<and> it_digit tr (cp_value cp)"
  by (auto simp: integer_head_def Let_def runs split: option.splits if_splits)

lemma yields_integer_round: "yields anything isl c (integer_round tr st)"
  unfolding integer_round_def
  by (rule yields_facts | rule yields_intros | (simp; fail))+

lemma yields_integer_first:
  "cur_rest c = cp # cps \<Longrightarrow> is_value_terminator (cp_value cp) = Inr False \<Longrightarrow> yields anything anything c (integer_round tr st)"
  unfolding integer_round_def
  by (rule yields_while_no_terminator, assumption, assumption)
    (rule yields_facts | rule yields_intros | (simp; fail))+

lemma yields_parse_integer [yields_facts]:
  assumes "known_traits tr"
  shows "yields integer_ok anything c (parse_integer tr)"
  unfolding parse_integer_def
proof (rule yields_bind_at [OF yields_integer_head])
  fix negative c'
  assume "integer_head tr c = (Inr negative, c')"
  then obtain cp cps where c': "cur_rest c' = cp # cps" and "it_digit tr (cp_value cp)"
    using integer_head_digit by blast
  with assms have first: "is_value_terminator (cp_value cp) = Inr False" by (simp add: known_digit)
  have "yields anything anything c' (loop_p (integer_round tr) ([], None))"
    by (rule yields_loop [where J = anything])
      (simp_all add: sum.case_eq_if yields_integer_round [THEN yields_weaken] yields_integer_first [OF c' first, THEN yields_weaken])
  then show "yields integer_ok (\<lambda>y. \<not> nothing negative \<and> anything y) c' (bind_p (loop_p (integer_round tr) ([], None))
      (\<lambda>(digits, prev).
       if prev_in [0x5F] prev then then_p not_eof (set_error ''underscores must be followed by digits'')
       else lift_p (integer_value tr negative digits)))"
    by (rule yields_bind)
      (rule yields_facts | rule yields_intros | (simp; fail)
        | (rule yields_weaken, rule yields_lift, erule integer_value_fault, erule integer_value_ok))+
qed

section \<open>Dates and times\<close>

lemma yields_expect [yields_facts]: "yields anything anything c (expect cp reason)"
  unfolding expect_def by (rule yields_facts | rule yields_intros | rule yields_facts [THEN yields_weaken] | (simp; fail))+

lemma two_digits_small: "digits_ok ds \<Longrightarrow> length ds = 2 \<Longrightarrow> ds ! 1 + ds ! 0 * 10 < 100"
proof -
  assume "digits_ok ds" and "length ds = 2"
  then have "ds ! 0 < 10" "ds ! 1 < 10" by (auto simp: digits_ok_def list_all_length)
  then show ?thesis by linarith
qed

lemma yields_two_digits [yields_facts]: "yields (\<lambda>n. n < 100) anything c (two_digits reason)"
  unfolding two_digits_def
  by (rule yields_facts | rule yields_intros | rule yields_facts [THEN yields_weaken] | (simp; fail) | (metis two_digits_small) | (simp; fail))+

lemma yields_until_terminator [yields_facts]:
  "yields anything nothing c (if b then expect_terminator else return_p ())"
  by (rule yields_intros yields_facts [THEN yields_weaken] | (simp; fail))+

lemma year_small: "digits_ok ds \<Longrightarrow> length ds = 4 \<Longrightarrow> ds ! 3 + ds ! 2 * 10 + ds ! 1 * 100 + ds ! 0 * 1000 \<le> 9999"
proof -
  assume "digits_ok ds" and "length ds = 4"
  then have "ds ! 0 < 10" "ds ! 1 < 10" "ds ! 2 < 10" "ds ! 3 < 10"
    by (auto simp: digits_ok_def list_all_length)
  then show ?thesis by linarith
qed

lemma read_date_ok:
  assumes "digits_ok ds" and "length ds = 4" and "\<not> (month = 0 \<or> 12 < month)"
    and "\<not> (day = 0 \<or> max_days_in_month (ds ! 3 + ds ! 2 * 10 + ds ! 1 * 100 + ds ! 0 * 1000) month < day)"
  shows "date_ok \<lparr>td_year = ds ! 3 + ds ! 2 * 10 + ds ! 1 * 100 + ds ! 0 * 1000, td_month = month, td_day = day\<rparr>"
proof -
  obtain year where year: "year = ds ! 3 + ds ! 2 * 10 + ds ! 1 * 100 + ds ! 0 * 1000" by blast
  with year_small [OF assms(1,2)] have "year \<le> 9999" by simp
  with assms(3,4) show ?thesis
    unfolding year [symmetric] by (auto simp: date_ok_def max_days_in_month_def Let_def split: if_splits)
qed

lemma yields_parse_date [yields_facts]: "yields date_ok anything c (parse_date part_of_datetime)"
  unfolding parse_date_def Let_def
  by (rule yields_facts | rule yields_intros | rule yields_facts [THEN yields_weaken] | (simp; fail)
      | (rule read_date_ok, simp, simp, assumption, assumption))+

lemma yields_time_ends [yields_facts]: "yields anything nothing c (time_ends part_of_datetime)"
  unfolding time_ends_def by (rule yields_facts | rule yields_intros | rule yields_facts [THEN yields_weaken] | (simp; fail))+

lemma digits_value_bound:
  "list_all (\<lambda>d. d < 10) ds \<Longrightarrow> foldl (\<lambda>value d. value * 10 + d) a ds < (a + 1) * 10 ^ length ds" for a :: nat
proof (induction ds arbitrary: a)
  case (Cons d ds)
  then have "foldl (\<lambda>value d. value * 10 + d) (a * 10 + d) ds < (a * 10 + d + 1) * 10 ^ length ds" by simp
  also have "\<dots> \<le> ((a + 1) * 10) * 10 ^ length ds"
    using Cons.prems by (intro mult_right_mono) auto
  finally show ?case by (simp add: algebra_simps)
qed simp

lemma fractional_value_small:
  assumes "digits_ok ds"
  shows "fractional_value ds < 10 ^ 9"
proof -
  have "list_all (\<lambda>d. d < 10) (take 9 ds)"
    using assms by (auto simp: digits_ok_def list_all_iff dest: in_set_takeD)
  from digits_value_bound [OF this, of 0]
  have "foldl (\<lambda>value d. value * 10 + d) 0 (take 9 ds) < 10 ^ min (length ds) 9" by simp
  then have "fractional_value ds < 10 ^ min (length ds) 9 * 10 ^ (9 - length ds)"
    unfolding fractional_value_def by (intro mult_strict_right_mono) auto
  also have "\<dots> = 10 ^ (min (length ds) 9 + (9 - length ds))" by (simp only: power_add)
  also have "min (length ds) 9 + (9 - length ds) = 9" by linarith
  finally show ?thesis .
qed

lemma yields_fractional_part [yields_facts]: "yields (\<lambda>v. v < 10 ^ 9) nothing c (fractional_part part_of_datetime)"
  unfolding fractional_part_def
  by (rule yields_then [where V = anything and P = nothing] | rule yields_facts | rule yields_intros | rule yields_facts [THEN yields_weaken] | (simp; fail) | (rule fractional_value_small, simp))+

lemma yields_parse_time [yields_facts]: "yields time_ok anything c (parse_time part_of_datetime)"
  unfolding parse_time_def
  by (rule yields_facts | rule yields_intros | rule yields_facts [THEN yields_weaken] | (simp; fail) | (simp add: time_ok_def; fail))+

lemma yields_time_offset [yields_facts]: "yields (\<lambda>minutes. \<bar>minutes\<bar> < 24 * 60) nothing c time_offset"
  unfolding time_offset_def Let_def
  by (rule yields_facts | rule yields_intros | rule yields_facts [THEN yields_weaken] | (simp; fail) | (auto; fail))+

lemma yields_parse_date_time [yields_facts]:
  "yields (\<lambda>v. node_ok to_double v \<and> closed_node v) anything c parse_date_time"
  unfolding parse_date_time_def
  by (rule yields_facts | rule yields_bind [where V = "\<lambda>minutes. \<bar>minutes\<bar> < 24 * 60" and P = nothing]
      | rule yields_intros | (simp; fail))+

section \<open>Values of unknown type\<close>

text \<open>What a scan that began at the code point \<open>cp\<close> knows of it.\<close>

definition scanned :: "nat \<Rightarrow> value_trait set \<Rightarrow> scan_state \<Rightarrow> bool" where
  "scanned cp ts sc \<longleftrightarrow> sc_chars sc \<noteq> [] \<and> hd (sc_chars sc) = cp
     \<and> (Begins_digit \<in> sc_traits sc \<longleftrightarrow> Begins_digit \<in> ts) \<and> (Begins_sign \<in> sc_traits sc \<longleftrightarrow> Begins_sign \<in> ts)
     \<and> (Has_digits \<in> sc_traits sc \<longrightarrow> (\<exists>d \<in> set (sc_chars sc). is_decimal_digit d))"

lemma trait_of_kind:
  "trait_of c sc \<noteq> Some Begins_digit" "trait_of c sc \<noteq> Some Begins_sign"
  "trait_of c sc = Some Has_digits \<longleftrightarrow> is_decimal_digit c"
  by (simp_all add: trait_of_def Let_def)

lemma scan_char_fields:
  "sc_chars (scan_char c sc) = sc_chars sc @ [c]"
  "Begins_digit \<in> sc_traits (scan_char c sc) \<longleftrightarrow> Begins_digit \<in> sc_traits sc"
  "Begins_sign \<in> sc_traits (scan_char c sc) \<longleftrightarrow> Begins_sign \<in> sc_traits sc"
  "Has_digits \<in> sc_traits (scan_char c sc) \<longleftrightarrow> is_decimal_digit c \<or> Has_digits \<in> sc_traits sc"
  using trait_of_kind [of c "sc\<lparr>sc_chars := sc_chars sc @ [c]\<rparr>"]
  by (auto simp: scan_char_def Let_def add_trait_def split: option.split)

lemma scanned_char: "scanned cp ts sc \<Longrightarrow> scanned cp ts (scan_char c sc)"
  by (auto simp: scanned_def scan_char_fields)

lemma scanned_fields [simp]:
  "scanned cp ts (sc\<lparr>sc_advance_count := n\<rparr>) = scanned cp ts sc" "scanned cp ts (sc\<lparr>sc_eof := b\<rparr>) = scanned cp ts sc"
  by (simp_all add: scanned_def)

lemma yields_scan_round_at:
  assumes "\<And>cp cps. cur_rest c = cp # cps \<Longrightarrow>
      scanned cp0 ts (if cp_value cp \<noteq> 0x5F then scan_char (cp_value cp) sc else sc)"
  shows "yields (case_sum (scanned cp0 ts) (scanned cp0 ts)) anything c (scan_round sc)"
  unfolding scan_round_def Let_def
  by (rule yields_here) (drule assms, (rule yields_facts | rule yields_intros | (simp; fail))+)

lemma yields_scan_rounds:
  "scanned cp ts sc \<Longrightarrow> yields (case_sum (scanned cp ts) (scanned cp ts)) isl c (scan_round sc)"
  by (rule yields_weaken, rule yields_scan_round_at) (auto intro: scanned_char)

lemma yields_scan_on: "scanned cp ts sc \<Longrightarrow> yields (scanned cp ts) nothing c (scan_traits sc)"
  unfolding scan_traits_def
  by (rule yields_intros | rule yields_loop [where J = "scanned cp ts"] yields_scan_rounds | assumption
      | rule yields_scan_rounds [THEN yields_weaken] | (simp add: sum.case_eq_if; fail))+

lemma yields_scan_first:
  assumes c: "cur_rest c = cp # cps" and ts: "begin_traits (cp_value cp) = Some ts"
  shows "yields (scanned (cp_value cp) ts) nothing c (scan_traits \<lparr>sc_traits = ts, sc_chars = [], sc_advance_count = 0, sc_eof = False\<rparr>)"
proof -
  let ?sc = "\<lparr>sc_traits = ts, sc_chars = [], sc_advance_count = 0, sc_eof = False\<rparr>"
  have cp: "cp_value cp \<noteq> 0x5F" "is_value_terminator (cp_value cp) = Inr False"
    using ts by (auto simp: begin_traits_def char_defs split: if_splits)
  have "Has_digits \<notin> ts" using ts by (auto simp: begin_traits_def split: if_splits)
  with c cp have first: "yields (case_sum (scanned (cp_value cp) ts) (scanned (cp_value cp) ts)) anything c (scan_round ?sc)"
    by (intro yields_scan_round_at) (auto simp: scanned_def scan_char_fields)
  have "yields (scanned (cp_value cp) ts) nothing c (rounds (Suc (length (cur_rest c))) scan_round ?sc)"
    unfolding rounds.simps
  proof (rule yields_bind_at [OF first])
    fix r c'
    assume run: "scan_round ?sc c = (Inr r, c')" and r: "case_sum (scanned (cp_value cp) ts) (scanned (cp_value cp) ts) r"
      and "later c c'"
    with yields_Inr [OF first run] have "length (cur_rest c') < length (cur_rest c)"
      by (simp add: later_moved)
    with r yields_rounds [OF yields_scan_rounds, where c = c' and n = "length (cur_rest c)"]
    show "yields (scanned (cp_value cp) ts) (\<lambda>y. \<not> anything r \<and> nothing y) c'
        (case r of Inl a' \<Rightarrow> rounds (length (cur_rest c)) scan_round a' | Inr b \<Rightarrow> return_p b)"
      by (cases r) (auto intro: yields_return)
  qed
  with c cp show ?thesis
    by (simp add: yields_def scan_traits_def with_cp_def loop_p_def)
qed

lemma scanned_space:
  "scanned cp ts sc \<Longrightarrow> scanned cp ts (add_trait Has_t (sc\<lparr>sc_chars := sc_chars sc @ [0x20, d], sc_advance_count := n\<rparr>))"
  by (auto simp: scanned_def add_trait_def)

lemma scan_past_space_ends:
  assumes "scanned cp ts sc" and "cur_end c = end_fault"
  shows "ends_in end_fault (\<lambda>r c'. scanned cp ts (fst r)) c (scan_past_space sc)"
  unfolding scan_past_space_def Let_def
  by (rule ends_intros | (rule ends_in_yields, rule yields_facts) | (rule ends_in_yields, rule yields_scan_on, rule scanned_space)
      | rule assms | (simp add: assms; fail))+

lemma yields_scan_value:
  assumes "cur_rest c = cp # cps" and "begin_traits (cp_value cp) = Some ts"
  shows "yields (scanned (cp_value cp) ts) nothing c (scan_value ts)"
  unfolding scan_value_def
  by (rule yields_ends_in)
    (rule ends_intros | (rule ends_in_yields, rule yields_scan_first, rule assms, rule assms)
      | (rule ends_in_weaken, rule scan_past_space_ends, assumption, assumption) | (simp add: assms; fail))+

definition value_ok :: "(string \<Rightarrow> bool) \<Rightarrow> toml_node \<Rightarrow> bool" where
  "value_ok to_double v \<longleftrightarrow> node_ok to_double v \<and> closed_node v"

definition found_ok :: "(string \<Rightarrow> bool) \<Rightarrow> toml_node option \<Rightarrow> bool" where
  "found_ok to_double r \<longleftrightarrow> (case r of None \<Rightarrow> True | Some v \<Rightarrow> value_ok to_double v)"

lemma yields_node_of:
  assumes "yields V P c m" and "\<And>x. V x \<Longrightarrow> value_ok d (f x)" and "\<And>x. V x \<Longrightarrow> P x"
  shows "yields (found_ok d) (\<lambda>r. r \<noteq> None) c (node_of f m)"
  unfolding node_of_def
  using assms by (auto intro!: yields_bind [OF assms(1)] yields_return simp: found_ok_def)

lemma yields_integer_node: "known_traits tr \<Longrightarrow> yields (found_ok d) (\<lambda>r. r \<noteq> None) c (node_of Tn_integer (parse_integer tr))"
  by (rule yields_node_of [OF yields_parse_integer]) (simp_all add: value_ok_def)

lemma known_traits_simps [simp]:
  "known_traits binary_traits" "known_traits octal_traits" "known_traits decimal_traits" "known_traits hexadecimal_traits"
  by (simp_all add: known_traits_def)

lemma yields_float_node:
  "begins_float c \<Longrightarrow> yields (found_ok d) (\<lambda>r. r \<noteq> None) c (node_of Tn_float (parse_float d))"
  by (rule yields_node_of [OF yields_parse_float]) (simp_all add: value_ok_def)

lemma value_ok_special: "\<forall>b s. f \<noteq> Tf_number b s \<Longrightarrow> value_ok d (Tn_float f)"
  by (cases f) (auto simp: value_ok_def)

lemma yields_inf_or_nan_node: "yields (found_ok d) (\<lambda>r. r \<noteq> None) c (node_of Tn_float parse_inf_or_nan)"
  by (rule yields_node_of [OF yields_parse_inf_or_nan]) (simp_all add: value_ok_special)

lemma yields_hex_float_node: "yields (found_ok d) (\<lambda>r. r \<noteq> None) c (node_of Tn_float parse_hex_float)"
  by (rule yields_node_of [OF yields_parse_hex_float [where V = nothing]]) simp_all

lemma yields_time_node: "yields (found_ok d) (\<lambda>r. r \<noteq> None) c (node_of Tn_time (parse_time False))"
  by (rule yields_node_of [OF yields_parse_time]) (simp_all add: value_ok_def)

lemma yields_date_node: "yields (found_ok d) (\<lambda>r. r \<noteq> None) c (node_of Tn_date (parse_date False))"
  by (rule yields_node_of [OF yields_parse_date]) (simp_all add: value_ok_def)

lemma yields_date_time_node: "yields (found_ok d) (\<lambda>r. r \<noteq> None) c (node_of (\<lambda>v. v) parse_date_time)"
  by (rule yields_node_of [OF yields_parse_date_time [of d]]) (simp_all add: value_ok_def)

lemma yields_boolean_node: "yields (found_ok d) (\<lambda>r. r \<noteq> None) c (node_of Tn_boolean parse_boolean)"
  by (rule yields_node_of [OF yields_parse_boolean]) (simp_all add: value_ok_def)

lemma yields_string_node: "yields (found_ok d) (\<lambda>r. r \<noteq> None) c (node_of (\<lambda>s. Tn_string (fst s)) parse_string)"
  by (rule yields_node_of [OF yields_parse_string]) (simp_all add: value_ok_def)

lemmas yields_nodes = yields_integer_node yields_float_node yields_inf_or_nan_node yields_hex_float_node yields_time_node
  yields_date_node yields_date_time_node yields_boolean_node yields_string_node

lemma yields_match_traits:
  "begins_float c \<Longrightarrow> yields (found_ok d) (\<lambda>r. r \<noteq> None) c (match_traits d sc)"
  unfolding match_traits_def Let_def
  by (rule yields_nodes | rule yields_intros | assumption | (simp add: found_ok_def; fail))+

lemma digit_node_ok:
  "is_decimal_digit cp \<Longrightarrow> value_ok d (Tn_integer (int cp - 0x30))"
  "is_decimal_digit cp \<Longrightarrow> value_ok d (Tn_integer ((int cp - 0x30) * (if negative then -1 else 1)))"
  by (auto simp: char_defs value_ok_def integer_ok_def)

lemma scanned_digit:
  assumes "scanned cp ts sc" and "begin_traits cp = Some ts"
  shows "length (sc_chars sc) = 1 \<Longrightarrow> has_any {Begins_digit} sc \<Longrightarrow> is_decimal_digit (sc_chars sc ! 0)"
    and "length (sc_chars sc) = 2 \<Longrightarrow> has_any {Begins_sign} sc \<Longrightarrow> has_any {Has_digits} sc \<Longrightarrow> is_decimal_digit (sc_chars sc ! 1)"
  using assms
  by (auto simp: scanned_def has_any_def begin_traits_def hd_conv_nth length_Suc_conv numeral_2_eq_2 char_defs split: if_splits)

lemma begin_traits_float: "cur_rest c = cp # cps \<Longrightarrow> begin_traits (cp_value cp) = Some ts \<Longrightarrow> begins_float c"
  by (auto simp: begins_float_def begin_traits_def split: if_splits)

lemma yields_parse_scanned:
  assumes c: "cur_rest c = cp # cps" "begin_traits (cp_value cp) = Some ts" and sc: "scanned (cp_value cp) ts sc"
  shows "yields (found_ok d) (\<lambda>r. r \<noteq> None) c (parse_scanned d sc)"
proof -
  note float = begin_traits_float [OF c]
  note digit = scanned_digit [OF sc c(2)]
  show ?thesis
    unfolding parse_scanned_def Let_def
    by (rule yields_nodes yields_match_traits float | rule yields_facts | rule yields_intros | (simp; fail)
      | (simp add: found_ok_def digit_node_ok digit del: One_nat_def; fail))+
qed

section \<open>Keys and values\<close>

lemma yields_key_segment [yields_facts]: "yields anything anything c key_segment"
  unfolding key_segment_def
proof (rule yields_here)
  fix cp cps assume c: "cur_rest c = cp # cps"
  have bare: "yields anything anything c parse_bare_key_segment" if "is_bare_key_character (cp_value cp)"
    unfolding parse_bare_key_segment_def
    by (rule yields_loop [where J = anything])
      (rule yields_with_cp | rule yields_facts | rule yields_intros | (use c that in simp; fail) | (simp add: sum.case_eq_if; fail))+
  show "yields anything anything c
    (if is_bare_key_character (cp_value cp) then parse_bare_key_segment
     else if is_string_delimiter (cp_value cp) then bind_p parse_string (\<lambda>(s, was_multi_line).
       if was_multi_line then set_error ''multi-line strings are prohibited in keys'' else return_p s)
     else set_error ''expected bare key starting character or string delimiter'')"
    by (rule yields_facts bare | rule yields_intros | (simp; fail))+
qed

lemma yields_parse_key [yields_facts]: "yields (\<lambda>key. key \<noteq> []) anything c parse_key"
  unfolding parse_key_def
  by (rule yields_loop [where J = anything])
    (rule yields_facts | rule yields_intros | (simp add: Let_def sum.case_eq_if; fail) | (simp only: Let_def))+

lemma yields_key_value_pair:
  assumes val: "\<And>c. yields (value_ok d) anything c value" and tbl: "entries_ok d tbl"
  shows "yields (\<lambda>tbl'. entries_ok d tbl' \<and> tbl' \<noteq> [] \<and> (list_all (\<lambda>kv. closed_node (snd kv)) tbl \<longrightarrow> list_all (\<lambda>kv. closed_node (snd kv)) tbl'))
    anything c (parse_key_value_pair_and_insert value tbl)"
proof -
  let ?V = "\<lambda>tbl'. entries_ok d tbl' \<and> tbl' \<noteq> [] \<and> (list_all (\<lambda>kv. closed_node (snd kv)) tbl \<longrightarrow> list_all (\<lambda>kv. closed_node (snd kv)) tbl')"
  have place: "yields (\<lambda>put. \<forall>val. value_ok d val \<longrightarrow> ?V (put val)) nothing c (lift_p (key_place key tbl))" if "key \<noteq> []" for key c
    using key_place_ok [OF tbl that] by (intro yields_lift) (auto simp: value_ok_def split: sum.splits)
  show ?thesis
    unfolding parse_key_value_pair_and_insert_def
    by (rule yields_facts | (rule place, assumption) | rule val | rule yields_intros | rule val [THEN yields_weaken]
        | (simp; fail))+
qed

lemma yields_array_round:
  assumes val: "\<And>c. yields (value_ok d) anything c value" and "list_all (value_ok d) (fst st)"
  shows "yields (case_sum (\<lambda>st. list_all (value_ok d) (fst st)) (list_all (value_ok d))) anything c (array_round value st)"
proof (cases st)
  case (Pair arr prev)
  with assms(2) have arr: "list_all (value_ok d) arr" by simp
  show ?thesis
    unfolding Pair array_round_def prod.case
    by (rule yields_facts | rule val | rule yields_intros | (simp add: arr; fail))+
qed

lemma yields_parse_array:
  assumes val: "\<And>c. yields (value_ok d) anything c value"
  shows "yields (value_ok d) anything c (parse_array value)"
proof -
  have elems: "yields (list_all (value_ok d)) nothing c (loop_p (array_round value) ([], Pt_none))" for c
    by (rule yields_loop [where J = "\<lambda>st. list_all (value_ok d) (fst st)"])
      (auto simp: sum.case_eq_if intro!: yields_array_round [OF val, THEN yields_weaken])
  show ?thesis
    unfolding parse_array_def
    by (rule yields_facts elems | rule yields_intros | (simp; fail) | (simp add: value_ok_def list_all_iff; fail))+
qed

definition closed_entries :: "(string \<Rightarrow> bool) \<Rightarrow> toml_entries \<Rightarrow> bool" where
  "closed_entries d t \<longleftrightarrow> entries_ok d t \<and> list_all (\<lambda>kv. closed_node (snd kv)) t"

lemma yields_inline_table_round:
  assumes val: "\<And>c. yields (value_ok d) anything c value" and "closed_entries d (fst st)"
  shows "yields (case_sum (\<lambda>st. closed_entries d (fst st)) (closed_entries d)) anything c (inline_table_round value st)"
proof (cases st)
  case (Pair tbl prev)
  with assms(2) have tbl: "closed_entries d tbl" by simp
  then have ok: "entries_ok d tbl" by (simp add: closed_entries_def)
  show ?thesis
    unfolding Pair inline_table_round_def prod.case
    by (rule yields_facts | rule yields_key_value_pair [OF val ok] | rule yields_intros
        | (use tbl in \<open>simp add: closed_entries_def; fail\<close>))+
qed

lemma yields_parse_inline_table:
  assumes val: "\<And>c. yields (value_ok d) anything c value"
  shows "yields (value_ok d) anything c (parse_inline_table value)"
proof -
  have elems: "yields (closed_entries d) nothing c (loop_p (inline_table_round value) ([], Pt_none))" for c
    by (rule yields_loop [where J = "\<lambda>st. closed_entries d (fst st)"])
      (auto simp: sum.case_eq_if closed_entries_def [of d "[]"] intro!: yields_inline_table_round [OF val, THEN yields_weaken])
  show ?thesis
    unfolding parse_inline_table_def
    by (rule yields_facts elems | rule yields_intros | (simp; fail) | (simp add: value_ok_def closed_entries_def; fail))+
qed

lemma yields_parse_value_at:
  assumes val: "\<And>c. yields (value_ok d) anything c value"
  shows "yields (value_ok d) anything c (parse_value_at d value)"
proof -
  have arr: "yields (found_ok d) (\<lambda>r. r \<noteq> None) c (node_of (\<lambda>v. v) (parse_array value))" for c
    by (rule yields_node_of [OF yields_parse_array [OF val]]) simp_all
  have tbl: "yields (found_ok d) (\<lambda>r. r \<noteq> None) c (node_of (\<lambda>v. v) (parse_inline_table value))" for c
    by (rule yields_node_of [OF yields_parse_inline_table [OF val]]) simp_all
  have prefix: "yields (found_ok d) (\<lambda>r. r \<noteq> None) c (parse_value_known_prefixes d value)"
    unfolding parse_value_known_prefixes_def
  proof (rule yields_here)
    fix cp cps assume c: "cur_rest c = cp # cps"
    then have dot: "cp_value cp = 0x2E \<Longrightarrow> begins_float c" by (simp add: begins_float_def)
    show "yields (found_ok d) (\<lambda>r. r \<noteq> None) c
      (if cp_value cp = 0x5B then node_of (\<lambda>v. v) (parse_array value)
       else if cp_value cp = 0x7B then node_of (\<lambda>v. v) (parse_inline_table value)
       else if cp_value cp = 0x2E then node_of Tn_float (parse_float d)
       else if is_string_delimiter (cp_value cp) then node_of (\<lambda>s. Tn_string (fst s)) parse_string
       else if cp_value cp \<in> {0x46, 0x66, 0x54, 0x74} then node_of Tn_boolean parse_boolean
       else if cp_value cp \<in> {0x49, 0x69, 0x4E, 0x6E} then node_of Tn_float parse_inf_or_nan
       else return_p None)"
      by (rule arr tbl yields_nodes yields_intros | erule dot | (simp add: found_ok_def; fail))+
  qed
  have rest: "yields (found_ok d) (\<lambda>r. r \<noteq> None) c (case begin_traits (cp_value cp) of None \<Rightarrow> return_p None
      | Some ts \<Rightarrow> bind_p (scan_value ts) (parse_scanned d))" if c: "cur_rest c = cp # cps" for cp cps
  proof (cases "begin_traits (cp_value cp)")
    case (Some ts)
    have "scan_value ts c = (Inr sc, c') \<Longrightarrow> c' = c" for sc c'
      by (auto simp: scan_value_def runs go_back_to_def assumption_broken_def split: if_splits)
    with Some show ?thesis
      by (auto intro!: yields_bind_at [OF yields_scan_value [OF c Some]] yields_weaken [OF yields_parse_scanned [OF c Some]])
  qed (simp add: yields_return found_ok_def)
  have stay: "parse_value_known_prefixes d value c = (Inr None, c') \<Longrightarrow> c' = c" for c'
    by (auto simp: parse_value_known_prefixes_def node_of_def runs split: if_splits)
  have found: "yields (value_ok d) anything c
      (bind_p (parse_value_known_prefixes d value) (\<lambda>v. case v of
         Some val \<Rightarrow> return_p val
       | None \<Rightarrow> bind_p (case begin_traits (cp_value cp) of None \<Rightarrow> return_p None
             | Some ts \<Rightarrow> bind_p (scan_value ts) (parse_scanned d)) (\<lambda>v.
           case v of Some val \<Rightarrow> return_p val | None \<Rightarrow> set_error ''could not determine value type'')))"
    if c: "cur_rest c = cp # cps" for cp cps
  proof (rule yields_bind_at [OF prefix])
    fix v c'
    assume run: "parse_value_known_prefixes d value c = (Inr v, c')" and "found_ok d v"
    show "yields (value_ok d) (\<lambda>y. \<not> v \<noteq> None \<and> anything y) c' (case v of
         Some val \<Rightarrow> return_p val
       | None \<Rightarrow> bind_p (case begin_traits (cp_value cp) of None \<Rightarrow> return_p None
             | Some ts \<Rightarrow> bind_p (scan_value ts) (parse_scanned d)) (\<lambda>v.
           case v of Some val \<Rightarrow> return_p val | None \<Rightarrow> set_error ''could not determine value type''))"
    proof (cases v)
      case None
      with stay run have "c' = c" by simp
      then show ?thesis
        unfolding None option.case
        by (simp only:)
          (rule yields_bind [OF rest [OF c]], (rule yields_intros | (simp add: found_ok_def; fail))+)
    qed (use \<open>found_ok d v\<close> in \<open>simp add: found_ok_def yields_return\<close>)
  qed
  show ?thesis
    unfolding parse_value_at_def
    by (rule yields_here) (rule found yields_intros | assumption)+
qed

lemma yields_parse_value: "yields (value_ok d) anything c (parse_value levels d)"
proof (induction levels arbitrary: c)
  case 0
  show ?case unfolding parse_value.simps by (rule yields_intros)+
next
  case (Suc levels)
  show ?case
    unfolding parse_value.simps by (rule yields_parse_value_at [OF Suc.IH] yields_intros)+
qed

section \<open>Documents\<close>

lemma yields_rest_of_line [yields_facts]: "yields anything nothing c rest_of_line"
  unfolding rest_of_line_def
  by (rule yields_facts | rule yields_intros | (simp; fail))+

lemma yields_read_table_header: "yields (\<lambda>h. snd h \<noteq> []) anything c read_table_header"
  unfolding read_table_header_def
  by (rule yields_bind [where V = anything and P = nothing and m = "if _ then _ else _"] yields_then [where m = "if _ then _ else _" and V = anything and P = nothing]
      | rule yields_facts | rule yields_intros | (simp; fail))+

definition document_ok :: "(string \<Rightarrow> bool) \<Rightarrow> toml_entries \<times> string list \<Rightarrow> bool" where
  "document_ok d st \<longleftrightarrow> entries_ok d (fst st) \<and> (\<exists>tbl. current_table (snd st) (fst st) = Some tbl)"

lemma yields_parse_table_header:
  assumes "entries_ok d root"
  shows "yields (document_ok d) anything c (parse_table_header root)"
proof -
  have place: "yields (\<lambda>root'. document_ok d (root', key)) nothing c (lift_p (open_table is_arr key root))"
    if "key \<noteq> []" for is_arr key c
    using open_table_ok [OF assms that, of is_arr] by (intro yields_lift) (auto simp: document_ok_def split: sum.splits)
  show ?thesis
    unfolding parse_table_header_def
    by (rule yields_read_table_header | (rule place, use nothing in simp) | rule yields_intros | (simp; fail))+
qed

lemma yields_document_round:
  assumes "document_ok d st"
  shows "yields (document_ok d) anything c (document_round d st)"
proof -
  obtain root path tbl where st: "st = (root, path)" and root: "entries_ok d root" and tbl: "current_table path root = Some tbl"
    using assms by (cases st) (auto simp: document_ok_def)
  have ok: "entries_ok d tbl" using current_table_ok [OF root tbl] .
  note pair = yields_key_value_pair [OF yields_parse_value ok]
  have new: "document_ok d (update_table path new root, path)" if "entries_ok d new" "new \<noteq> []" for new
    using update_table_ok [OF root tbl that] by (simp add: document_ok_def)
  show ?thesis
    unfolding document_round_def st prod.case tbl option.case
    by (rule yields_facts | rule yields_parse_table_header [OF root, THEN yields_weaken] | rule pair | rule yields_intros
        | (simp add: new; fail) | (simp add: assms [unfolded st]; fail))+
qed

lemma yields_parse_document: "yields (entries_ok d) nothing c (parse_document d)"
  unfolding parse_document_def
  by (rule yields_loop [where J = "document_ok d"])
    (rule yields_intros | rule yields_document_round | assumption | (simp add: document_ok_def; fail))+

lemma toml_parse_yields:
  "case toml_parse d doc of Inl e \<Rightarrow> parse_fault e | Inr root \<Rightarrow> entries_ok d root"
proof -
  have "case rd_all (utf8_reader_new doc) of (cps, e) \<Rightarrow> (case e of None \<Rightarrow> True | Some e \<Rightarrow> parse_fault e)"
    using rd_all_new [of doc] by (auto split: if_splits)
  then show ?thesis
    using yields_parse_document [of d "\<lparr>cur_rest = fst (rd_all (utf8_reader_new doc)), cur_end = snd (rd_all (utf8_reader_new doc))\<rparr>"]
    by (auto simp: toml_parse_def Let_def first_cursor_def yields_def split: prod.splits sum.splits list.splits option.splits)
qed

text \<open>
  C19: Parsing ends, and in a way the library knows. Whatever the bytes of the text, \<^verbatim>\<open>toml::parse\<close> throws a
  \<^verbatim>\<open>parse_error\<close>, runs into one of the two marks for what the library takes for impossible, or gives a table: no loop
  goes round without reading, and no assertion of the parser about its arrays of tables is ever broken. Every table of
  the document is well-formed: its keys are in order and each there once, integers fit 64 bits, dates and times are
  ones of the calendar, a number's text is one the standard library reads, arrays of tables are not empty and hold
  tables with headers, and nothing with a header is inside an inline table or a plain array.
\<close>

theorem toml_parse_outcome:
  "case toml_parse to_double doc of
     Inr root \<Rightarrow> node_ok to_double (Tn_table Tk_header root)
   | Inl e \<Rightarrow> e \<in> range Toml_exception \<union> {Undefined_behaviour ''TOML_ASSERT_ASSUME'', Undefined_behaviour ''TOML_UNREACHABLE''}"
  using toml_parse_yields [of to_double doc]
  by (auto simp: parse_fault_def split: sum.splits fault.splits)

text \<open>
  C20: What a document says is not taken back. A round of the document loop (a blank, a header or a key-value pair)
  leaves every table and every value of the document where it was: values, inline tables and plain arrays as they
  were, tables as tables, and an array of tables as one that is not shorter.
\<close>

theorem document_round_keeps:
  assumes "document_ok to_double (root, path)"
    and "document_round to_double (root, path) c = (Inr (root', path'), c')"
    and "node_at place (Tn_table Tk_header root) = Some v"
  shows "\<exists>w. node_at place (Tn_table Tk_header root') = Some w \<and> kept v w"
proof -
  obtain tbl where root: "entries_ok to_double root" and tbl: "current_table path root = Some tbl"
    using assms(1) by (auto simp: document_ok_def)
  have "keeps_nodes (Tn_table Tk_header root) (Tn_table Tk_header root')"
    using assms(2)
    by (auto simp: document_round_def runs tbl parse_table_header_def parse_key_value_pair_and_insert_def if_p_def
        split: if_splits intro: open_table_keeps [OF root] update_table_keeps [OF root tbl] key_place_keeps)
  with assms(3) show ?thesis by (auto simp: keeps_nodes_def)
qed

text \<open>A text of ASCII characters, ahead of the cursor.\<close>

definition ascii_cursor :: "string \<Rightarrow> cursor" where
  "ascii_cursor s = \<lparr>cur_rest = map (\<lambda>b. \<lparr>cp_value = byte_of b, cp_bytes = [b]\<rparr>) s, cur_end = None\<rparr>"

lemma header_round:
  "document_round (\<lambda>_. True) ([(''a'', Tn_integer 1)], []) (ascii_cursor ''[b]'') =
     (Inr ([(''a'', Tn_integer 1), (''b'', Tn_table Tk_header [])], [''b'']), ascii_cursor [])"
  by code_simp

theorem document_round_keeps_witness:
  "\<exists>w. node_at [Key ''a''] (Tn_table Tk_header [(''a'', Tn_integer 1), (''b'', Tn_table Tk_header [])]) = Some w
     \<and> kept (Tn_integer 1) w"
proof (rule document_round_keeps [OF _ header_round])
  show "document_ok (\<lambda>_. True) ([(''a'', Tn_integer 1)], [])"
    by (simp add: document_ok_def entries_ok_def map_ok_def integer_ok_def)
  show "node_at [Key ''a''] (Tn_table Tk_header [(''a'', Tn_integer 1)]) = Some (Tn_integer 1)" by simp
qed

end
