(* ===== verification/Toml_Text.thy ===== *)
theory Toml_Text
  imports Toml_Outcome
begin

text \<open>
  Reading what is written: a document of sections with texts and integers, as the configuration files of the
  repository are, gives exactly the tables it was written from. The lemmas run the parser over a text of which the first
  characters are known.
\<close>

named_theorems text_steps "the parser, run over known characters"

section \<open>Characters ahead\<close>

lemma ascii_cursor_steps [text_steps]:
  "with_cp m f (ascii_cursor []) = m (ascii_cursor [])"
  "with_cp m f (ascii_cursor (b # s)) = f (byte_of b) (ascii_cursor (b # s))"
  "here f (ascii_cursor (b # s)) = f (byte_of b) (ascii_cursor (b # s))"
  "advance (ascii_cursor (b # s)) = (Inr (), ascii_cursor s)"
  "cp_text (ascii_cursor (b # s)) = [b]"
  "length (cur_rest (ascii_cursor s)) = length s"
  by (simp_all add: ascii_cursor_def with_cp_def here_def advance_def cp_text_def split: list.splits)

lemma ascii_cursor_moves [text_steps]:
  "not_eof (ascii_cursor (b # s)) = (Inr (), ascii_cursor (b # s))"
  "advance_not_eof (ascii_cursor (b # b' # s)) = (Inr (), ascii_cursor (b' # s))"
  "first_byte (ascii_cursor (b # s)) = b"
  by (simp_all add: not_eof_def advance_not_eof_def first_byte_def text_steps prog_simps)

lemma at_eof_text [text_steps]: "at_eof (ascii_cursor s) = (Inr (s = []), ascii_cursor s)"
  by (cases s) (simp_all add: at_eof_def text_steps prog_simps)

lemma go_back_to_text [text_steps]:
  "n + (length s - length r) \<le> history_buffer_size \<Longrightarrow> go_back_to n (ascii_cursor s) (ascii_cursor r) = (Inr (), ascii_cursor s)"
  by (simp add: go_back_to_def text_steps prog_simps)

text \<open>The end of a line: a line feed or the end of the text.\<close>

definition line_ends :: "string \<Rightarrow> bool" where
  "line_ends e \<longleftrightarrow> e = [] \<or> hd e = CHR 0x0A"

lemma line_endsE:
  assumes "line_ends e"
  obtains "e = []" | s where "e = CHR 0x0A # s"
  using assms by (cases e) (auto simp: line_ends_def)

lemma line_ends_simps [simp]: "line_ends []" "line_ends (CHR 0x0A # s)"
  by (simp_all add: line_ends_def)

lemma loop_text: "loop_p body a (ascii_cursor s) = rounds (Suc (length s)) body a (ascii_cursor s)"
  by (simp add: loop_p_def text_steps)

text \<open>A character that no skipping of blanks takes.\<close>

definition visible :: "char \<Rightarrow> bool" where
  "visible b \<longleftrightarrow> byte_of b < 0x80 \<and> b \<noteq> CHR 0x20 \<and> b \<noteq> CHR 0x09"

lemma visible_byte: "visible b \<Longrightarrow> is_horizontal_whitespace (byte_of b) = Inr False"
proof -
  assume "visible b"
  then have "byte_of b < 0x80" "byte_of b \<noteq> byte_of (CHR 0x20)" "byte_of b \<noteq> byte_of (CHR 0x09)"
    unfolding visible_def by (simp_all only: of_char_eq_iff simp_thms)
  then show ?thesis by simp
qed

lemma leading_whitespace_text [text_steps]:
  "visible b \<Longrightarrow> consume_leading_whitespace (ascii_cursor (b # s)) = (Inr False, ascii_cursor (b # s))"
  "visible b \<Longrightarrow> consume_leading_whitespace (ascii_cursor (CHR '' '' # b # s)) = (Inr True, ascii_cursor (b # s))"
  "consume_leading_whitespace (ascii_cursor []) = (Inr False, ascii_cursor [])"
  by (simp_all add: consume_leading_whitespace_def loop_text text_steps visible_byte prog_simps char_defs)

section \<open>Keys\<close>

definition bare_key :: "string \<Rightarrow> bool" where
  "bare_key w \<longleftrightarrow> w \<noteq> [] \<and> list_all (\<lambda>b. byte_of b < 0x80 \<and> is_bare_key_character (byte_of b)) w"

lemma bare_rounds:
  assumes "\<not> is_bare_key_character (byte_of b)"
  shows "list_all (\<lambda>b. is_bare_key_character (byte_of b)) w \<Longrightarrow> length (w @ b # s) < n \<Longrightarrow>
     rounds n (\<lambda>segment. with_cp (return_p (Inr segment)) (\<lambda>cp.
       if \<not> is_bare_key_character cp then return_p (Inr segment)
       else bind_p (gets_p cp_text) (\<lambda>bytes. then_p advance (return_p (Inl (segment @ bytes)))))) segment (ascii_cursor (w @ b # s))
     = (Inr (segment @ w), ascii_cursor (b # s))"
proof (induction w arbitrary: n segment)
  case Nil
  then obtain m where "n = Suc m" by (cases n) auto
  with assms show ?case by (simp add: text_steps prog_simps)
next
  case (Cons c w)
  then obtain m where n: "n = Suc m" by (cases n) auto
  with Cons have "length (w @ b # s) < m" by simp
  with Cons.IH Cons.prems n show ?case by (simp add: text_steps prog_simps)
qed

lemma bare_key_text [text_steps]:
  assumes "bare_key w" and "\<not> is_bare_key_character (byte_of b)"
  shows "key_segment (ascii_cursor (w @ b # s)) = (Inr w, ascii_cursor (b # s))"
proof -
  obtain c w' where w: "w = c # w'" and "is_bare_key_character (byte_of c)"
    using assms(1) by (cases w) (auto simp: bare_key_def)
  moreover have "parse_bare_key_segment (ascii_cursor (w @ b # s)) = (Inr w, ascii_cursor (b # s))"
    using assms unfolding parse_bare_key_segment_def loop_text
    by (subst bare_rounds) (auto simp: bare_key_def list_all_iff)
  ultimately show ?thesis by (simp add: key_segment_def text_steps)
qed

lemma key_text [text_steps]:
  assumes "bare_key w"
  shows "parse_key (ascii_cursor (w @ CHR '' '' # CHR ''='' # s)) = (Inr [w], ascii_cursor (CHR ''='' # s))"
    and "parse_key (ascii_cursor (w @ CHR '']'' # s)) = (Inr [w], ascii_cursor (CHR '']'' # s))"
  using assms by (simp_all add: parse_key_def loop_text text_steps visible_def prog_simps char_defs Let_def)

section \<open>Texts\<close>

text \<open>A character that stands for itself between double quotes.\<close>

definition plain_char :: "char \<Rightarrow> bool" where
  "plain_char b \<longleftrightarrow> 0x20 \<le> byte_of b \<and> byte_of b < 0x7F \<and> byte_of b \<noteq> 0x22 \<and> byte_of b \<noteq> 0x5C"

definition quoted_text :: "string \<Rightarrow> string" where
  "quoted_text str = CHR 0x22 # str @ [CHR 0x22]"

lemma plain_round_text [text_steps]:
  "plain_char b \<Longrightarrow> plain_round False st (ascii_cursor (b # s)) = (Inr (Inl (ss_append [b] st)), ascii_cursor s)"
  "plain_round False st (ascii_cursor (CHR 0x22 # s)) = (Inr (Inr (ss_str st)), ascii_cursor s)"
  by (simp_all add: plain_round_def plain_char_def text_steps prog_simps char_defs)

lemma string_rounds:
  "list_all plain_char str \<Longrightarrow> \<not> ss_escaped st \<Longrightarrow> length (str @ CHR 0x22 # s) < n \<Longrightarrow>
     rounds n (\<lambda>st. with_cp (set_error ''encountered end-of-file'') (\<lambda>_.
         if ss_escaped st then escaped_round False st else plain_round False st)) st (ascii_cursor (str @ CHR 0x22 # s))
     = (Inr (ss_str st @ str), ascii_cursor s)"
proof (induction str arbitrary: n st)
  case Nil
  then obtain m where "n = Suc m" by (cases n) auto
  with Nil show ?case by (simp add: text_steps prog_simps)
next
  case (Cons b str)
  then obtain m where n: "n = Suc m" by (cases n) auto
  with Cons.prems Cons.IH [of "ss_append [b] st" m] show ?case
    by (simp add: text_steps prog_simps ss_append_def)
qed

lemma basic_string_text [text_steps]:
  assumes "list_all plain_char str"
  shows "parse_basic_string False (ascii_cursor (CHR 0x22 # str @ CHR 0x22 # s)) = (Inr str, ascii_cursor s)"
proof -
  have "advance_not_eof (ascii_cursor (CHR 0x22 # str @ CHR 0x22 # s)) = (Inr (), ascii_cursor (str @ CHR 0x22 # s))"
    by (cases str) (simp_all add: text_steps)
  then show ?thesis
    unfolding parse_basic_string_def
    by (simp add: skip_first_line_break_def loop_text string_rounds [OF assms] text_steps prog_simps del: rounds.simps)
qed

lemma string_text:
  assumes "list_all plain_char str" and "line_ends e"
  shows "parse_string (ascii_cursor (quoted_text str @ e)) = (Inr (str, False), ascii_cursor e)"
proof (cases str)
  case Nil
  with assms(2) basic_string_text [of "[]" e] show ?thesis
    by (elim line_endsE)
      (simp_all add: parse_string_def parse_quoted_def quoted_text_def history_buffer_size_def text_steps prog_simps)
next
  case (Cons c str')
  then have "byte_of c \<noteq> 0x22" using assms(1) by (simp add: plain_char_def)
  moreover obtain d t where "str' @ CHR 0x22 # e = d # t" by (cases "str' @ CHR 0x22 # e") auto
  moreover from this have "length (str' @ CHR 0x22 # e) = Suc (length t)" by simp
  ultimately show ?thesis
    using basic_string_text [OF assms(1), of e] unfolding Cons
    by (simp add: parse_string_def parse_quoted_def quoted_text_def history_buffer_size_def text_steps prog_simps)
qed

section \<open>Integers\<close>

definition int_text :: "int \<Rightarrow> string" where
  "int_text i = (if i < 0 then CHR ''-'' # decimal (nat (- i)) else decimal (nat i))"

lemma digit_byte: "is_digit_char d \<longleftrightarrow> is_decimal_digit (byte_of d)"
  by (auto simp: is_digit_char_def is_decimal_digit_def Let_def)

text \<open>The value of a run of digits.\<close>

lemma integer_sum_digits:
  "integer_sum decimal_traits (rev ds) place result = result + place * of_nat (digits_val ds)"
proof (induction ds arbitrary: place result rule: rev_induct)
  case Nil
  then show ?case by (simp add: digits_val_def)
next
  case (snoc d ds)
  then show ?case
    by (simp add: digits_val_append digit_value_def decimal_traits_def digit_val_def algebra_simps)
qed

lemma length_decimal_le: "n < 10 ^ k \<Longrightarrow> 0 < k \<Longrightarrow> length (decimal n) \<le> k"
proof (induction n arbitrary: k rule: decimal.induct)
  case (1 n)
  show ?case
  proof (cases "n < 10")
    case True
    with 1 show ?thesis by (subst decimal.simps) simp
  next
    case False
    with "1.prems" obtain k' where k: "k = Suc k'" "0 < k'" by (cases k; cases "k - 1") auto
    with "1.prems" have "n div 10 < 10 ^ k'" by (simp add: less_mult_imp_div_less mult.commute)
    from "1.IH" [OF False this k(2)] False k show ?thesis by (subst decimal.simps) simp
  qed
qed

lemma decimal_digit: "n < 10 \<Longrightarrow> decimal n = [digit_char n]"
  by (subst decimal.simps) simp

lemma decimal_first: "0 < n \<Longrightarrow> hd (decimal n) \<noteq> CHR ''0''"
proof (induction n rule: decimal.induct)
  case (1 n)
  show ?case
  proof (cases "n < 10")
    case True
    with "1.prems" have "byte_of (digit_char n) \<noteq> byte_of (CHR ''0'')" by simp
    then have "digit_char n \<noteq> CHR ''0''" by metis
    with True show ?thesis by (simp add: decimal_digit)
  next
    case False
    with 1 show ?thesis by (subst decimal.simps) simp
  qed
qed

lemma length_decimal_digit: "length (decimal n) = Suc 0 \<longleftrightarrow> n < 10"
  by (subst decimal.simps) simp

lemma integer_value_text:
  assumes "n < 2 ^ 63 + (if negative then 1 else 0)"
  shows "integer_value decimal_traits negative (decimal n) = Inr (if negative then - int n else int n)"
proof (cases "n < 10")
  case True
  then show ?thesis
    by (simp add: integer_value_def decimal_digit digit_value_def decimal_traits_def)
next
  case False
  let ?w = "of_nat n :: 64 word"
  have small: "n < 10 ^ 19" and unat: "unat ?w = n"
    using assms by (auto simp: unat_of_nat split: if_splits)
  then have length: "length (decimal n) \<le> 19" by (intro length_decimal_le) simp_all
  have max: "unat i64_max = 2 ^ 63 - 1" "unat (i64_max + 1) = 2 ^ 63" by (simp_all add: i64_max_def)
  have "in_range negative ?w = Inr (if negative then - int n else int n)"
  proof (cases "n = 2 ^ 63")
    case True
    with assms have "negative" by (simp split: if_splits)
    moreover have "?w = i64_max + 1" using True by (simp add: i64_max_def)
    ultimately show ?thesis using True by (simp add: in_range_def i64_max_def)
  next
    case False
    with assms have less: "n < 2 ^ 63" by (simp split: if_splits)
    then have "sint ?w = int n"
      using unat by (simp add: sint_uint uint_nat signed_take_bit_int_eq_self)
    moreover have "?w \<le> i64_max + (if negative then 1 else 0)" and "?w \<noteq> i64_max + 1"
      using less unat max by (auto simp: word_le_nat_alt)
    ultimately show ?thesis by (simp add: in_range_def not_less [symmetric])
  qed
  moreover have "length (decimal n) \<noteq> 1" and "hd (decimal n) \<noteq> CHR ''0''"
    using False decimal_first [of n] by (simp_all add: length_decimal_digit)
  ultimately show ?thesis
    using length integer_sum_digits [of "decimal n" 1 0]
    by (simp add: integer_value_def decimal_traits_def Let_def)
qed

section \<open>Telling the type\<close>

lemma digit_classes:
  assumes "is_decimal_digit cp"
  shows "is_value_terminator cp = Inr False" and "is_control_character cp = False"
    and "cp \<noteq> 0x5F" "cp \<noteq> 0x2B" "cp \<noteq> 0x2D" "cp \<noteq> 0x2E" "cp \<noteq> 0x5B" "cp \<noteq> 0x7B"
    and "\<not> is_string_delimiter cp" and "cp < 0x3A"
  using assms by (auto simp: char_defs)

lemma value_ends_text:
  "line_ends e \<Longrightarrow> no_terminator (ascii_cursor e) = (Inr False, ascii_cursor e)"
  "is_value_terminator (byte_of b) = Inr False \<Longrightarrow> no_terminator (ascii_cursor (b # s)) = (Inr True, ascii_cursor (b # s))"
  by (auto elim!: line_endsE simp: no_terminator_def text_steps prog_simps)

lemma scan_digit:
  assumes "is_decimal_digit (byte_of d)" and "sc_advance_count sc < 126"
    and "line_ends r \<or> is_decimal_digit (byte_of (hd r))"
  defines "sc' \<equiv> sc\<lparr>sc_chars := sc_chars sc @ [byte_of d], sc_traits := insert Has_digits (sc_traits sc),
     sc_advance_count := sc_advance_count sc + 1, sc_eof := (r = [])\<rparr>"
  shows "scan_round sc (ascii_cursor (d # r)) = (Inr (if line_ends r then Inr sc' else Inl sc'), ascii_cursor r)"
proof (cases "line_ends r")
  case True
  with assms digit_classes [OF assms(1)] show ?thesis
    by (auto simp: scan_round_def scan_char_def trait_of_def add_trait_def history_buffer_size_def Let_def text_steps prog_simps
        value_ends_text)
next
  case False
  with assms(3) obtain b s where r: "r = b # s" "is_decimal_digit (byte_of b)" by (cases r) auto
  with False assms digit_classes [OF assms(1)] digit_classes(1) [OF r(2)] show ?thesis
    by (auto simp: scan_round_def scan_char_def trait_of_def add_trait_def history_buffer_size_def Let_def text_steps prog_simps
        value_ends_text)
qed

lemma scan_rounds:
  "list_all (\<lambda>d. is_decimal_digit (byte_of d)) ds \<Longrightarrow> ds \<noteq> [] \<Longrightarrow> line_ends e \<Longrightarrow> sc_advance_count sc + length ds < 127 \<Longrightarrow>
     length (ds @ e) < n \<Longrightarrow>
     rounds n scan_round sc (ascii_cursor (ds @ e)) =
       (Inr (sc\<lparr>sc_chars := sc_chars sc @ map byte_of ds, sc_traits := insert Has_digits (sc_traits sc),
          sc_advance_count := sc_advance_count sc + length ds, sc_eof := (e = [])\<rparr>), ascii_cursor e)"
proof (induction ds arbitrary: n sc)
  case (Cons d ds)
  then obtain m where n: "n = Suc m" by (cases n) auto
  have d: "is_decimal_digit (byte_of d)" using Cons.prems(1) by simp
  show ?case
  proof (cases ds)
    case Nil
    with Cons.prems scan_digit [OF d, of sc e] show ?thesis
      by (simp add: n prog_simps)
  next
    case (Cons c cs)
    have c: "is_decimal_digit (byte_of c)" using Cons.prems(1) Cons by simp
    then have "\<not> line_ends (ds @ e)" using Cons by (auto simp: line_ends_def is_decimal_digit_def)
    then have "scan_round sc (ascii_cursor (d # ds @ e)) =
      (Inr (Inl (sc\<lparr>sc_chars := sc_chars sc @ [byte_of d], sc_traits := insert Has_digits (sc_traits sc),
         sc_advance_count := sc_advance_count sc + 1, sc_eof := False\<rparr>)), ascii_cursor (ds @ e))"
      using scan_digit [OF d, of sc "ds @ e"] Cons.prems(4) Cons c by simp
    with Cons.IH Cons.prems Cons show ?thesis by (simp add: n prog_simps)
  qed
qed simp

lemma scan_value_text:
  assumes "is_value_terminator (byte_of b) = Inr False"
    and "loop_p scan_round \<lparr>sc_traits = ts, sc_chars = [], sc_advance_count = 0, sc_eof = False\<rparr> (ascii_cursor (b # s)) = (Inr sc, ascii_cursor r)"
    and "insert Begins_zero (sc_traits sc) \<noteq> insert Has_minus bzero_msk"
    and "length (b # s) - length r \<le> history_buffer_size"
  shows "scan_value ts (ascii_cursor (b # s)) = (Inr sc, ascii_cursor (b # s))"
  using assms by (simp add: scan_value_def scan_traits_def scan_past_space_def text_steps prog_simps)

lemma scan_digits:
  assumes "list_all (\<lambda>d. is_decimal_digit (byte_of d)) ds" and "ds \<noteq> []" and "length ds < 126" and "line_ends e"
  shows "Has_minus \<notin> ts \<Longrightarrow> scan_value ts (ascii_cursor (ds @ e)) =
      (Inr \<lparr>sc_traits = insert Has_digits ts, sc_chars = map byte_of ds, sc_advance_count = length ds, sc_eof = (e = [])\<rparr>,
        ascii_cursor (ds @ e))" (is "_ \<Longrightarrow> ?positive")
    and "scan_value {Begins_sign} (ascii_cursor (CHR ''-'' # ds @ e)) =
      (Inr \<lparr>sc_traits = {Begins_sign, Has_minus, Has_digits}, sc_chars = 0x2D # map byte_of ds,
          sc_advance_count = Suc (length ds), sc_eof = (e = [])\<rparr>, ascii_cursor (CHR ''-'' # ds @ e))" (is ?negative)
proof -
  obtain d ds' where ds: "ds = d # ds'" and d: "is_decimal_digit (byte_of d)" using assms by (cases ds) auto
  have "loop_p scan_round \<lparr>sc_traits = ts, sc_chars = [], sc_advance_count = 0, sc_eof = False\<rparr>
      (ascii_cursor (ds @ e)) =
    (Inr \<lparr>sc_traits = insert Has_digits ts, sc_chars = map byte_of ds, sc_advance_count = length ds, sc_eof = (e = [])\<rparr>,
      ascii_cursor e)"
    using assms unfolding loop_text by (subst scan_rounds) (simp_all add: insert_commute)
  moreover have "length (ds @ e) - length e \<le> history_buffer_size" using assms(3) by (simp add: history_buffer_size_def)
  ultimately show "Has_minus \<notin> ts \<Longrightarrow> ?positive"
    unfolding ds append_Cons
    by (intro scan_value_text) (auto simp: digit_classes [OF d] bzero_msk_def bdigit_msk_def)
  have "scan_round \<lparr>sc_traits = {Begins_sign}, sc_chars = [], sc_advance_count = 0, sc_eof = False\<rparr>
      (ascii_cursor (CHR ''-'' # ds @ e)) =
    (Inr (Inl \<lparr>sc_traits = {Has_minus, Begins_sign}, sc_chars = [0x2D], sc_advance_count = 1, sc_eof = False\<rparr>),
      ascii_cursor (ds @ e))"
    by (simp add: ds scan_round_def scan_char_def trait_of_def add_trait_def history_buffer_size_def Let_def text_steps prog_simps
        value_ends_text digit_classes [OF d] char_defs)
  then have "loop_p scan_round \<lparr>sc_traits = {Begins_sign}, sc_chars = [], sc_advance_count = 0, sc_eof = False\<rparr>
      (ascii_cursor (CHR ''-'' # ds @ e)) =
    (Inr \<lparr>sc_traits = {Begins_sign, Has_minus, Has_digits}, sc_chars = 0x2D # map byte_of ds,
        sc_advance_count = Suc (length ds), sc_eof = (e = [])\<rparr>, ascii_cursor e)"
    using assms unfolding loop_text by (subst rounds.simps) (simp add: prog_simps scan_rounds insert_commute del: rounds.simps)
  moreover have "length (CHR ''-'' # ds @ e) - length e \<le> history_buffer_size" using assms(3) by (simp add: history_buffer_size_def)
  ultimately show ?negative
    by (intro scan_value_text) (auto simp: char_defs bzero_msk_def bdigit_msk_def)
qed

section \<open>The number\<close>

lemma integer_rounds:
  "list_all (\<lambda>d. is_decimal_digit (byte_of d)) ds \<Longrightarrow> length digits + length ds < 128 \<Longrightarrow> \<not> prev_in [0x5F] prev \<Longrightarrow>
     line_ends e \<Longrightarrow> length (ds @ e) < n \<Longrightarrow>
     rounds n (integer_round decimal_traits) (digits, prev) (ascii_cursor (ds @ e)) =
       (Inr (digits @ ds, if ds = [] then prev else Some (byte_of (last ds))), ascii_cursor (e))"
proof (induction ds arbitrary: n digits prev)
  case Nil
  then obtain m where "n = Suc m" by (cases n) auto
  with Nil show ?case by (simp add: integer_round_def value_ends_text prog_simps)
next
  case (Cons d ds)
  then obtain m where n: "n = Suc m" by (cases n) auto
  have d: "is_decimal_digit (byte_of d)" using Cons.prems(1) by simp
  then have "integer_round decimal_traits (digits, prev) (ascii_cursor (d # ds @ e)) =
      (Inr (Inl (digits @ [d], Some (byte_of d))), ascii_cursor (ds @ e))"
    using Cons.prems digit_classes [OF d]
    by (simp add: integer_round_def decimal_traits_def value_ends_text prog_simps text_steps)
  moreover have "\<not> prev_in [0x5F] (Some (byte_of d))" using digit_classes [OF d] by (simp add: prev_in_def)
  ultimately show ?case using Cons.IH Cons.prems by (simp add: n prog_simps)
qed

lemma decimal_bytes: "list_all (\<lambda>d. is_decimal_digit (byte_of d)) (decimal n)"
  using decimal_all_digits [of n] by (simp add: digit_byte list_all_iff)

lemma decimal_last: "is_decimal_digit (byte_of (last (decimal n)))"
  using decimal_bytes [of n] by (simp add: list_all_iff)

lemma parse_integer_text:
  assumes "n < 2 ^ 63 + (if negative then 1 else 0)" and "line_ends e"
  shows "parse_integer decimal_traits (ascii_cursor ((if negative then [CHR ''-''] else []) @ decimal n @ e)) =
    (Inr (if negative then - int n else int n), ascii_cursor (e))"
proof -
  obtain d ds where ds: "decimal n = d # ds" by (cases "decimal n") auto
  then have d: "is_decimal_digit (byte_of d)" using decimal_bytes [of n] by simp
  have "n < 10 ^ 19" using assms(1) by (simp split: if_splits)
  then have length: "length (decimal n) \<le> 19" by (intro length_decimal_le) simp_all
  have "integer_head decimal_traits (ascii_cursor ((if negative then [CHR ''-''] else []) @ decimal n @ e)) =
      (Inr negative, ascii_cursor (decimal n @ e))"
    using digit_classes [OF d] d
    by (cases negative) (simp_all add: ds integer_head_def decimal_traits_def text_steps prog_simps)
  moreover have "loop_p (integer_round decimal_traits) ([], None) (ascii_cursor (decimal n @ e)) =
      (Inr (decimal n, Some (byte_of (last (decimal n)))), ascii_cursor (e))"
    unfolding loop_text using length assms(2) by (subst integer_rounds) (simp_all add: decimal_bytes prev_in_def)
  moreover have "\<not> prev_in [0x5F] (Some (byte_of (last (decimal n))))"
    using digit_classes(3) [OF decimal_last [of n]] by (simp add: prev_in_def)
  ultimately show ?thesis
    using integer_value_text [OF assms(1)] by (simp add: parse_integer_def prog_simps)
qed

section \<open>Values\<close>

definition integer_scan :: "bool \<Rightarrow> value_trait set \<Rightarrow> nat list \<Rightarrow> scan_state" where
  "integer_scan eof ts chars = \<lparr>sc_traits = ts, sc_chars = chars, sc_advance_count = length chars, sc_eof = eof\<rparr>"

lemma match_integer:
  assumes "length chars < 127"
  shows "match_traits to_double (integer_scan eof {Begins_digit, Has_digits} chars) = node_of Tn_integer (parse_integer decimal_traits)"
    and "match_traits to_double (integer_scan eof {Begins_sign, Has_minus, Has_digits} chars) = node_of Tn_integer (parse_integer decimal_traits)"
proof -
  have positive: "{Begins_digit, Has_digits} \<in> set integer_masks"
    "{Begins_digit, Has_digits} \<noteq> insert Has_b bzero_msk" "{Begins_digit, Has_digits} \<noteq> insert Has_o bzero_msk"
    by (auto simp: integer_masks_def bzero_msk_def bdigit_msk_def)
  have negative: "{Begins_sign, Has_minus, Has_digits} \<in> set integer_masks"
    "{Begins_sign, Has_minus, Has_digits} \<noteq> insert Has_b bzero_msk" "{Begins_sign, Has_minus, Has_digits} \<noteq> insert Has_o bzero_msk"
    by (auto simp: integer_masks_def bzero_msk_def bdigit_msk_def)
  show "match_traits to_double (integer_scan eof {Begins_digit, Has_digits} chars) = node_of Tn_integer (parse_integer decimal_traits)"
    and "match_traits to_double (integer_scan eof {Begins_sign, Has_minus, Has_digits} chars) = node_of Tn_integer (parse_integer decimal_traits)"
    using assms positive negative by (simp_all add: match_traits_def integer_scan_def history_buffer_size_def)
qed

lemma integer_scan_fields [simp]:
  "sc_traits (integer_scan eof ts chars) = ts" "sc_chars (integer_scan eof ts chars) = chars"
  "sc_advance_count (integer_scan eof ts chars) = length chars" "sc_eof (integer_scan eof ts chars) = eof"
  by (simp_all add: integer_scan_def)

lemma parse_scanned_digits:
  assumes "1 < length chars" "length chars < 127" and "list_all is_decimal_digit chars"
  shows "parse_scanned to_double (integer_scan eof {Begins_digit, Has_digits} chars) = node_of Tn_integer (parse_integer decimal_traits)"
proof -
  have "chars ! 1 \<noteq> 0x2E" and "chars \<noteq> []" using assms digit_classes(6) by (auto simp: list_all_length)
  with assms match_integer show ?thesis by (simp add: parse_scanned_def has_any_def)
qed

lemma parse_scanned_minus:
  assumes "1 < length chars" "length chars < 126" and "list_all is_decimal_digit chars"
  shows "parse_scanned to_double (integer_scan eof {Begins_sign, Has_minus, Has_digits} (0x2D # chars)) =
    node_of Tn_integer (parse_integer decimal_traits)"
proof -
  obtain a b cs where chars: "chars = a # b # cs" using assms(1) by (cases chars; cases "tl chars") auto
  have "is_decimal_digit b" "is_decimal_digit a" using assms(3) chars by auto
  then have "b \<noteq> 0x2E" and "a \<notin> {0x69, 0x6E, 0x49, 0x4E}" using digit_classes(6) by (auto simp: is_decimal_digit_def)
  with assms chars match_integer show ?thesis by (simp add: parse_scanned_def has_any_def)
qed

definition first_traits :: "int \<Rightarrow> value_trait set" where
  "first_traits i = (if i < 0 then {Begins_sign} else if i = 0 then {Begins_digit, Begins_zero} else {Begins_digit})"

lemma scanned_integer_text:
  assumes "integer_ok i" and e: "line_ends e"
  shows "bind_p (scan_value (first_traits i)) (parse_scanned to_double)
      (ascii_cursor (int_text i @ e)) = (Inr (Some (Tn_integer i)), ascii_cursor (e))"
proof -
  define n where "n = nat \<bar>i\<bar>"
  let ?sign = "if i < 0 then [CHR ''-''] else []"
  have written: "int_text i = ?sign @ decimal n" by (simp add: int_text_def n_def)
  have n: "n < 2 ^ 63 + (if i < 0 then 1 else 0)" and i: "i = (if i < 0 then - int n else int n)"
    using assms(1) by (auto simp: integer_ok_def n_def)
  have "n < 10 ^ 19" using n by (simp split: if_splits)
  then have length: "length (decimal n) \<le> 19" by (intro length_decimal_le) simp_all
  have digits: "list_all is_decimal_digit (map byte_of (decimal n))"
    using decimal_bytes [of n] by (simp add: list_all_iff)
  have scan: "scan_value (first_traits i) (ascii_cursor (int_text i @ e)) =
     (Inr (if i < 0 then integer_scan (e = []) {Begins_sign, Has_minus, Has_digits} (0x2D # map byte_of (decimal n))
           else integer_scan (e = []) (insert Has_digits (first_traits i)) (map byte_of (decimal n))),
      ascii_cursor (int_text i @ e))"
    using scan_digits [OF decimal_bytes _ _ e, of n] length by (simp add: written integer_scan_def first_traits_def)
  show ?thesis
  proof (cases "n < 10")
    case True
    then have "decimal n = [digit_char n]" "byte_of (digit_char n) = 48 + n" by (simp_all add: decimal_digit)
    then show ?thesis
      using True i unfolding bind_p_def scan prod.case sum.case unfolding written
      by (cases "i < 0")
        (simp_all add: prog_simps text_steps parse_scanned_def has_any_def first_traits_def is_decimal_digit_def)
  next
    case False
    then have "length (decimal n) \<noteq> Suc 0" by (simp add: length_decimal_digit)
    then have "1 < length (decimal n)" by (cases "decimal n") auto
    moreover have "0 < i \<Longrightarrow> insert Has_digits (first_traits i) = {Begins_digit, Has_digits}" by (auto simp: first_traits_def)
    moreover have "i \<noteq> 0" using False by (simp add: n_def)
    ultimately have "bind_p (scan_value (first_traits i)) (parse_scanned to_double)
        (ascii_cursor (int_text i @ e)) =
      node_of Tn_integer (parse_integer decimal_traits) (ascii_cursor (int_text i @ e))"
      using scan length digits by (simp add: bind_p_def parse_scanned_digits parse_scanned_minus)
    with parse_integer_text [OF n e] i show ?thesis by (simp add: node_of_def written prog_simps)
  qed
qed

text \<open>What a setting can be, how it is written, and the node it gives.\<close>

datatype setting = Text string | Number int

fun setting_text :: "setting \<Rightarrow> string" where
  "setting_text (Text str) = quoted_text str"
| "setting_text (Number i) = int_text i"

fun setting_node :: "setting \<Rightarrow> toml_node" where
  "setting_node (Text str) = Tn_string str"
| "setting_node (Number i) = Tn_integer i"

fun setting_ok :: "setting \<Rightarrow> bool" where
  "setting_ok (Text str) \<longleftrightarrow> list_all plain_char str"
| "setting_ok (Number i) \<longleftrightarrow> integer_ok i"

lemma parse_value_text:
  assumes "setting_ok v" and e: "line_ends e"
  shows "parse_value (Suc levels) to_double (ascii_cursor (setting_text v @ e)) =
    (Inr (setting_node v), ascii_cursor (e))"
proof (cases v)
  case (Text str)
  with assms have "parse_string (ascii_cursor (CHR 0x22 # str @ CHR 0x22 # e)) = (Inr (str, False), ascii_cursor (e))"
    using string_text [of str e] by (simp add: quoted_text_def)
  with Text show ?thesis
    by (simp add: quoted_text_def parse_value_at_def parse_value_known_prefixes_def node_of_def text_steps prog_simps char_defs)
next
  case (Number i)
  obtain d ds where ds: "decimal (nat \<bar>i\<bar>) = d # ds" by (cases "decimal (nat \<bar>i\<bar>)") auto
  then have d: "is_decimal_digit (byte_of d)" using decimal_bytes [of "nat \<bar>i\<bar>"] by simp
  have "integer_ok i" using assms Number by simp
  note number = scanned_integer_text [OF this e, of to_double]
  show ?thesis
  proof (cases "i < 0")
    case True
    then have "int_text i @ e = CHR ''-'' # d # ds @ e" using ds by (simp add: int_text_def)
    with True number Number show ?thesis
      by (simp add: parse_value_at_def parse_value_known_prefixes_def begin_traits_def first_traits_def text_steps prog_simps char_defs)
  next
    case False
    then have first: "int_text i @ e = d # ds @ e" using ds by (simp add: int_text_def)
    have "byte_of d = 0x30 \<longleftrightarrow> i = 0"
    proof
      assume "byte_of d = 0x30"
      then have "byte_of d = byte_of (CHR ''0'')" by simp
      then have "hd (decimal (nat \<bar>i\<bar>)) = CHR ''0''" using ds by (metis list.sel(1) of_char_eq_iff)
      then show "i = 0" using decimal_first [of "nat \<bar>i\<bar>"] by fastforce
    next
      assume "i = 0"
      with ds show "byte_of d = 0x30" by (auto simp: decimal_digit)
    qed
    then have traits: "begin_traits (byte_of d) = Some (first_traits i)"
      using d False by (auto simp: begin_traits_def first_traits_def)
    have "parse_value_known_prefixes to_double value (ascii_cursor (d # ds @ e)) = (Inr None, ascii_cursor (d # ds @ e))"
      for "value"
      using d by (auto simp: parse_value_known_prefixes_def text_steps prog_simps char_defs)
    with first traits number Number show ?thesis
      by (simp add: parse_value_at_def text_steps prog_simps digit_classes [OF d])
  qed
qed

section \<open>Lines\<close>

lemma line_end_text [text_steps]:
  "rest_of_line (ascii_cursor (CHR 0x0A # s)) = (Inr (), ascii_cursor s)"
  "rest_of_line (ascii_cursor []) = (Inr (), ascii_cursor [])"
  "consume_blank (ascii_cursor (CHR 0x0A # s)) = (Inr True, ascii_cursor s)"
  "visible b \<Longrightarrow> byte_of b \<notin> {0x0A, 0x0B, 0x0C, 0x0D, 0x23} \<Longrightarrow>
     consume_blank (ascii_cursor (b # s)) = (Inr False, ascii_cursor (b # s))"
  by (simp_all add: rest_of_line_def consume_blank_def consume_comment_def consume_line_break_def visible_def text_steps prog_simps)

lemma bare_key_first:
  assumes "bare_key w"
  obtains b w' where "w = b # w'" "visible b" "is_bare_key_character (byte_of b)" "byte_of b \<notin> {0x0A, 0x0B, 0x0C, 0x0D, 0x23, 0x5B, 0x5D}"
proof -
  obtain b w' where w: "w = b # w'" and b: "is_bare_key_character (byte_of b)" and ascii: "byte_of b < 0x80"
    using assms by (cases w) (auto simp: bare_key_def)
  then have "byte_of b \<notin> {0x0A, 0x0B, 0x0C, 0x0D, 0x23, 0x5B, 0x5D, 0x20, 0x09}" by (auto simp: char_defs)
  moreover from this have "visible b" using ascii by (auto simp: visible_def)
  ultimately show ?thesis using w b that by simp
qed

definition header_text :: "string \<Rightarrow> string" where
  "header_text name = CHR ''['' # name @ '']''"

definition entry_text :: "string \<times> setting \<Rightarrow> string" where
  "entry_text = (\<lambda>(key, v). key @ '' = '' @ setting_text v)"

text \<open>What is left after the end of a line.\<close>

lemma rest_of_line_ends: "line_ends e \<Longrightarrow> rest_of_line (ascii_cursor e) = (Inr (), ascii_cursor (tl e))"
  by (auto elim!: line_endsE simp: text_steps)

lemma header_read:
  assumes "bare_key name" and "line_ends e"
  shows "read_table_header (ascii_cursor (header_text name @ e)) = (Inr (False, [name]), ascii_cursor (tl e))"
proof -
  obtain b w where name: "name = b # w" "visible b" "byte_of b \<noteq> 0x5B" "byte_of b \<noteq> 0x5D"
    using assms(1) by (rule bare_key_first) auto
  with key_text(2) [OF assms(1), of e] rest_of_line_ends [OF assms(2)] show ?thesis
    by (simp add: read_table_header_def header_text_def visible_def text_steps prog_simps)
qed

lemma header_round_text:
  assumes "bare_key name" and "map_of root name = None" and "line_ends e"
  shows "document_round to_double (root, path) (ascii_cursor (header_text name @ e)) =
    (Inr (map_put name (Tn_table Tk_header []) root, [name]), ascii_cursor (tl e))"
proof -
  have "document_round to_double (root, path) (ascii_cursor (header_text name @ e)) =
      parse_table_header root (ascii_cursor (header_text name @ e))"
    by (simp add: document_round_def header_text_def visible_def text_steps prog_simps)
  also have "\<dots> = (Inr (map_put name (Tn_table Tk_header []) root, [name]), ascii_cursor (tl e))"
    using assms by (simp add: parse_table_header_def header_read prog_simps)
  finally show ?thesis .
qed

lemma value_first:
  assumes "setting_ok v"
  obtains b t where "setting_text v = b # t" "visible b" "is_value_terminator (byte_of b) = Inr False"
proof (cases v)
  case (Text str)
  then show ?thesis by (intro that [of "CHR 0x22" "str @ [CHR 0x22]"]) (simp_all add: quoted_text_def visible_def char_defs)
next
  case (Number i)
  obtain d ds where ds: "decimal (nat \<bar>i\<bar>) = d # ds" by (cases "decimal (nat \<bar>i\<bar>)") auto
  then have d: "is_decimal_digit (byte_of d)" using decimal_bytes [of "nat \<bar>i\<bar>"] by simp
  then have "visible d" by (auto simp: visible_def char_defs)
  with Number ds digit_classes(1) [OF d] show ?thesis
    by (cases "i < 0")
      (auto intro!: that simp: int_text_def visible_def char_defs)
qed

lemma key_value_text:
  assumes "bare_key key" and "setting_ok v" and "map_of tbl key = None" and e: "line_ends e"
  shows "parse_key_value_pair_and_insert (parse_value (Suc levels) to_double) tbl (ascii_cursor (key @ '' = '' @ setting_text v @ e)) =
    (Inr (map_put key (setting_node v) tbl), ascii_cursor (e))"
proof -
  obtain b t where b: "setting_text v = b # t" "visible b" "is_value_terminator (byte_of b) = Inr False"
    using assms(2) by (rule value_first)
  have "parse_value (Suc levels) to_double (ascii_cursor (b # t @ e)) = (Inr (setting_node v), ascii_cursor (e))"
    using parse_value_text [OF assms(2) e, of levels to_double] b(1) by simp
  with b assms key_text(1) [OF assms(1), of "CHR '' '' # b # t @ e"] show ?thesis
    by (auto simp: parse_key_value_pair_and_insert_def expect_def visible_def text_steps prog_simps del: parse_value.simps)
qed

lemma line_round_text:
  assumes "bare_key key" and "setting_ok v" and "map_of tbl key = None" and "line_ends e"
  shows "document_round to_double (map_put name (Tn_table Tk_header tbl) root, [name]) (ascii_cursor (entry_text (key, v) @ e)) =
    (Inr (map_put name (Tn_table Tk_header (map_put key (setting_node v) tbl)) root, [name]), ascii_cursor (tl e))"
proof -
  obtain b w where "key = b # w" "visible b" "is_bare_key_character (byte_of b)" "byte_of b \<notin> {0x0A, 0x0B, 0x0C, 0x0D, 0x23, 0x5B, 0x5D}"
    using assms(1) by (rule bare_key_first)
  moreover have "max_nested_values = Suc 255" by (simp add: max_nested_values_def)
  ultimately show ?thesis
    using key_value_text [OF assms, of 255 to_double] assms(4)
    by (elim line_endsE)
      (simp_all add: document_round_def entry_text_def text_steps prog_simps del: parse_value.simps)
qed

section \<open>Documents\<close>

type_synonym settings = "(string \<times> setting) list"

text \<open>Lines with a line feed after each, or after each but the last.\<close>

fun lines_text :: "bool \<Rightarrow> string list \<Rightarrow> string" where
  "lines_text final [] = []"
| "lines_text final [l] = l @ (if final then [CHR 0x0A] else [])"
| "lines_text final (l # l' # ls) = l @ CHR 0x0A # lines_text final (l' # ls)"

definition section_lines :: "string \<times> settings \<Rightarrow> string list" where
  "section_lines = (\<lambda>(name, entries). header_text name # map entry_text entries)"

text \<open>Sections are separated by an empty line.\<close>

fun document_lines :: "(string \<times> settings) list \<Rightarrow> string list" where
  "document_lines [] = []"
| "document_lines [sec] = section_lines sec"
| "document_lines (sec # sec' # secs) = section_lines sec @ [] # document_lines (sec' # secs)"

definition document_text :: "bool \<Rightarrow> (string \<times> settings) list \<Rightarrow> string" where
  "document_text final secs = lines_text final (document_lines secs)"

lemma lines_text_Cons:
  obtains e where "lines_text final (l # ls) = l @ e" "line_ends e" "tl e = lines_text final ls"
  by (cases ls) auto

definition put_all :: "(string \<times> 'a) list \<Rightarrow> (string, 'a) std_map \<Rightarrow> (string, 'a) std_map" where
  "put_all kvs t = foldl (\<lambda>t (k, v). map_put k v t) t kvs"

definition section_table :: "settings \<Rightarrow> toml_node" where
  "section_table entries = Tn_table Tk_header (put_all (map (\<lambda>(k, v). (k, setting_node v)) entries) [])"

definition document_table :: "(string \<times> settings) list \<Rightarrow> toml_entries" where
  "document_table secs = put_all (map (\<lambda>(name, entries). (name, section_table entries)) secs) []"

definition settings_fit :: "settings \<Rightarrow> bool" where
  "settings_fit entries \<longleftrightarrow> distinct (map fst entries) \<and> list_all (\<lambda>(k, v). bare_key k \<and> setting_ok v) entries"

definition document_fits :: "(string \<times> settings) list \<Rightarrow> bool" where
  "document_fits secs \<longleftrightarrow> distinct (map fst secs) \<and> list_all (\<lambda>(name, entries). bare_key name \<and> settings_fit entries) secs"

lemma put_all_simps [simp]:
  "put_all [] t = t" "put_all ((k, v) # kvs) t = put_all kvs (map_put k v t)"
  by (simp_all add: put_all_def)

lemma map_of_put_all: "distinct (map fst kvs) \<Longrightarrow> map_of (put_all kvs t) = map_of t ++ map_of kvs"
proof (induction kvs arbitrary: t)
  case (Cons kv kvs)
  obtain k v where kv: "kv = (k, v)" by (cases kv)
  from Cons.prems have "k \<notin> dom (map_of kvs)" by (simp add: kv dom_map_of_conv_image_fst)
  with Cons show ?case by (auto simp: kv map_add_def fun_eq_iff domIff split: option.splits)
qed simp

text \<open>The loop of the document, from a state, over a text, to the root it leaves.\<close>

definition leads_to :: "(string \<Rightarrow> bool) \<Rightarrow> toml_entries \<times> string list \<Rightarrow> string \<Rightarrow> toml_entries \<Rightarrow> bool" where
  "leads_to to_double st s root \<longleftrightarrow> (\<forall>n. length s < n \<longrightarrow>
     rounds n (\<lambda>st. with_cp (return_p (Inr (fst st))) (\<lambda>_. bind_p (document_round to_double st) (\<lambda>st. return_p (Inl st))))
       st (ascii_cursor s) = (Inr root, ascii_cursor []))"

lemma leads_end: "leads_to to_double (root, path) [] root"
  unfolding leads_to_def
proof (intro allI impI)
  fix n :: nat assume "length ([] :: string) < n"
  then obtain m where "n = Suc m" by (cases n) auto
  then show "rounds n (\<lambda>st. with_cp (return_p (Inr (fst st))) (\<lambda>_. bind_p (document_round to_double st) (\<lambda>st. return_p (Inl st))))
       (root, path) (ascii_cursor []) = (Inr root, ascii_cursor [])"
    by (simp add: text_steps prog_simps)
qed

lemma leads_round:
  assumes "document_round to_double st (ascii_cursor (l @ e)) = (Inr st', ascii_cursor (tl e))" and "l @ e \<noteq> []"
    and "leads_to to_double st' (tl e) root" and "length (tl e) < length (l @ e)"
  shows "leads_to to_double st (l @ e) root"
  unfolding leads_to_def
proof (intro allI impI)
  fix n assume n: "length (l @ e) < n"
  obtain b l' where l: "l @ e = b # l'" using assms(2) by (cases "l @ e") auto
  from n assms(4) obtain m where m: "n = Suc m" "length (tl e) < m" by (cases n) auto
  note round = assms(1) [unfolded l]
  from m assms(3) show "rounds n (\<lambda>st. with_cp (return_p (Inr (fst st))) (\<lambda>_. bind_p (document_round to_double st) (\<lambda>st. return_p (Inl st))))
       st (ascii_cursor (l @ e)) = (Inr root, ascii_cursor [])"
    unfolding l by (simp add: leads_to_def round text_steps prog_simps)
qed

text \<open>A line that is not empty, with what a round makes of it, and an empty one.\<close>

lemma leads_line:
  assumes "\<And>e. line_ends e \<Longrightarrow> document_round to_double st (ascii_cursor (l @ e)) = (Inr st', ascii_cursor (tl e))" and "l \<noteq> []"
    and "leads_to to_double st' (lines_text final ls) root"
  shows "leads_to to_double st (lines_text final (l # ls)) root"
proof -
  obtain e where e: "lines_text final (l # ls) = l @ e" "line_ends e" "tl e = lines_text final ls"
    by (rule lines_text_Cons)
  have "length (tl e) < length (l @ e)" using assms(2) by (cases e) auto
  with assms e show ?thesis unfolding e(1) by (intro leads_round) auto
qed

lemma leads_blank:
  assumes "leads_to to_double st (lines_text final ls) root" and "ls \<noteq> []"
  shows "leads_to to_double st (lines_text final ([] # ls)) root"
proof -
  have "lines_text final ([] # ls) = [] @ CHR 0x0A # lines_text final ls" using assms(2) by (cases ls) auto
  moreover have "leads_to to_double st ([] @ CHR 0x0A # lines_text final ls) root"
    using assms(1) by (intro leads_round [where st' = st]) (simp_all add: document_round_def text_steps prog_simps)
  ultimately show ?thesis by simp
qed

lemma leads_lines:
  assumes "leads_to to_double (map_put name (Tn_table Tk_header (put_all (map (\<lambda>(k, v). (k, setting_node v)) entries) tbl)) root, [name])
      (lines_text final ls) result"
    and "settings_fit entries" and "\<And>k. k \<in> fst ` set entries \<Longrightarrow> map_of tbl k = None"
  shows "leads_to to_double (map_put name (Tn_table Tk_header tbl) root, [name]) (lines_text final (map entry_text entries @ ls)) result"
  using assms
proof (induction entries arbitrary: tbl)
  case (Cons kv entries)
  obtain k v where kv: "kv = (k, v)" by (cases kv)
  have fits: "bare_key k" "setting_ok v" "settings_fit entries" "k \<notin> fst ` set entries"
    using Cons.prems(2) by (auto simp: kv settings_fit_def)
  have "map_of tbl k = None" using Cons.prems(3) by (simp add: kv)
  note round = line_round_text [OF fits(1,2) this]
  have "leads_to to_double (map_put name (Tn_table Tk_header (map_put k (setting_node v) tbl)) root, [name])
      (lines_text final (map entry_text entries @ ls)) result"
  proof (rule Cons.IH)
    show "map_of (map_put k (setting_node v) tbl) k' = None" if "k' \<in> fst ` set entries" for k'
      using that Cons.prems(3) fits(4) by (auto simp: kv)
  qed (use Cons.prems(1) fits in \<open>simp_all add: kv\<close>)
  moreover have "entry_text (k, v) \<noteq> []" by (simp add: entry_text_def)
  ultimately have "leads_to to_double (map_put name (Tn_table Tk_header tbl) root, [name])
      (lines_text final (entry_text (k, v) # map entry_text entries @ ls)) result"
    using round by (intro leads_line)
  then show ?case by (simp add: kv)
qed simp

lemma leads_section:
  assumes "leads_to to_double (map_put name (section_table entries) root, [name]) (lines_text final ls) result"
    and "bare_key name" and "settings_fit entries" and "map_of root name = None"
  shows "leads_to to_double (root, path) (lines_text final (section_lines (name, entries) @ ls)) result"
proof -
  have "leads_to to_double (map_put name (Tn_table Tk_header []) root, [name]) (lines_text final (map entry_text entries @ ls)) result"
    using assms by (intro leads_lines) (simp_all add: section_table_def)
  moreover have "header_text name \<noteq> []" by (simp add: header_text_def)
  ultimately have "leads_to to_double (root, path) (lines_text final (header_text name # map entry_text entries @ ls)) result"
    using header_round_text [OF assms(2,4)] by (intro leads_line)
  then show ?thesis by (simp add: section_lines_def)
qed

lemma leads_document:
  "document_fits secs \<Longrightarrow> (\<And>name. name \<in> fst ` set secs \<Longrightarrow> map_of root name = None) \<Longrightarrow>
     leads_to to_double (root, path) (document_text final secs) (put_all (map (\<lambda>(name, entries). (name, section_table entries)) secs) root)"
  unfolding document_text_def
proof (induction secs arbitrary: root path rule: document_lines.induct)
  case (2 sec)
  obtain name entries where sec: "sec = (name, entries)" by (cases sec)
  have "leads_to to_double (map_put name (section_table entries) root, [name]) (lines_text final []) (map_put name (section_table entries) root)"
    by (simp add: leads_end)
  with 2 show ?case
    using leads_section [of to_double name entries root final "[]" _ path] by (simp add: sec document_fits_def)
next
  case (3 sec sec' secs)
  obtain name entries where sec: "sec = (name, entries)" by (cases sec)
  have "leads_to to_double (map_put name (section_table entries) root, [name]) (lines_text final (document_lines (sec' # secs)))
      (put_all (map (\<lambda>(name, entries). (name, section_table entries)) (sec' # secs)) (map_put name (section_table entries) root))"
  proof (rule "3.IH")
    show "map_of (map_put name (section_table entries) root) name' = None" if "name' \<in> fst ` set (sec' # secs)" for name'
      using that "3.prems" by (auto simp: sec document_fits_def)
  qed (use "3.prems" in \<open>simp add: document_fits_def\<close>)
  moreover have "document_lines (sec' # secs) \<noteq> []" by (cases secs) (auto simp: section_lines_def split: prod.split)
  ultimately show ?case
    using "3.prems" by (auto simp: sec document_fits_def intro!: leads_section leads_blank)
qed (simp add: leads_end)

section \<open>From the bytes\<close>

lemma ascii_first_cursor:
  assumes "is_ascii s" and "s \<noteq> []"
  shows "first_cursor (utf8_reader_new s) = Inr (ascii_cursor s)" and "\<not> rd_peek_eof (utf8_reader_new s)"
proof -
  have "take 3 s \<noteq> byte_order_mark"
  proof
    assume "take 3 s = byte_order_mark"
    then have "CHR 0xEF \<in> set (take 3 s)" by (simp add: byte_order_mark_def)
    then have "CHR 0xEF \<in> set s" by (rule in_set_takeD)
    with assms(1) show False by (auto simp: is_ascii_def list_all_iff)
  qed
  then have bom: "skip_byte_order_mark s = s" by (simp add: skip_byte_order_mark_def)
  have "code_points s = (map (\<lambda>b. \<lparr>cp_value = byte_of b, cp_bytes = [b]\<rparr>) s, True)"
    using decode_ascii [OF assms(1), of dc_new "[]"]
    by (simp add: code_points_def dc_new_def dc_has_code_point_def dc_needs_more_input_def)
  with rd_all_new [of s] assms(2) show "first_cursor (utf8_reader_new s) = Inr (ascii_cursor s)"
    by (auto simp: bom first_cursor_def ascii_cursor_def split: list.splits)
  show "\<not> rd_peek_eof (utf8_reader_new s)" using assms(2) bom by (simp add: rd_peek_eof_def utf8_reader_new_def)
qed

lemma ascii_char: "byte_of b < 0x80 \<Longrightarrow> is_ascii [b]"
  by (simp add: is_ascii_def)

lemma is_ascii_simps [simp]:
  "is_ascii []" "is_ascii (b # s) \<longleftrightarrow> byte_of b < 0x80 \<and> is_ascii s" "is_ascii (s @ t) \<longleftrightarrow> is_ascii s \<and> is_ascii t"
  by (auto simp: is_ascii_def)

lemma bare_key_ascii: "bare_key w \<Longrightarrow> is_ascii w"
  by (auto simp: bare_key_def is_ascii_def list_all_iff)

lemma setting_ascii: "setting_ok v \<Longrightarrow> is_ascii (setting_text v)"
proof (cases v)
  case (Text str)
  moreover assume "setting_ok v"
  ultimately show ?thesis by (fastforce simp: quoted_text_def is_ascii_def list_all_iff plain_char_def)
next
  case (Number i)
  have "is_ascii (decimal n)" for n
    using decimal_bytes [of n] by (fastforce simp: is_ascii_def list_all_iff is_decimal_digit_def)
  with Number show ?thesis by (simp add: int_text_def)
qed

lemma lines_ascii: "list_all is_ascii ls \<Longrightarrow> is_ascii (lines_text final ls)"
  by (induction final ls rule: lines_text.induct) auto

lemma document_ascii: "document_fits secs \<Longrightarrow> is_ascii (document_text final secs)"
proof -
  have "list_all is_ascii (map entry_text entries)" if "settings_fit entries" for entries
    using that by (auto simp: settings_fit_def entry_text_def list_all_iff bare_key_ascii setting_ascii)
  then have "list_all is_ascii (section_lines (name, entries))" if "bare_key name" "settings_fit entries" for name entries
    using that by (simp add: section_lines_def header_text_def bare_key_ascii)
  then have "document_fits secs \<Longrightarrow> list_all is_ascii (document_lines secs)"
    by (induction secs rule: document_lines.induct) (auto simp: document_fits_def)
  then show "document_fits secs \<Longrightarrow> is_ascii (document_text final secs)"
    by (simp add: document_text_def lines_ascii)
qed

lemma toml_parse_text:
  assumes "document_fits secs"
  shows "toml_parse to_double (document_text final secs) = Inr (document_table secs)"
proof (cases "document_text final secs = []")
  case True
  have "lines_text final (l # ls) \<noteq> []" if "l \<noteq> []" for l ls
    using that by (cases ls) auto
  with True have "secs = []"
    by (cases secs rule: document_lines.cases)
      (auto simp: document_text_def section_lines_def header_text_def split: prod.splits)
  then show ?thesis
    by (simp add: document_text_def toml_parse_def rd_peek_eof_def utf8_reader_new_def skip_byte_order_mark_def document_table_def)
next
  case False
  note start = ascii_first_cursor [OF document_ascii [OF assms] False]
  have "leads_to to_double ([], []) (document_text final secs) (document_table secs)"
    unfolding document_table_def by (rule leads_document [OF assms]) simp
  then have "parse_document to_double (ascii_cursor (document_text final secs)) = (Inr (document_table secs), ascii_cursor [])"
    unfolding parse_document_def loop_text leads_to_def by blast
  with start show ?thesis by (simp add: toml_parse_def Let_def)
qed

lemma map_of_map_values: "map_of (map (\<lambda>(k, v). (k, f v)) kvs) k = map_option f (map_of kvs k)"
  by (induction kvs) auto

lemma fst_values: "fst \<circ> (\<lambda>(k, v). (k, f v)) = fst"
  by auto

lemma document_table_entry:
  assumes "document_fits secs"
  shows "map_of (document_table secs) name = map_option section_table (map_of secs name)"
    and "view_entry (map_of (document_table secs) name) key =
      (case map_of secs name of None \<Rightarrow> None | Some entries \<Rightarrow> map_option setting_node (map_of entries key))"
proof -
  have "distinct (map fst secs)" using assms by (simp add: document_fits_def)
  then show root: "map_of (document_table secs) name = map_option section_table (map_of secs name)"
    unfolding document_table_def by (subst map_of_put_all) (simp_all add: fst_values map_of_map_values)
  have "settings_fit entries" if "map_of secs name = Some entries" for entries
    using that assms map_of_SomeD [of secs name entries] by (auto simp: document_fits_def list_all_iff)
  then show "view_entry (map_of (document_table secs) name) key =
      (case map_of secs name of None \<Rightarrow> None | Some entries \<Rightarrow> map_option setting_node (map_of entries key))"
    unfolding root
    by (auto simp: view_entry_def section_table_def settings_fit_def map_of_put_all fst_values map_of_map_values split: option.splits)
qed

text \<open>
  C18: The round trip. A file of sections, each with texts (of printable characters, without quote and
  backslash) and integers (of 64 bits), with or without a line feed at its end, parses, and what is found in it is what was written: the sections, and
  under each key its text or number; nothing else.
\<close>

theorem toml_settings_roundtrip:
  assumes "document_fits secs"
  shows "\<exists>root. toml_parse to_double (document_text final secs) = Inr root
    \<and> (\<forall>name. map_of root name = None \<longleftrightarrow> map_of secs name = None)
    \<and> (\<forall>name key. view_entry (map_of root name) key =
         (case map_of secs name of None \<Rightarrow> None | Some entries \<Rightarrow> map_option setting_node (map_of entries key)))"
  using toml_parse_text [OF assms] document_table_entry [OF assms] by simp

definition radar_settings :: "(string \<times> settings) list" where
  "radar_settings =
     [(''mysql'', [(''server'', Text ''localhost''), (''port'', Text ''3306''), (''password'', Text ''dev@123'')]),
      (''log'', [(''file'', Text ''radar.log''), (''severity'', Number 5), (''offset'', Number (- 42))])]"

lemma radar_settings_fit: "document_fits radar_settings"
  by code_simp

theorem toml_settings_roundtrip_witness:
  "\<exists>root. toml_parse (\<lambda>_. True) (document_text False radar_settings) = Inr root
    \<and> view_entry (map_of root ''log'') ''offset'' = Some (Tn_integer (- 42))
    \<and> view_entry (map_of root ''mysql'') ''password'' = Some (Tn_string ''dev@123'')
    \<and> view_entry (map_of root ''mysql'') ''offset'' = None"
proof -
  obtain root where "toml_parse (\<lambda>_. True) (document_text False radar_settings) = Inr root"
    and "\<forall>name key. view_entry (map_of root name) key =
         (case map_of radar_settings name of None \<Rightarrow> None | Some entries \<Rightarrow> map_option setting_node (map_of entries key))"
    using toml_settings_roundtrip [OF radar_settings_fit, of "\<lambda>_. True" False] by blast
  then show ?thesis by (intro exI [of _ root]) (simp add: radar_settings_def)
qed

end
