(* ===== verification/Programs.thy ===== *)
theory Programs
  imports Mysql_Server Toml_Text
begin

text \<open>
  \<^verbatim>\<open>football::init\<close> (\<^verbatim>\<open>util/globals.cpp\<close>), with which both programs start, from the bytes of the configuration file,
  and \<^verbatim>\<open>util::random_string\<close>.
\<close>

section \<open>The configuration\<close>

text \<open>
  What the code is given: which texts of floating-point numbers the standard library reads, their conversion to
  integers, parsing from a stream (for a file of more than two megabytes), and the content of files.
\<close>

record platform =
  pl_double :: "string \<Rightarrow> bool"
  pl_whole :: "toml_float \<Rightarrow> fault + int option"
  pl_stream :: "string \<Rightarrow> fault + toml_entries"
  pl_file :: "string \<Rightarrow> string option"

definition parse_config :: "platform \<Rightarrow> string \<Rightarrow> fault + toml_entries" where
  "parse_config pl = toml_parse_file (pl_double pl) (pl_stream pl) (pl_file pl)"

text \<open>\<^verbatim>\<open>.value()\<close>\<close>

definition required :: "fault + 'a option \<Rightarrow> fault + 'a" where
  "required v = (case v of Inl e \<Rightarrow> Inl e | Inr None \<Rightarrow> Inl Bad_optional_access | Inr (Some x) \<Rightarrow> Inr x)"

definition value_int :: "platform \<Rightarrow> toml_node option \<Rightarrow> fault + int option" where
  "value_int pl = value_integer (pl_whole pl) (- (2 ^ 31)) (2 ^ 31 - 1)"

definition value_size_t :: "platform \<Rightarrow> toml_node option \<Rightarrow> fault + int option" where
  "value_size_t pl = value_integer (pl_whole pl) 0 (2 ^ 64 - 1)"

text \<open>The section \<^verbatim>\<open>mysql\<close> as \<^verbatim>\<open>mysql::init\<close> reads it.\<close>

definition mysql_config :: "toml_entries \<Rightarrow> toml_config" where
  "mysql_config config = (\<lambda>sect key. value_string (view_entry (map_of config sect) key))"

section \<open>Start-up\<close>

text \<open>What plog is initialised with.\<close>

record log_settings =
  ls_severity :: int
  ls_file :: string
  ls_max_file_size :: "64 word"
  ls_max_files :: int

text \<open>The file is parsed twice: here for the section \<^verbatim>\<open>log\<close>, and again by \<^verbatim>\<open>mysql::init\<close>.\<close>

definition football_init :: "platform \<Rightarrow> string \<Rightarrow> (log_settings option \<times> mysql_globals, unit) prog" where
  "football_init pl config_filename =
     bind_p (lift_p (parse_config pl config_filename)) (\<lambda>config. let log_config = map_of config ''log'' in
     bind_p (lift_p (required (value_int pl (view_entry log_config ''severity'')))) (\<lambda>severity.
     bind_p (lift_p (required (Inr (value_string (view_entry log_config ''file''))))) (\<lambda>file.
     bind_p (lift_p (required (value_size_t pl (view_entry log_config ''maxFileSize'')))) (\<lambda>maxFileSize.
     bind_p (lift_p (required (value_int pl (view_entry log_config ''maxFiles'')))) (\<lambda>maxFiles.
     then_p (on_fst (modify_p (\<lambda>_. Some \<lparr>ls_severity = severity, ls_file = file,
               ls_max_file_size = word_of_int maxFileSize, ls_max_files = maxFiles\<rparr>)))
            (on_snd (mysql_init (\<lambda>filename. map_sum id mysql_config (parse_config pl filename)) config_filename)))))))"

lemma football_init_order:
  "football_init pl file (l, g) = (r, (l', g')) \<Longrightarrow> g' \<noteq> g \<Longrightarrow> l' \<noteq> None"
  by (auto simp: football_init_def prog_simps Let_def split: sum.splits prod.splits)

text \<open>The settings of a program, in the order of the files in \<^verbatim>\<open>bin/\<close>.\<close>

definition program_settings :: "environment \<Rightarrow> log_settings \<Rightarrow> (string \<times> settings) list" where
  "program_settings e ls =
     [(''mysql'', [(''server'', Text (env_server e)), (''port'', Text (env_port e)), (''database'', Text (env_database e)),
        (''username'', Text (env_username e)), (''password'', Text (env_password e))]),
      (''log'', [(''file'', Text (ls_file ls)), (''severity'', Number (ls_severity ls)),
        (''maxFileSize'', Number (uint (ls_max_file_size ls))), (''maxFiles'', Number (ls_max_files ls))])]"

definition plain_settings :: "environment \<Rightarrow> log_settings \<Rightarrow> bool" where
  "plain_settings e ls \<longleftrightarrow>
     list_all (list_all plain_char) [env_server e, env_port e, env_database e, env_username e, env_password e, ls_file ls]
     \<and> - (2 ^ 31) \<le> ls_severity ls \<and> ls_severity ls < 2 ^ 31 \<and> - (2 ^ 31) \<le> ls_max_files ls \<and> ls_max_files ls < 2 ^ 31
     \<and> ls_max_file_size ls < 0x8000000000000000"

lemma size_below:
  fixes w :: "64 word"
  assumes "w < 0x8000000000000000"
  shows "integer_ok (uint w)"
  using assms by (simp add: word_less_alt integer_ok_def order_trans [of _ 0])

lemma program_settings_fit:
  assumes "plain_settings e ls"
  shows "document_fits (program_settings e ls)"
proof -
  have keys: "list_all bare_key [''mysql'', ''log'', ''server'', ''port'', ''database'', ''username'', ''password'',
      ''file'', ''severity'', ''maxFileSize'', ''maxFiles'']"
    by code_simp
  have "integer_ok (ls_severity ls)" "integer_ok (ls_max_files ls)" "integer_ok (uint (ls_max_file_size ls))"
    using assms by (simp_all add: plain_settings_def size_below) (simp_all add: integer_ok_def)
  with keys assms show ?thesis
    by (simp add: document_fits_def settings_fit_def program_settings_def plain_settings_def)
qed

text \<open>
  C17: The programs start with what their files say. From the bytes of a configuration file in the form of all
  those in \<^verbatim>\<open>bin/\<close>, whether it ends with a line feed or not (most of them do not), \<^verbatim>\<open>football::init\<close> initialises the log with the file's log settings and the environment of
  \<^verbatim>\<open>mysql\<close> with its server, port, user, password and database, and creates the server; texts are of printable
  characters without quote and backslash, numbers in the range of their types, the file has no more than two
  megabytes.
\<close>

theorem football_init_reads_settings:
  assumes "pl_file pl file = Some (document_text final (program_settings e ls))"
    and "length (document_text final (program_settings e ls)) \<le> large_file_threshold"
    and "plain_settings e ls"
  shows "football_init pl file st = (Inr (), (Some ls, \<lparr>g_env = Some e, g_srv = True\<rparr>))"
proof -
  let ?root = "document_table (program_settings e ls)"
  note fit = program_settings_fit [OF assms(3)]
  have parsed: "parse_config pl file = Inr ?root"
    using assms(1,2) toml_parse_text [OF fit, of _ final] by (simp add: parse_config_def toml_parse_file_def)
  note entry = document_table_entry(2) [OF fit]
  have numbers: "value_int pl (view_entry (map_of ?root ''log'') ''severity'') = Inr (Some (ls_severity ls))"
    "value_int pl (view_entry (map_of ?root ''log'') ''maxFiles'') = Inr (Some (ls_max_files ls))"
    "value_size_t pl (view_entry (map_of ?root ''log'') ''maxFileSize'') = Inr (Some (uint (ls_max_file_size ls)))"
    using assms(3) unsigned_less [of "ls_max_file_size ls", where 'a = int] unfolding entry
    by (simp_all add: value_int_def value_size_t_def value_integer_def node_integer_cast_def program_settings_def plain_settings_def)
  have texts: "value_string (view_entry (map_of ?root ''log'') ''file'') = Some (ls_file ls)"
    "map (mysql_config ?root ''mysql'') [''server'', ''port'', ''username'', ''password'', ''database''] =
       map Some [env_server e, env_port e, env_username e, env_password e, env_database e]"
    unfolding mysql_config_def entry by (simp_all add: value_string_def program_settings_def)
  obtain l g where st: "st = (l, g)" by (cases st)
  have "mysql_init (\<lambda>filename. map_sum id mysql_config (parse_config pl filename)) file g =
      (Inr (), \<lparr>g_env = Some e, g_srv = True\<rparr>)"
    using texts(2) by (simp add: mysql_init_def parsed config_value_def env_update_def prog_simps)
  with numbers texts(1) show ?thesis
    by (simp add: st football_init_def parsed required_def prog_simps)
qed

text \<open>\<^verbatim>\<open>bin/football.toml\<close> and \<^verbatim>\<open>bin/football-test.toml\<close>, byte by byte: the second ends with a line feed.\<close>

definition football_toml :: string where
  "football_toml = ''[mysql]'' @ CHR 0x0A # ''server = \"localhost\"'' @ CHR 0x0A # ''port = \"3306\"'' @ CHR 0x0A #
     ''database = \"football\"'' @ CHR 0x0A # ''username = \"dev\"'' @ CHR 0x0A # ''password = \"dev@123\"'' @ CHR 0x0A #
     CHR 0x0A # ''[log]'' @ CHR 0x0A # ''file = \"football.log\"'' @ CHR 0x0A # ''severity = 5'' @ CHR 0x0A #
     ''maxFileSize = 5000'' @ CHR 0x0A # ''maxFiles = 3''"

definition football_test_toml :: string where
  "football_test_toml = concat (map (\<lambda>l. l @ [CHR 0x0A])
     [''[mysql]'', ''server = \"localhost\"'', ''port = \"3306\"'', ''database = \"football\"'', ''username = \"dev\"'',
      ''password = \"dev@123\"'', [], ''[log]'', ''file = \"football-test.log\"'', ''severity = 5'', ''maxFileSize = 500000'',
      ''maxFiles = 3''])"

definition bin_env :: environment where
  "bin_env = \<lparr>env_server = ''localhost'', env_port = ''3306'', env_username = ''dev'', env_password = ''dev@123'',
     env_database = ''football''\<rparr>"

definition football_log :: log_settings where
  "football_log = \<lparr>ls_severity = 5, ls_file = ''football.log'', ls_max_file_size = 5000, ls_max_files = 3\<rparr>"

definition football_test_log :: log_settings where
  "football_test_log = \<lparr>ls_severity = 5, ls_file = ''football-test.log'', ls_max_file_size = 500000, ls_max_files = 3\<rparr>"

definition bin_platform :: platform where
  "bin_platform = \<lparr>pl_double = (\<lambda>_. True), pl_whole = (\<lambda>_. Inr None), pl_stream = (\<lambda>_. Inl Network_exception),
     pl_file = (\<lambda>name. if name = ''football.toml'' then Some football_toml
        else if name = ''football-test.toml'' then Some football_test_toml else None)\<rparr>"

lemma bin_texts:
  "document_text False (program_settings bin_env football_log) = football_toml"
  "document_text True (program_settings bin_env football_test_log) = football_test_toml"
proof -
  have "decimal 3 = ''3''" "decimal 5 = ''5''" "decimal 5000 = ''5000''" "decimal 500000 = ''500000''"
    by (simp_all add: decimal.simps digit_char_def char_of_def bit_0)
  then show "document_text False (program_settings bin_env football_log) = football_toml"
    and "document_text True (program_settings bin_env football_test_log) = football_test_toml"
    by (simp_all add: program_settings_def bin_env_def football_log_def football_test_log_def football_toml_def
        football_test_toml_def document_text_def section_lines_def header_text_def entry_text_def quoted_text_def int_text_def)
qed

theorem football_init_reads_settings_witness:
  "football_init bin_platform ''football.toml'' (None, \<lparr>g_env = None, g_srv = False\<rparr>) =
     (Inr (), (Some football_log, \<lparr>g_env = Some bin_env, g_srv = True\<rparr>))
   \<and> football_init bin_platform ''football-test.toml'' (None, \<lparr>g_env = None, g_srv = False\<rparr>) =
     (Inr (), (Some football_test_log, \<lparr>g_env = Some bin_env, g_srv = True\<rparr>))"
proof
  have plain: "plain_settings bin_env football_log" "plain_settings bin_env football_test_log"
    by (simp_all add: plain_settings_def bin_env_def football_log_def football_test_log_def plain_char_def)
  show "football_init bin_platform ''football.toml'' (None, \<lparr>g_env = None, g_srv = False\<rparr>) =
     (Inr (), (Some football_log, \<lparr>g_env = Some bin_env, g_srv = True\<rparr>))"
    by (rule football_init_reads_settings [where final = False, unfolded bin_texts, OF _ _ plain(1)])
      (simp_all add: bin_texts bin_platform_def football_toml_def large_file_threshold_def)
  show "football_init bin_platform ''football-test.toml'' (None, \<lparr>g_env = None, g_srv = False\<rparr>) =
     (Inr (), (Some football_test_log, \<lparr>g_env = Some bin_env, g_srv = True\<rparr>))"
    by (rule football_init_reads_settings [where final = True, unfolded bin_texts, OF _ _ plain(2)])
      (simp_all add: bin_texts bin_platform_def football_test_toml_def large_file_threshold_def)
qed

section \<open>Random strings\<close>

definition alphanum :: string where
  "alphanum = ''0123456789ABCDEFGHIJKLMNOPQRSTUVWXYZabcdefghijklmnopqrstuvwxyz'' @ [CHR 0x00]"

text \<open>
  \<open>rands\<close> is what \<^verbatim>\<open>rand()\<close> returns after the seeding, in order. A negative length, turned into \<^verbatim>\<open>size_t\<close>, is
  more than \<^verbatim>\<open>reserve\<close> allows.
\<close>

definition random_string :: "(nat \<Rightarrow> nat) \<Rightarrow> int \<Rightarrow> fault + string" where
  "random_string rands len = (if len < 0 then Inl Length_error
     else Inr (map (\<lambda>i. alphanum ! (rands i mod (length alphanum - 1))) [0..<nat len]))"

lemma random_string_alphanumeric:
  assumes "random_string rands len = Inr s"
  shows "int (length s) = len" and "set s \<subseteq> set (butlast alphanum)"
proof -
  from assms show "int (length s) = len" by (auto simp: random_string_def split: if_splits)
  have "alphanum ! (n mod 62) \<in> set (butlast alphanum)" for n
  proof -
    have "n mod 62 < length (butlast alphanum)" by (simp add: alphanum_def)
    from nth_mem [OF this] show ?thesis by (simp add: nth_butlast [OF \<open>n mod 62 < _\<close>])
  qed
  moreover have "length alphanum - 1 = 62" by (simp add: alphanum_def)
  ultimately show "set s \<subseteq> set (butlast alphanum)"
    using assms by (auto simp: random_string_def split: if_splits)
qed

end
