(* ===== verification/Json_Grammar.thy ===== *)
theory Json_Grammar
  imports Json_Parser
begin

text \<open>
  \<^verbatim>\<open>util/json.hpp\<close>: what the parser's loop accepts, and which value it builds, against the grammar of
  JSON. The grammar is given by parse trees over the lexer's tokens: \<open>tree_tokens\<close> is the text of a
  tree, \<open>tree_value\<close> its value. \<open>reads_tree\<close> is soundness (what the loop has read is a tree),
  \<open>tree_read\<close> is completeness (every tree is read).
\<close>

section \<open>The grammar\<close>

datatype json_tree = T_leaf token | T_array "json_tree list" | T_object "(string \<times> json_tree) list"

text \<open>Items with commas between them.\<close>

fun separated :: "token list list \<Rightarrow> token list" where
  "separated [] = []"
| "separated [ts] = ts"
| "separated (ts # u # us) = ts @ Tk_value_separator # separated (u # us)"

fun tree_tokens :: "json_tree \<Rightarrow> token list" where
  "tree_tokens (T_leaf t) = [t]"
| "tree_tokens (T_array ts) = Tk_begin_array # separated (map tree_tokens ts) @ [Tk_end_array]"
| "tree_tokens (T_object ms) =
     Tk_begin_object # separated (map (\<lambda>(k, t). Tk_value_string k # Tk_name_separator # tree_tokens t) ms) @
     [Tk_end_object]"

fun leaf_value :: "token \<Rightarrow> json option" where
  "leaf_value Tk_literal_true = Some (J_boolean True)"
| "leaf_value Tk_literal_false = Some (J_boolean False)"
| "leaf_value Tk_literal_null = Some J_null"
| "leaf_value (Tk_value_string v) = Some (J_string v)"
| "leaf_value (Tk_value_unsigned w) = Some (J_unsigned w)"
| "leaf_value (Tk_value_integer w) = Some (J_integer w)"
| "leaf_value (Tk_value_float f) = (if float_overflows f then None else Some (J_float f))"
| "leaf_value _ = None"

text \<open>A leaf is a literal, a string or a number that a \<^verbatim>\<open>double\<close> can hold.\<close>

fun tree_ok :: "json_tree \<Rightarrow> bool" where
  "tree_ok (T_leaf t) \<longleftrightarrow> leaf_value t \<noteq> None"
| "tree_ok (T_array ts) \<longleftrightarrow> list_all tree_ok ts"
| "tree_ok (T_object ms) \<longleftrightarrow> list_all (\<lambda>(k, t). tree_ok t) ms"

text \<open>Of members with the same key the last one counts.\<close>

fun tree_value :: "json_tree \<Rightarrow> json" where
  "tree_value (T_leaf t) = the (leaf_value t)"
| "tree_value (T_array ts) = J_array (map tree_value ts)"
| "tree_value (T_object ms) = J_object (fold (\<lambda>(k, v). map_put k v) (map (\<lambda>(k, t). (k, tree_value t)) ms) [])"

text \<open>The tokens of a text, up to the end of the input or the first error.\<close>

function token_list :: "token \<times> string \<Rightarrow> token list" where
  "token_list (t, s) = (if t = Tk_parse_error \<or> t = Tk_end_of_input then [t] else t # token_list (scan s))"
  by pat_completeness auto
termination
proof (relation "measure (\<lambda>(t, s). 2 * length s + token_weight t)", goal_cases)
  case (2 t s)
  then show ?case using scan_shorter [of s "fst (scan s)" "snd (scan s)"]
    by (auto simp: token_weight_def split: prod.split if_splits)
qed simp

declare token_list.simps [simp del]

definition json_tokens :: "string \<Rightarrow> token list" where
  "json_tokens text = token_list (scan_first text)"

section \<open>Reading tokens\<close>

text \<open>The tokens \<open>ts\<close> are read from \<open>s\<close>, and \<open>r\<close> is left.\<close>

fun lexes :: "token list \<Rightarrow> string \<Rightarrow> string \<Rightarrow> bool" where
  "lexes [] s r \<longleftrightarrow> s = r"
| "lexes (t # ts) s r \<longleftrightarrow> fst (scan s) = t \<and> lexes ts (snd (scan s)) r"

lemma lexes_append: "lexes (ts @ us) s r \<longleftrightarrow> (\<exists>q. lexes ts s q \<and> lexes us q r)"
  by (induction ts arbitrary: s) auto

lemma token_list_lexes:
  assumes "\<forall>t \<in> set (t0 # ts). t \<noteq> Tk_parse_error \<and> t \<noteq> Tk_end_of_input"
  shows "token_list (t, s) = t0 # ts @ [Tk_end_of_input] \<longleftrightarrow> t = t0 \<and> (\<exists>r. lexes ts s r \<and> fst (scan r) = Tk_end_of_input)"
  using assms
proof (induction ts arbitrary: t0 t s)
  case Nil
  obtain t' s' where "scan s = (t', s')" by fastforce
  with Nil show ?case
    by (auto simp: token_list.simps [of t s] token_list.simps [of t' s'])
next
  case (Cons u us)
  obtain t' s' where "scan s = (t', s')" by fastforce
  with Cons show ?case
    by (auto simp: token_list.simps [of t s])
qed

text \<open>The tail of a list of items after one of them: each with its comma.\<close>

lemma separated_Cons: "separated (ts # us) = ts @ concat (map ((#) Tk_value_separator) us)"
  by (induction us arbitrary: ts) simp_all

lemma set_separated: "set (separated xs) \<subseteq> insert Tk_value_separator (\<Union> (set ` set xs))"
  by (induction xs rule: separated.induct) auto

lemma tree_tokens_ok:
  "tree_ok t \<Longrightarrow> u \<in> set (tree_tokens t) \<Longrightarrow> u \<noteq> Tk_parse_error \<and> u \<noteq> Tk_end_of_input"
proof (induction t)
  case (T_array ts)
  then show ?case
    using set_separated [of "map tree_tokens ts"] by (fastforce simp: list_all_iff)
next
  case (T_object ms)
  then have "u \<in> {Tk_begin_object, Tk_end_object, Tk_value_separator, Tk_name_separator} \<or>
      (\<exists>(k, t) \<in> set ms. u = Tk_value_string k \<or> u \<in> set (tree_tokens t))"
    using set_separated [of "map (\<lambda>(k, t). Tk_value_string k # Tk_name_separator # tree_tokens t) ms"]
    by fastforce
  with T_object show ?case by (fastforce simp: list_all_iff)
qed auto

lemma tree_tokens_ne_Nil: "tree_tokens t \<noteq> []"
  by (cases t) auto

lemma tree_tokens_hd: "tree_ok t \<Longrightarrow> hd (tree_tokens t) \<noteq> Tk_end_array"
  by (cases t) auto

section \<open>The parser's loop on the rest of a container\<close>

text \<open>The loop after a value has been parsed.\<close>

definition sax_after :: "json \<Rightarrow> sax_frame list \<Rightarrow> string \<Rightarrow> fault + json \<times> string" where
  "sax_after j states s = (case sax_state j states s of
      Sax_continue states' t' s' \<Rightarrow> sax_loop states' t' s'
    | Sax_finished j s' \<Rightarrow> Inr (j, s')
    | Sax_failed e \<Rightarrow> Inl e)"

lemma sax_after_Nil [simp]: "sax_after j [] s = Inr (j, s)"
  by (simp add: sax_after_def)

lemma sax_loop_leaf: "leaf_value t = Some v \<Longrightarrow> sax_loop states t s = sax_after v states s"
  by (cases t) (auto simp: sax_loop.simps [of states] sax_after_def split: if_splits)

lemma sax_after_array:
  "sax_after j (F_array js # states) s = (case scan s of
      (Tk_value_separator, s1) \<Rightarrow> sax_loop (F_array (js @ [j]) # states) (fst (scan s1)) (snd (scan s1))
    | (Tk_end_array, s1) \<Rightarrow> sax_after (J_array (js @ [j])) states s1
    | _ \<Rightarrow> Inl (Json_exception 101))"
  by (auto simp: sax_after_def split: prod.split token.split)

lemma sax_after_object:
  "sax_after j (F_object m k # states) s = (case scan s of
      (Tk_value_separator, s1) \<Rightarrow> (case scan s1 of
          (Tk_value_string k', s2) \<Rightarrow> (case scan s2 of
              (Tk_name_separator, s3) \<Rightarrow>
                sax_loop (F_object (map_put k' J_null (map_put k j m)) k' # states) (fst (scan s3)) (snd (scan s3))
            | _ \<Rightarrow> Inl (Json_exception 101))
        | _ \<Rightarrow> Inl (Json_exception 101))
    | (Tk_end_object, s1) \<Rightarrow> sax_after (J_object (map_put k j m)) states s1
    | _ \<Rightarrow> Inl (Json_exception 101))"
  by (auto simp: sax_after_def split: prod.split token.split)

lemma sax_loop_begin_array:
  "sax_loop states Tk_begin_array s = (case scan s of
      (Tk_end_array, s1) \<Rightarrow> sax_after (J_array []) states s1
    | (t, s1) \<Rightarrow> sax_loop (F_array [] # states) t s1)"
  by (auto simp: sax_loop.simps [of states] sax_after_def start_array_def split: prod.split token.split)

lemma sax_loop_begin_object:
  "sax_loop states Tk_begin_object s = (case scan s of
      (Tk_end_object, s1) \<Rightarrow> sax_after (J_object []) states s1
    | (Tk_value_string k, s1) \<Rightarrow> (case scan s1 of
          (Tk_name_separator, s2) \<Rightarrow> sax_loop (F_object [(k, J_null)] k # states) (fst (scan s2)) (snd (scan s2))
        | _ \<Rightarrow> Inl (Json_exception 101))
    | _ \<Rightarrow> Inl (Json_exception 101))"
  by (auto simp: sax_loop.simps [of states] sax_after_def start_object_def split: prod.split token.split)

lemma sax_loop_other:
  "leaf_value t = None \<Longrightarrow> t \<noteq> Tk_begin_array \<Longrightarrow> t \<noteq> Tk_begin_object \<Longrightarrow> \<exists>e. sax_loop states t s = Inl e"
  by (cases t) (auto simp: sax_loop.simps [of states] split: if_splits)

text \<open>The items after the first one, each with its comma, and the members of an object.\<close>

abbreviation item_tokens :: "json_tree \<Rightarrow> token list" where
  "item_tokens t \<equiv> Tk_value_separator # tree_tokens t"

abbreviation member_tokens :: "string \<times> json_tree \<Rightarrow> token list" where
  "member_tokens m \<equiv> Tk_value_string (fst m) # Tk_name_separator # tree_tokens (snd m)"

abbreviation put_members :: "(string \<times> json_tree) list \<Rightarrow> (string \<times> json) list \<Rightarrow> (string \<times> json) list" where
  "put_members ms m \<equiv> fold (\<lambda>(k, v). map_put k v) (map (\<lambda>(k, t). (k, tree_value t)) ms) m"

lemma array_tokens:
  "tree_tokens (T_array (t # ts)) = Tk_begin_array # tree_tokens t @ concat (map item_tokens ts) @ [Tk_end_array]"
  by (simp add: separated_Cons comp_def)

lemma object_tokens:
  "tree_tokens (T_object (m # ms)) =
     Tk_begin_object # member_tokens m @ concat (map (\<lambda>m. Tk_value_separator # member_tokens m) ms) @ [Tk_end_object]"
  by (simp add: separated_Cons comp_def case_prod_beta)

section \<open>Completeness\<close>

lemma array_read:
  assumes "\<And>t u us s r states. t \<in> set ts \<Longrightarrow> tree_tokens t = u # us \<Longrightarrow> lexes us s r \<Longrightarrow>
      sax_loop states u s = sax_after (tree_value t) states r"
    and "lexes (concat (map item_tokens ts) @ [Tk_end_array]) s r"
  shows "sax_after v (F_array js # states) s = sax_after (J_array (js @ v # map tree_value ts)) states r"
  using assms
proof (induction ts arbitrary: v js s)
  case Nil
  then show ?case by (auto simp: sax_after_array case_prod_beta)
next
  case (Cons t ts)
  obtain u us where u: "tree_tokens t = u # us"
    using tree_tokens_ne_Nil by (cases "tree_tokens t") auto
  obtain q where q: "fst (scan s) = Tk_value_separator" "fst (scan (snd (scan s))) = u"
      "lexes us (snd (scan (snd (scan s)))) q" "lexes (concat (map item_tokens ts) @ [Tk_end_array]) q r"
    using Cons.prems(2) u by (auto simp: lexes_append [of us])
  have "sax_after v (F_array js # states) s = sax_loop (F_array (js @ [v]) # states) u (snd (scan (snd (scan s))))"
    using q(1,2) by (simp add: sax_after_array case_prod_beta)
  also have "\<dots> = sax_after (tree_value t) (F_array (js @ [v]) # states) q"
    using Cons.prems(1) [OF _ u q(3)] by simp
  finally show ?case using Cons.IH [OF _ q(4)] Cons.prems(1) by simp
qed

lemma object_read:
  assumes "\<And>k t u us s r states. (k, t) \<in> set ms \<Longrightarrow> tree_tokens t = u # us \<Longrightarrow> lexes us s r \<Longrightarrow>
      sax_loop states u s = sax_after (tree_value t) states r"
    and "lexes (concat (map (\<lambda>m. Tk_value_separator # member_tokens m) ms) @ [Tk_end_object]) s r"
  shows "sax_after v (F_object m k # states) s = sax_after (J_object (put_members ms (map_put k v m))) states r"
  using assms
proof (induction ms arbitrary: v m k s)
  case Nil
  then show ?case by (auto simp: sax_after_object case_prod_beta)
next
  case (Cons kt ms)
  obtain k' t where kt: "kt = (k', t)" by fastforce
  obtain u us where u: "tree_tokens t = u # us"
    using tree_tokens_ne_Nil by (cases "tree_tokens t") auto
  define s1 where "s1 = snd (scan (snd (scan (snd (scan s)))))"
  obtain q where q: "fst (scan s) = Tk_value_separator" "fst (scan (snd (scan s))) = Tk_value_string k'"
      "fst (scan (snd (scan (snd (scan s))))) = Tk_name_separator" "fst (scan s1) = u"
      "lexes us (snd (scan s1)) q" "lexes (concat (map (\<lambda>m. Tk_value_separator # member_tokens m) ms) @ [Tk_end_object]) q r"
    using Cons.prems(2) u by (auto simp: lexes_append [of us] kt s1_def)
  have "sax_after v (F_object m k # states) s =
      sax_loop (F_object (map_put k' J_null (map_put k v m)) k' # states) u (snd (scan s1))"
    using q(1-4) by (simp add: sax_after_object s1_def case_prod_beta)
  also have "\<dots> = sax_after (tree_value t) (F_object (map_put k' J_null (map_put k v m)) k' # states) q"
    using Cons.prems(1) [OF _ u q(5)] by (auto simp: kt)
  also have "\<dots> = sax_after (J_object (put_members ms (map_put k' (tree_value t) (map_put k' J_null (map_put k v m))))) states r"
  proof (rule Cons.IH [OF _ q(6)])
    fix k t u us s r states
    assume "(k, t) \<in> set ms" "tree_tokens t = u # us" "lexes us s r"
    then show "sax_loop states u s = sax_after (tree_value t) states r"
      by (intro Cons.prems(1) [of k t]) simp_all
  qed
  finally show ?case by (simp add: kt)
qed

text \<open>A tree is read, whatever containers are open, and its value goes on to the innermost of them.\<close>

lemma tree_read:
  "tree_ok t \<Longrightarrow> tree_tokens t = u # us \<Longrightarrow> lexes us s r \<Longrightarrow> sax_loop states u s = sax_after (tree_value t) states r"
proof (induction t arbitrary: u us s r states)
  case (T_leaf t)
  then show ?case by (auto simp: sax_loop_leaf)
next
  case (T_array ts)
  show ?case
  proof (cases ts)
    case Nil
    with T_array.prems show ?thesis by (auto simp: sax_loop_begin_array case_prod_beta)
  next
    case (Cons t ts')
    obtain v vs where v: "tree_tokens t = v # vs"
      using tree_tokens_ne_Nil by (cases "tree_tokens t") auto
    have v_ne: "v \<noteq> Tk_end_array"
      using tree_tokens_hd [of t] T_array.prems(1) Cons v by auto
    obtain q where q: "fst (scan s) = v" "lexes vs (snd (scan s)) q"
        "lexes (concat (map item_tokens ts') @ [Tk_end_array]) q r"
      using T_array.prems(2,3) v unfolding Cons array_tokens by (auto simp: lexes_append [of vs])
    have "sax_loop states Tk_begin_array s = sax_loop (F_array [] # states) v (snd (scan s))"
      using q(1) v_ne by (auto simp: sax_loop_begin_array case_prod_beta split: token.split)
    also have "\<dots> = sax_after (tree_value t) (F_array [] # states) q"
      using T_array.IH [of t] T_array.prems(1) Cons v q(2) by simp
    also have "\<dots> = sax_after (J_array ([] @ tree_value t # map tree_value ts')) states r"
      using T_array.IH T_array.prems(1) Cons q(3) by (intro array_read) (auto simp: list_all_iff)
    finally show ?thesis using T_array.prems(2) Cons by simp
  qed
next
  case (T_object ms)
  show ?case
  proof (cases ms)
    case Nil
    with T_object.prems show ?thesis by (auto simp: sax_loop_begin_object case_prod_beta)
  next
    case (Cons kt ms')
    obtain k t where kt: "kt = (k, t)" by fastforce
    obtain v vs where v: "tree_tokens t = v # vs"
      using tree_tokens_ne_Nil by (cases "tree_tokens t") auto
    define s1 where "s1 = snd (scan (snd (scan s)))"
    obtain q where q: "fst (scan s) = Tk_value_string k" "fst (scan (snd (scan s))) = Tk_name_separator"
        "fst (scan s1) = v" "lexes vs (snd (scan s1)) q"
        "lexes (concat (map (\<lambda>m. Tk_value_separator # member_tokens m) ms') @ [Tk_end_object]) q r"
      using T_object.prems(2,3) v unfolding Cons kt object_tokens by (auto simp: lexes_append [of vs] s1_def)
    have "sax_loop states Tk_begin_object s = sax_loop (F_object [(k, J_null)] k # states) v (snd (scan s1))"
      using q(1-3) by (simp add: sax_loop_begin_object s1_def case_prod_beta)
    also have "\<dots> = sax_after (tree_value t) (F_object [(k, J_null)] k # states) q"
      using T_object.IH [of kt t] T_object.prems(1) Cons kt v q(4) by simp
    also have "\<dots> = sax_after (J_object (put_members ms' (map_put k (tree_value t) [(k, J_null)]))) states r"
    proof (rule object_read [OF _ q(5)])
      fix k t u us s r states
      assume t: "(k, t) \<in> set ms'" "tree_tokens t = u # us" "lexes us s r"
      with T_object.prems(1) Cons show "sax_loop states u s = sax_after (tree_value t) states r"
        by (intro T_object.IH [of "(k, t)" t]) (auto simp: list_all_iff)
    qed
    finally show ?thesis using T_object.prems(2) Cons kt by simp
  qed
qed

section \<open>Soundness\<close>

lemma scan_le: "length (snd (scan s)) \<le> length s"
  using scan_shorter [of s "fst (scan s)" "snd (scan s)"] by simp

lemma scan_less: "fst (scan s) \<noteq> Tk_parse_error \<Longrightarrow> fst (scan s) \<noteq> Tk_end_of_input \<Longrightarrow> length (snd (scan s)) < length s"
  using scan_shorter [of s "fst (scan s)" "snd (scan s)"] by (simp add: token_weight_def)

lemma lexes_le: "lexes ts s r \<Longrightarrow> length r \<le> length s"
  by (induction ts arbitrary: s) (auto dest: order_trans [OF _ scan_le])

text \<open>A tree whose tokens are the one in hand and some from the text; the rest goes on after it.\<close>

definition tree_from :: "(json \<Rightarrow> string \<Rightarrow> bool) \<Rightarrow> token \<Rightarrow> string \<Rightarrow> bool" where
  "tree_from goes_on t s \<longleftrightarrow> (\<exists>tree ts r. tree_ok tree \<and> tree_tokens tree = t # ts \<and> lexes ts s r \<and> goes_on (tree_value tree) r)"

definition items_from :: "(json list \<Rightarrow> string \<Rightarrow> bool) \<Rightarrow> string \<Rightarrow> bool" where
  "items_from goes_on s \<longleftrightarrow> (\<exists>ts r. list_all tree_ok ts \<and> lexes (concat (map item_tokens ts) @ [Tk_end_array]) s r \<and>
     goes_on (map tree_value ts) r)"

definition members_from :: "((string \<times> json_tree) list \<Rightarrow> string \<Rightarrow> bool) \<Rightarrow> string \<Rightarrow> bool" where
  "members_from goes_on s \<longleftrightarrow> (\<exists>ms r. list_all (\<lambda>(k, t). tree_ok t) ms \<and>
     lexes (concat (map (\<lambda>m. Tk_value_separator # member_tokens m) ms) @ [Tk_end_object]) s r \<and> goes_on ms r)"

lemma items_from_end: "scan s = (Tk_end_array, r) \<Longrightarrow> goes_on [] r \<Longrightarrow> items_from goes_on s"
  unfolding items_from_def by (intro exI [of _ "[]"] exI [of _ r]) simp

lemma items_from_item:
  assumes "scan s = (Tk_value_separator, s1)" and "tree_from P (fst (scan s1)) (snd (scan s1))"
    and "\<And>v r. P v r \<Longrightarrow> length r \<le> length (snd (scan s1)) \<Longrightarrow> items_from (\<lambda>vs. goes_on (v # vs)) r"
  shows "items_from goes_on s"
proof -
  obtain tree us q where tree: "tree_ok tree" "tree_tokens tree = fst (scan s1) # us" "lexes us (snd (scan s1)) q" "P (tree_value tree) q"
    using assms(2) by (auto simp: tree_from_def)
  with assms(3) obtain ts r where "list_all tree_ok ts" "lexes (concat (map item_tokens ts) @ [Tk_end_array]) q r"
      "goes_on (tree_value tree # map tree_value ts) r"
    unfolding items_from_def by (blast dest: lexes_le)
  with tree assms(1) show ?thesis
    unfolding items_from_def by (intro exI [of _ "tree # ts"] exI [of _ r]) (auto simp: lexes_append [of us])
qed

lemma members_from_end: "scan s = (Tk_end_object, r) \<Longrightarrow> goes_on [] r \<Longrightarrow> members_from goes_on s"
  unfolding members_from_def by (intro exI [of _ "[]"] exI [of _ r]) simp

lemma members_from_member:
  assumes "scan s = (Tk_value_separator, s1)" and "scan s1 = (Tk_value_string k, s2)" and "scan s2 = (Tk_name_separator, s3)"
    and "tree_from P (fst (scan s3)) (snd (scan s3))"
    and "\<And>t r. P (tree_value t) r \<Longrightarrow> length r \<le> length (snd (scan s3)) \<Longrightarrow> members_from (\<lambda>ms. goes_on ((k, t) # ms)) r"
  shows "members_from goes_on s"
proof -
  obtain tree us q where tree: "tree_ok tree" "tree_tokens tree = fst (scan s3) # us" "lexes us (snd (scan s3)) q" "P (tree_value tree) q"
    using assms(4) by (auto simp: tree_from_def)
  with assms(5) obtain ms r where "list_all (\<lambda>(k, t). tree_ok t) ms"
      "lexes (concat (map (\<lambda>m. Tk_value_separator # member_tokens m) ms) @ [Tk_end_object]) q r" "goes_on ((k, tree) # ms) r"
    unfolding members_from_def by (blast dest: lexes_le)
  with tree assms(1-3) show ?thesis
    unfolding members_from_def by (intro exI [of _ "(k, tree) # ms"] exI [of _ r]) (auto simp: lexes_append [of us])
qed

lemma tree_from_array:
  assumes "tree_from P (fst (scan s)) (snd (scan s))"
    and "\<And>v r. P v r \<Longrightarrow> length r \<le> length (snd (scan s)) \<Longrightarrow> items_from (\<lambda>vs. goes_on (J_array (v # vs))) r"
  shows "tree_from goes_on Tk_begin_array s"
proof -
  obtain tree us q where tree: "tree_ok tree" "tree_tokens tree = fst (scan s) # us" "lexes us (snd (scan s)) q" "P (tree_value tree) q"
    using assms(1) by (auto simp: tree_from_def)
  with assms(2) obtain ts r where "list_all tree_ok ts" "lexes (concat (map item_tokens ts) @ [Tk_end_array]) q r"
      "goes_on (J_array (tree_value tree # map tree_value ts)) r"
    unfolding items_from_def by (blast dest: lexes_le)
  with tree show ?thesis
    unfolding tree_from_def
    by (intro exI [of _ "T_array (tree # ts)"] exI [of _ "fst (scan s) # us @ concat (map item_tokens ts) @ [Tk_end_array]"] exI [of _ r])
      (auto simp: lexes_append [of us] array_tokens simp del: tree_tokens.simps)
qed

lemma tree_from_object:
  assumes "scan s = (Tk_value_string k, s1)" and "scan s1 = (Tk_name_separator, s2)"
    and "tree_from P (fst (scan s2)) (snd (scan s2))"
    and "\<And>t r. P (tree_value t) r \<Longrightarrow> length r \<le> length (snd (scan s2)) \<Longrightarrow>
      members_from (\<lambda>ms. goes_on (J_object (put_members ((k, t) # ms) []))) r"
  shows "tree_from goes_on Tk_begin_object s"
proof -
  obtain tree us q where tree: "tree_ok tree" "tree_tokens tree = fst (scan s2) # us" "lexes us (snd (scan s2)) q" "P (tree_value tree) q"
    using assms(3) by (auto simp: tree_from_def)
  with assms(4) obtain ms r where "list_all (\<lambda>(k, t). tree_ok t) ms"
      "lexes (concat (map (\<lambda>m. Tk_value_separator # member_tokens m) ms) @ [Tk_end_object]) q r"
      "goes_on (J_object (put_members ((k, tree) # ms) [])) r"
    unfolding members_from_def by (blast dest: lexes_le)
  with tree assms(1,2) show ?thesis
    unfolding tree_from_def
    by (intro exI [of _ "T_object ((k, tree) # ms)"] exI [of _ "tl (tree_tokens (T_object ((k, tree) # ms)))"] exI [of _ r])
      (auto simp: lexes_append [of us] object_tokens simp del: tree_tokens.simps)
qed

lemma begin_array_cases:
  assumes "sax_loop states Tk_begin_array s = Inr res"
  obtains (empty) s1 where "scan s = (Tk_end_array, s1)" "sax_after (J_array []) states s1 = Inr res"
    | (first) "sax_loop (F_array [] # states) (fst (scan s)) (snd (scan s)) = Inr res"
proof -
  obtain t s1 where s: "scan s = (t, s1)" by fastforce
  show ?thesis
    by (cases t) (use assms s empty first in \<open>simp_all add: sax_loop_begin_array\<close>)
qed

lemma begin_object_cases:
  assumes "sax_loop states Tk_begin_object s = Inr res"
  obtains (empty) s1 where "scan s = (Tk_end_object, s1)" "sax_after (J_object []) states s1 = Inr res"
    | (first) k s1 s2 where "scan s = (Tk_value_string k, s1)" "scan s1 = (Tk_name_separator, s2)"
        "sax_loop (F_object [(k, J_null)] k # states) (fst (scan s2)) (snd (scan s2)) = Inr res"
proof -
  obtain t s1 where s: "scan s = (t, s1)" by fastforce
  obtain t' s2 where s1: "scan s1 = (t', s2)" by fastforce
  show ?thesis
  proof (cases t)
    case (Tk_value_string k)
    with assms s s1 show ?thesis using first [of k s1 s2]
      by (cases t') (simp_all add: sax_loop_begin_object)
  qed (use assms s empty in \<open>simp_all add: sax_loop_begin_object\<close>)
qed

text \<open>
  What the loop has read when it ends: in front of a token, after an item of an array, and after a member
  of an object. By induction on the text left.
\<close>

lemma reads_tree:
  fixes res :: "json \<times> string"
  shows "(\<forall>t states. sax_loop states t s = Inr res \<longrightarrow> tree_from (\<lambda>v r. sax_after v states r = Inr res) t s) \<and>
    (\<forall>v js states. sax_after v (F_array js # states) s = Inr res \<longrightarrow>
      items_from (\<lambda>vs r. sax_after (J_array (js @ v # vs)) states r = Inr res) s) \<and>
    (\<forall>v m k states. sax_after v (F_object m k # states) s = Inr res \<longrightarrow>
      members_from (\<lambda>ms r. sax_after (J_object (put_members ms (map_put k v m))) states r = Inr res) s)"
    (is "?A s \<and> ?B s \<and> ?C s")
proof (induction "length s" arbitrary: s rule: less_induct)
  case less
  have bad: "sax_loop states t q \<noteq> Inr res" if "t = Tk_parse_error \<or> t = Tk_end_of_input" for states t q
    using that sax_loop_other [of t states q] by auto
  have A: "tree_from (\<lambda>v r. sax_after v states r = Inr res) t q"
    if "sax_loop states t q = Inr res" "length q < length s" for states t q
    using less [OF that(2)] that(1) by blast
  have B: "items_from (\<lambda>vs r. sax_after (J_array (js @ v # vs)) states r = Inr res) q"
    if "sax_after v (F_array js # states) q = Inr res" "length q < length s" for v js states q
    using less [OF that(2)] that(1) by blast
  have C: "members_from (\<lambda>ms r. sax_after (J_object (put_members ms (map_put k v m))) states r = Inr res) q"
    if "sax_after v (F_object m k # states) q = Inr res" "length q < length s" for v m k states q
    using less [OF that(2)] that(1) by blast
  have next_tree: "tree_from (\<lambda>v r. sax_after v states r = Inr res) (fst (scan q)) (snd (scan q))"
      "length (snd (scan q)) < length s"
    if "sax_loop states (fst (scan q)) (snd (scan q)) = Inr res" "length q \<le> length s" for states q
  proof -
    show shorter: "length (snd (scan q)) < length s"
      using scan_less [of q] bad that by fastforce
    show "tree_from (\<lambda>v r. sax_after v states r = Inr res) (fst (scan q)) (snd (scan q))"
      using that(1) shorter by (rule A)
  qed
  have le: "length (snd (scan q)) \<le> length s" if "length q \<le> length s" for q
    using scan_le [of q] that by simp
  have "?B s"
  proof (intro allI impI)
    fix v js states assume run: "sax_after v (F_array js # states) s = Inr res"
    then consider (sep) s1 where "scan s = (Tk_value_separator, s1)"
        "sax_loop (F_array (js @ [v]) # states) (fst (scan s1)) (snd (scan s1)) = Inr res"
      | (close) s1 where "scan s = (Tk_end_array, s1)" "sax_after (J_array (js @ [v])) states s1 = Inr res"
      unfolding sax_after_array by (auto split: prod.splits token.splits)
    then show "items_from (\<lambda>vs r. sax_after (J_array (js @ v # vs)) states r = Inr res) s"
    proof cases
      case sep
      with le [of s] have "length s1 \<le> length s" by simp
      note tree = next_tree [OF sep(2) this]
      show ?thesis
        by (rule items_from_item [OF sep(1) tree(1)]) (use B [of _ "js @ [v]"] tree(2) in simp)
    next
      case close
      then show ?thesis by (intro items_from_end) auto
    qed
  qed
  moreover have "?C s"
  proof (intro allI impI)
    fix v m k states assume run: "sax_after v (F_object m k # states) s = Inr res"
    then consider (sep) s1 k' s2 s3 where "scan s = (Tk_value_separator, s1)" "scan s1 = (Tk_value_string k', s2)"
        "scan s2 = (Tk_name_separator, s3)"
        "sax_loop (F_object (map_put k' J_null (map_put k v m)) k' # states) (fst (scan s3)) (snd (scan s3)) = Inr res"
      | (close) s1 where "scan s = (Tk_end_object, s1)" "sax_after (J_object (map_put k v m)) states s1 = Inr res"
      unfolding sax_after_object by (auto split: prod.splits token.splits)
    then show "members_from (\<lambda>ms r. sax_after (J_object (put_members ms (map_put k v m))) states r = Inr res) s"
    proof cases
      case sep
      with le [of s] le [of s1] le [of s2] have "length s3 \<le> length s" by simp
      note tree = next_tree [OF sep(4) this]
      show ?thesis
        by (rule members_from_member [OF sep(1-3) tree(1)]) (use C [of _ _ k'] tree(2) in fastforce)
    next
      case close
      then show ?thesis by (intro members_from_end) auto
    qed
  qed
  moreover have "?A s"
  proof (intro allI impI)
    fix t states assume run: "sax_loop states t s = Inr res"
    consider (leaf) v where "leaf_value t = Some v" | (array) "t = Tk_begin_array" | (object) "t = Tk_begin_object"
      using run sax_loop_other [of t states s] by (cases "leaf_value t") auto
    then show "tree_from (\<lambda>v r. sax_after v states r = Inr res) t s"
    proof cases
      case leaf
      with run show ?thesis
        unfolding tree_from_def by (intro exI [of _ "T_leaf t"] exI [of _ "[]"] exI [of _ s]) (simp add: sax_loop_leaf)
    next
      case array
      from run consider (empty) s1 where "scan s = (Tk_end_array, s1)" "sax_after (J_array []) states s1 = Inr res"
        | (first) "sax_loop (F_array [] # states) (fst (scan s)) (snd (scan s)) = Inr res"
        unfolding array by (rule begin_array_cases)
      then show ?thesis
      proof cases
        case empty
        then show ?thesis
          unfolding tree_from_def array by (intro exI [of _ "T_array []"] exI [of _ "[Tk_end_array]"] exI [of _ s1]) simp
      next
        case first
        note tree = next_tree [OF first order_refl]
        show ?thesis
          unfolding array by (rule tree_from_array [OF tree(1)]) (use B [of _ "[]"] tree(2) in simp)
      qed
    next
      case object
      from run consider (empty) s1 where "scan s = (Tk_end_object, s1)" "sax_after (J_object []) states s1 = Inr res"
        | (first) k s1 s2 where "scan s = (Tk_value_string k, s1)" "scan s1 = (Tk_name_separator, s2)"
            "sax_loop (F_object [(k, J_null)] k # states) (fst (scan s2)) (snd (scan s2)) = Inr res"
        unfolding object by (rule begin_object_cases)
      then show ?thesis
      proof cases
        case empty
        then show ?thesis
          unfolding tree_from_def object by (intro exI [of _ "T_object []"] exI [of _ "[Tk_end_object]"] exI [of _ s1]) simp
      next
        case first
        with le [of s] le [of s1] have "length s2 \<le> length s" by simp
        note tree = next_tree [OF first(3) this]
        show ?thesis
          unfolding object by (rule tree_from_object [OF first(1,2) tree(1)]) (use C [of _ "[(k, J_null)]" k] tree(2) in fastforce)
      qed
    qed
  qed
  ultimately show ?case by blast
qed

section \<open>Properties\<close>

lemma json_parse_tokens:
  assumes "tree_ok tree"
  shows "json_tokens u = tree_tokens tree @ [Tk_end_of_input] \<longleftrightarrow>
    (\<exists>ts r. tree_tokens tree = fst (scan_first u) # ts \<and> lexes ts (snd (scan_first u)) r \<and> fst (scan r) = Tk_end_of_input)"
proof -
  obtain t0 ts where "tree_tokens tree = t0 # ts"
    using tree_tokens_ne_Nil by (cases "tree_tokens tree") auto
  with tree_tokens_ok [OF assms] show ?thesis
    using token_list_lexes [of t0 ts "fst (scan_first u)" "snd (scan_first u)"]
    by (auto simp: json_tokens_def)
qed

text \<open>
  C31: The parser accepts exactly the texts of the grammar and builds their values: \<^verbatim>\<open>parse\<close> returns a
  value if and only if the tokens of the text, up to its end, are those of a parse tree (brackets that
  match, a comma between two items, a colon after each key, no comma before a closing bracket, literals,
  strings and numbers a \<^verbatim>\<open>double\<close> can hold as leaves), and the value is the tree's, in which the last of
  the members with one key counts.
\<close>

theorem json_parse_grammar:
  "json_parse u = Inr j \<longleftrightarrow>
   (\<exists>tree. tree_ok tree \<and> json_tokens u = tree_tokens tree @ [Tk_end_of_input] \<and> j = tree_value tree)"
proof -
  obtain t s where first: "scan_first u = (t, s)" by fastforce
  have "json_parse u = Inr j \<longleftrightarrow> (\<exists>r. sax_loop [] t s = Inr (j, r) \<and> fst (scan r) = Tk_end_of_input)"
    by (auto simp: json_parse_def first split: sum.split)
  also have "\<dots> \<longleftrightarrow> (\<exists>tree ts r. tree_ok tree \<and> tree_tokens tree = t # ts \<and> lexes ts s r \<and>
      fst (scan r) = Tk_end_of_input \<and> j = tree_value tree)"
  proof
    assume "\<exists>r. sax_loop [] t s = Inr (j, r) \<and> fst (scan r) = Tk_end_of_input"
    then obtain r where "sax_loop [] t s = Inr (j, r)" "fst (scan r) = Tk_end_of_input" by blast
    with reads_tree [of s "(j, r)"] have "tree_from (\<lambda>v q. sax_after v [] q = Inr (j, r)) t s" by blast
    with \<open>fst (scan r) = Tk_end_of_input\<close> show "\<exists>tree ts r. tree_ok tree \<and> tree_tokens tree = t # ts \<and> lexes ts s r \<and>
      fst (scan r) = Tk_end_of_input \<and> j = tree_value tree"
      by (fastforce simp: tree_from_def)
  qed (auto dest: tree_read [where states = "[]"])
  also have "\<dots> \<longleftrightarrow> (\<exists>tree. tree_ok tree \<and> json_tokens u = tree_tokens tree @ [Tk_end_of_input] \<and> j = tree_value tree)"
    by (simp add: json_parse_tokens first cong: conj_cong) blast
  finally show ?thesis .
qed

end
