(* ===== verification/Spec2Isabelle.thy ===== *)
theory Spec2Isabelle
  imports Handshake Requests Scheduler Client Programs Json_Grammar
begin

text \<open>
  A verification library for the football repository: a server that keeps championships, clubs, seasons
  and their members in MySQL (\<^verbatim>\<open>football.cpp\<close>), and a scanner that finds new championships on the web and
  sends them to that server (\<^verbatim>\<open>radar.cpp\<close>). This theory imports all others and holds the properties that
  span components.

  \<^bold>\<open>How the program is put together.\<close> The server accepts connections (\<^verbatim>\<open>net/server.hpp\<close>); each connection
  reads and writes messages of a header and a body (\<^verbatim>\<open>net/connection.hpp\<close>, \<^verbatim>\<open>net/message.hpp\<close>). What has
  been read waits in a queue (\<^verbatim>\<open>net/tsqueue.hpp\<close>) until the main loop calls \<^verbatim>\<open>update\<close>, which gives it to
  \<^verbatim>\<open>football_server::on_message\<close>. That runs the action of the event (\<^verbatim>\<open>net/event_action.cpp\<close>): an object of
  \<^verbatim>\<open>classes/\<close> is made from the message and saved, through \<^verbatim>\<open>mysql::table\<close> and the one \<^verbatim>\<open>mysql::server\<close>
  (\<^verbatim>\<open>db/mysql.cpp\<close>), and the id goes back to the client. In the scanner the scheduler's thread
  (\<^verbatim>\<open>scanner/scheduler.hpp\<close>) reads the tasks that are new with \<^verbatim>\<open>prepare_execute\<close>, which gives the rows as
  JSON text; each task asks a publisher (\<^verbatim>\<open>pub/\<close>) for the name on a page and queues a result, and the
  client (\<^verbatim>\<open>net/football_client.hpp\<close>) takes results from the queue and sends them.

  \<^bold>\<open>The model.\<close> A member function is a program over the state of its object (\<open>prog\<close> in Prelude): it returns
  a value or a fault and the state it has reached, also when it throws. A fault is a C++ exception,
  undefined behaviour, or the end of the program. Objects are records, with \<open>table\<close> as the parent of the
  classes derived from it; enumerations are datatypes with a constructor for the values a cast can give
  that have no name; machine integers are words where their width matters; ordered maps are association
  lists in key order (Std_Map). A pointer to something shared is an address in a store, or None.

  \<^bold>\<open>The theories.\<close>
  \<^item> Prelude, Std_Map: faults, programs, the frame calculus \<open>keeps\<close>, decimal text, \<^verbatim>\<open>std::map\<close>.
  \<^item> Mysql_Server: \<^verbatim>\<open>mysql::init\<close> and \<^verbatim>\<open>mysql::server\<close>. Mysql_Table: \<^verbatim>\<open>mysql::table\<close>. Table_Class: the
    locale \<open>table_class\<close>, what the base class needs of the virtual functions of a class, with the
    contract of \<^verbatim>\<open>save\<close> and \<^verbatim>\<open>remove\<close> proved once; interpreted on championship, club, club_season, season
    and task. Mysql_Query: \<^verbatim>\<open>prepare_execute\<close>.
  \<^item> Championship, Club, Season: the classes of \<^verbatim>\<open>classes/\<close>; a season's clubs implement a set of
    (name, country) pairs.
  \<^item> Schema: the tables of \<^verbatim>\<open>db/football.sql\<close> with their keys and foreign keys, and \<open>mysql_serves\<close>, what the
    program relies on in the database. Table_Service: one statement, and the \<^verbatim>\<open>save\<close> of the base class,
    against these tables. Table_Engine: a small database that serves. Championship_Service, Club_Service,
    Season_Service: each action against its specification over sets of rows. Requests: the locale
    \<open>request_service\<close>, interpreted on the four actions, and what it gives for messages and the main loop.
  \<^item> Wire: \<^verbatim>\<open>net/event.hpp\<close> and \<^verbatim>\<open>net/message.hpp\<close>, byte images under the locale \<open>wire_data\<close>. Tsqueue: the
    queue, under the locale \<open>fifo\<close>, and \<^verbatim>\<open>wait()\<close> against a push as a step relation. Connection: one
    function for each completion handler, the writer as a step relation with its invariant, and the
    stream a reader takes apart again. Handshake: the (unused) validation. Server, Football_Server:
    the table of clients with its invariant over all steps, and the dispatch. Event_Action: the actions.
    Client: the client's end.
  \<^item> Json_Lexer, Json_Parser, Json_Value, Json_Dump: the part of \<^verbatim>\<open>util/json.hpp\<close> the program runs, with
    one function per label of \<^verbatim>\<open>scan_number\<close> and per case of the lexer's switches, and the SAX loop with
    its stack. Json_Grammar: the grammar of JSON as parse trees over tokens, with the loop sound and
    complete for it. Json_Roundtrip: the text that is written is read back, and the two accounts of UTF-8 in
    the library (the automaton of the serializer, the byte ranges of the lexer) agree.
  \<^item> Toml_Unicode, Toml_Reader, Toml_Cursor, Toml_Value, Toml_Scalar, Toml_Parser: the part of
    \<^verbatim>\<open>util/toml.hpp\<close> that \<^verbatim>\<open>toml::parse_file\<close> runs. Toml_Unicode has the classes of characters and the decoder of
    UTF-8; Toml_Reader the reader that decodes the file in blocks of 32 bytes, a whole block of ASCII at once,
    and the ring buffer \<open>buffered_reader\<close> over it, which \<^verbatim>\<open>step_back\<close> and \<^verbatim>\<open>read_next\<close> move through; Toml_Cursor the parser's
    program type (a character, an error, a violated assertion), its \<^verbatim>\<open>cp\<close> and \<^verbatim>\<open>advance\<close>, white space, line
    breaks and comments; Toml_Value the tree of tables and arrays, places in it, and how a \<^verbatim>\<open>[header]\<close> or a
    dotted key opens the tables on its way; Toml_Scalar strings, booleans and numbers; Toml_Parser dates
    and times, the traits by which \<^verbatim>\<open>parse_value\<close> tells a value's type, arrays, inline tables, keys, headers,
    the document's loop, and \<^verbatim>\<open>parse_file\<close>. Toml_Document: what an operation on the tree keeps of it (well-formed nodes,
    and every value that is there already). Toml_Outcome: a calculus of postconditions, \<open>yields\<close>, over the parser's
    programs, with one fact for each function, and the two theorems about whole documents. Toml_Text: the parser run over
    known characters, and with it the round trip of settings, with a line break at the end of the file or without
    (most files of \<^verbatim>\<open>bin/\<close> have none).
  \<^item> Publisher: both searches over the parsed page. Task: tasks, their rows, their run and their results.
    Scheduler: a pass of the scheduler's thread and the thread as a whole. Programs: \<^verbatim>\<open>football::init\<close>
    over the TOML parser and \<^verbatim>\<open>mysql::init\<close>, and \<^verbatim>\<open>random_string\<close>.

  \<^bold>\<open>What is proved.\<close> For the requests: each of the four implements its specification over the tables,
  one from the bytes of the message to the reply (C1, C3 to C5), and the tables stay well-formed over any
  round of the main loop (C2). For the server: streams and the writer (C6, C7), the table
  of clients (C8, C9, C25), what each message does (C10), the queue (C14, C15), the handshake (C28). For the database
  layer: \<^verbatim>\<open>save\<close> and \<^verbatim>\<open>select\<close> (C11, C12), the text of statements (C24). For the classes:
  the clubs of a season (C13, C16, C27). For the protocol: round trips and bounds (C26). For the start: the
  settings of a configuration file, from its bytes to the log and the database environment (C17). For TOML: a
  document is read as it was written (C18); any text gives a table, an error or one of two marks of the
  library, and never runs past the end of the text (C19); a line of a document keeps all values that are there
  (C20); the two buffers give the characters in order (C21, C22); and characters the test for white space cannot
  handle (C23). For JSON: round trip, UTF-8, the grammar, progress, integers (C29 to C33).
  For the scanner: the publisher (C34, C35), query texts (C36), tasks and rows (C37), the scheduler's
  queue (C38), the way of a result to the server's action (C39), and a round of the client (C40). Several
  properties state where the code fails: a club replaced together with its memberships, a championship
  that is refused because it is known, a lost wakeup, a message that arrives with the body of another, a client that
  is gone and stays in the table, ids beyond \<^verbatim>\<open>int\<close>
  (\<open>id_text_roundtrip\<close>), a null connection (\<open>prepare_execute_unconnected\<close>), a double deletion, and a client
  that cannot connect again (\<open>disconnected_for_good\<close>).

  \<^bold>\<open>Parameters and bounds.\<close> The MySQL connector is the parameter \<open>sql_api\<close> over a database of any type;
  properties about exceptions assume that it throws SQL exceptions only (\<open>api_throws_sql\<close>), and the ones
  about tables that it serves the statements the program makes as MySQL documents it (\<open>mysql_serves\<close>: which
  rows a \<^verbatim>\<open>SELECT\<close> by key gives, which a \<^verbatim>\<open>REPLACE\<close> deletes, when it is refused), for texts of printable characters
  without quotes (\<open>sql_text\<close>), and decimals where the column is a number; they hold of \<open>script_api\<close> and of \<open>mem_api\<close>. Boost.Asio's completions are arguments of the handlers, the
  clock, the resolver and the web are arguments, and so is how a floating-point
  number, which the model keeps as its text, is written, and which of the texts of a TOML float a
  \<^verbatim>\<open>double\<close> can hold (\<open>to_double\<close>) and what its conversion to an integer gives (\<open>pl_whole\<close>). Values are nested up to
  \<open>max_nested_values\<close>, the library's own bound; a loop of the parser has as many rounds as there are characters ahead, and one,
  which suffices because a round that goes on has read one (C19 excludes \<open>out_of_rounds\<close>). Loops that end are total functions, by structure or by a measure: the lexer and the SAX loop
  by the bytes left, the digit loops by the number. Loops that do not end by themselves (the main loop,
  the scheduler, \<^verbatim>\<open>listen\<close>) run over the list of what their surroundings do, one element a round, so that
  what is said holds for any number of rounds. Draining a queue is bounded by its length, which is how far
  the C++ loop goes when nothing else is pushed meanwhile; what is pushed later is the next round's.

  \<^bold>\<open>Not modelled.\<close> Printing and logging (plog is vendored). Of the TOML library: the positions in
  its errors and source regions, which only messages show, the formatters and the interface for editing, and
  parsing from a stream. \<^verbatim>\<open>parse_float\<close> and \<^verbatim>\<open>parse_integer\<close> keep the character before as a value where the code keeps a
  pointer into the reader's buffer; they differ for values beyond 126 characters only. Of the JSON library: what the program does not reach
  (comments, binary formats, pointers and patches, other constructors, callbacks, pretty printing).
  \<^verbatim>\<open>game\<close>, \<^verbatim>\<open>goal\<close>, \<^verbatim>\<open>manager\<close>, \<^verbatim>\<open>referee\<close>, \<^verbatim>\<open>score\<close>, \<^verbatim>\<open>stadium\<close> and \<^verbatim>\<open>team\<close> have no operation and no user. The
  two \<^verbatim>\<open>main\<close> functions call what is modelled, in order, and loop. Tests and the googletest package.
\<close>

section \<open>From the message to the row and back\<close>

lemma football_action_new_championship:
  assumes "new_championship_ok ch"
  shows "football_action api (push_data enc_new_championship ch (message_new\<lparr>msg_id := Ev_new_championship\<rparr>))
    = Some (bind_p (event_action_new_championship api ch) (\<lambda>res.
        return_p (push_data enc_response res (message_new\<lparr>msg_id := nch_type ch\<rparr>))))"
proof -
  have "pull_data new_championship_size dec_new_championship
      (push_data enc_new_championship ch (message_new\<lparr>msg_id := Ev_new_championship\<rparr>))
      = Inr (ch, message_new\<lparr>msg_id := Ev_new_championship\<rparr>)"
    using assms by (intro new_championship_wire.pull_push) (simp_all add: message_new_def)
  then show ?thesis
    by (simp add: football_action_def execute_action_def push_data_def set_body_def Let_def
        bind_p_def lift_p_def)
qed

text \<open>
  C1: A request for a new championship, from the bytes of the message to the reply: the action does
  what \<open>championship_reply\<close> says, and the client that asked is sent the id and the success. A new championship
  gets a row, if its country is known; one that is there already keeps id and country, and the request
  is refused if it has seasons. An id that does not fit an \<^verbatim>\<open>int\<close>, or none, is thrown on instead,
  out of \<^verbatim>\<open>on_message\<close>, without a reply.
\<close>

theorem new_championship_request:
  assumes "mysql_serves coll api tabs" and "well_formed coll (db_tables tabs s)"
    and "client_alive si p" and "plain_new_championship ch"
  shows "\<exists>idd success s'.
     championship_reply coll (tabs (srv_db s)) (wide_text (nch_name ch)) (map narrow (nch_country ch)) idd success (db_tables tabs s')
     \<and> well_formed coll (db_tables tabs s')
     \<and> football_on_message api p
         (push_data enc_new_championship ch (message_new\<lparr>msg_id := Ev_new_championship\<rparr>)) (si, s)
       = (case id_int_of idd of
            Inl e \<Rightarrow> (Inl e, (si, s'))
          | Inr i \<Rightarrow> (Inr (), (si\<lparr>si_posted := si_posted si @ [(the p,
               push_data enc_response \<lparr>res_id = i, res_success = success\<rparr>
                 (message_new\<lparr>msg_id := nch_type ch\<rparr>))]\<rparr>, s')))"
proof -
  have shape: "new_championship_ok ch" using assms(4) by (simp add: plain_new_championship_def)
  obtain idd success s' where act: "event_action_new_championship api ch s = respond idd success s'"
    and promised: "championship_reply coll (tabs (srv_db s)) (wide_text (nch_name ch)) (map narrow (nch_country ch))
        idd success (db_tables tabs s')" "well_formed coll (db_tables tabs s')"
    using championship_service.served [OF assms(1,2,4)] unfolding reply_new_championship_def by blast
  have "msg_id (push_data enc_new_championship ch (message_new\<lparr>msg_id := Ev_new_championship\<rparr>)) \<noteq> Ev_ping"
    by (simp add: push_data_def set_body_def)
  then have "football_on_message api p
      (push_data enc_new_championship ch (message_new\<lparr>msg_id := Ev_new_championship\<rparr>)) (si, s)
    = bind_p (on_snd (bind_p (event_action_new_championship api ch) (\<lambda>res.
        return_p (push_data enc_response res (message_new\<lparr>msg_id := nch_type ch\<rparr>)))))
        (\<lambda>res. on_fst (client_send p res)) (si, s)"
    unfolding football_on_message_def football_action_new_championship [OF shape] by simp
  also have "\<dots> = (case id_int_of idd of
            Inl e \<Rightarrow> (Inl e, (si, s'))
          | Inr i \<Rightarrow> (Inr (), (si\<lparr>si_posted := si_posted si @ [(the p,
               push_data enc_response \<lparr>res_id = i, res_success = success\<rparr>
                 (message_new\<lparr>msg_id := nch_type ch\<rparr>))]\<rparr>, s')))"
    using client_calls(2) [OF assms(3)]
    by (simp add: bind_p_def on_snd_def on_fst_def return_p_def lift_p_def act respond_def split: sum.splits)
  finally show ?thesis using promised by blast
qed

theorem new_championship_request_witness:
  "\<exists>s'. football_on_message mem_api (Some 0)
       (push_data enc_new_championship sample_championship (message_new\<lparr>msg_id := Ev_new_championship\<rparr>))
       (accepted 7 server_new, mem_server sample_db)
     = (Inr (), ((accepted 7 server_new)\<lparr>si_posted := si_posted (accepted 7 server_new) @
         [(0, push_data enc_response \<lparr>res_id = 3, res_success = False\<rparr> (message_new\<lparr>msg_id := Ev_new_championship\<rparr>))]\<rparr>, s'))
     \<and> db_tables mem_tables s' = tb_rows (mem_tables sample_db)"
proof -
  have name: "wide_text (nch_name sample_championship) = ''Paulista''"
    using wide_text_widen [of "''Paulista''" 92] by (simp add: sample_championship_def)
  have country: "map narrow (nch_country sample_championship) = ''BR''"
    by (simp add: sample_championship_def)
  have plain: "plain_new_championship sample_championship"
    unfolding plain_new_championship_def name country
    by (simp add: sample_championship_def new_championship_ok_def) code_simp
  have alive: "client_alive (accepted 7 server_new) (Some 0)"
    by (simp add: client_alive_def accepted_def server_new_def Let_def)
  from new_championship_request [where tabs = mem_tables, OF mem_serves sample_db_well_formed alive plain]
  obtain idd success s' where reply: "championship_reply (\<lambda>v. v) (mem_tables sample_db) ''Paulista'' ''BR'' idd success (db_tables mem_tables s')"
    and run: "football_on_message mem_api (Some 0)
         (push_data enc_new_championship sample_championship (message_new\<lparr>msg_id := Ev_new_championship\<rparr>))
         (accepted 7 server_new, mem_server sample_db)
       = (case id_int_of idd of
            Inl e \<Rightarrow> (Inl e, (accepted 7 server_new, s'))
          | Inr i \<Rightarrow> (Inr (), ((accepted 7 server_new)\<lparr>si_posted := si_posted (accepted 7 server_new) @ [(the (Some 0),
               push_data enc_response \<lparr>res_id = i, res_success = success\<rparr>
                 (message_new\<lparr>msg_id := nch_type sample_championship\<rparr>))]\<rparr>, s')))"
    unfolding name country sample_srv by (elim exE conjE) (rule that)
  have known: "{r \<in> tb_rows (mem_tables sample_db) ''championships''. cell ''championships'' r ''name'' = ''Paulista''}
      = {[''3'', ''Paulista'', ''BR'']}" by auto
  have "[''3'', ''Paulista'', ''BR''] \<in> {[''3'', ''Paulista'', ''BR'']}" by simp
  then have ne: "{[''3'', ''Paulista'', ''BR'']} \<noteq> {}" by blast
  note spec = reply [unfolded championship_reply_def Let_def known if_P [OF ne]]
  have idd: "idd = ''3''" using spec by simp
  have refused: "\<not> success" using spec by simp
  have same: "db_tables mem_tables s' = tb_rows (mem_tables sample_db)"
    using spec refused by (elim bexE conjE) (simp only: if_False)
  have "id_int_of idd = Inr 3" unfolding idd by code_simp
  moreover have "nch_type sample_championship = Ev_new_championship" by (simp add: sample_championship_def)
  ultimately show ?thesis using run refused same by (intro exI [of _ s'] conjI) simp_all
qed

section \<open>The tables as a whole\<close>





text \<open>
  \<^verbatim>\<open>remove\<close> either throws what the connector threw, with the object's fields kept, or issues
  one \<^verbatim>\<open>DELETE\<close> by the key fields and returns true with an object that is empty: the members of a
  championship or a club are read back from a map of fields that has been cleared.
\<close>

theorem remove_empties:
  "(case remove api championship_vtable (cs, s) of
      (Inl e, (cs', s')) \<Rightarrow> run_stmt api (delete_stmt cs) s = (Inl e, s') \<and> cs' = key_fill cs
    | (Inr b, (cs', s')) \<Rightarrow> b \<and> run_stmt api (delete_stmt cs) s = (Inr (), s')
        \<and> championship_empty cs' \<and> fields_values cs' = [])
   \<and> (case remove api club_vtable (cl, s) of
      (Inl e, (cl', s')) \<Rightarrow> run_stmt api (delete_stmt cl) s = (Inl e, s') \<and> cl' = key_fill cl
    | (Inr b, (cl', s')) \<Rightarrow> b \<and> run_stmt api (delete_stmt cl) s = (Inr (), s')
        \<and> cl_id cl' = [] \<and> cl_name cl' = [] \<and> cl_country cl' = [] \<and> fields_values cl' = [])"
  unfolding champ.remove_run clubs.remove_run
  by (auto simp: prog_simps championship_vtable_def championship_reset_def championship_empty_def
      club_vtable_def club_reset_def get_field_def split: prod.splits sum.splits)

section \<open>From the page to the request\<close>

lemma until_nul_widen:
  "wide_text (map widen s @ replicate n 0) = takeWhile (\<lambda>c. c \<noteq> CHR 0x00) s"
proof (cases "CHR 0x00 \<in> set s")
  case True
  then obtain p t where s: "s = p @ CHR 0x00 # t" and "CHR 0x00 \<notin> set p"
    by (meson split_list_first)
  then have "until_nul (map widen s @ replicate n 0) = map widen p"
    by (simp add: until_nul_def takeWhile_append takeWhile_map widen_zero o_def takeWhile_eq_all_conv)
  moreover have "takeWhile (\<lambda>c. c \<noteq> CHR 0x00) s = p"
    using \<open>CHR 0x00 \<notin> set p\<close> s by (auto simp: takeWhile_append takeWhile_eq_all_conv)
  ultimately show ?thesis by (simp add: wide_text_def o_def)
next
  case False
  then have "takeWhile (\<lambda>c. c \<noteq> CHR 0x00) s = s" by (auto simp: takeWhile_eq_all_conv)
  with wide_text_widen [OF False, of n] show ?thesis by (simp only:)
qed

lemma narrow_zero [simp]: "narrow 0 = CHR 0x00"
  by (simp add: narrow_def char_of_def)

text \<open>
  C39: What the scanner finds, as the server gets it. A name of more than 100 characters or a country of
  more than two is copied past its array; otherwise the client's message makes the server run the action
  for a new championship with the name, up to a NUL, and the country, NULs in place of what it lacks.
\<close>

theorem scanned_championship_arrives:
  "case result_new_championship name country slots of
     Inl e \<Rightarrow> (100 < length name \<or> 2 < length country) \<and> (\<exists>why. e = Undefined_behaviour why)
   | Inr res \<Rightarrow> length name \<le> 100 \<and> length country \<le> 2
       \<and> (\<exists>ch. new_championship_ok ch
          \<and> football_action api (result_message res) = Some (bind_p (event_action_new_championship api ch) (\<lambda>r.
              return_p (push_data enc_response r (message_new\<lparr>msg_id := Ev_new_championship\<rparr>))))
          \<and> wide_text (nch_name ch) = takeWhile (\<lambda>c. c \<noteq> CHR 0x00) name
          \<and> map narrow (nch_country ch) = country @ replicate (2 - length country) (CHR 0x00))"
proof (cases "length name \<le> 100 \<and> length country \<le> 2")
  case True
  let ?ch = "\<lparr>nch_name = map widen name @ replicate (100 - length name) 0,
    nch_country = map widen country @ replicate (2 - length country) 0, nch_type = Ev_new_championship\<rparr>"
  from True have res: "result_new_championship name country slots = Inr (R_new_championship ?ch)"
    by (simp add: result_new_championship_def copy_into_def)
  from True have ok: "new_championship_ok ?ch"
    by (simp add: new_championship_ok_def)
  have "wide_text (nch_name ?ch) = takeWhile (\<lambda>c. c \<noteq> CHR 0x00) name"
    by (simp add: until_nul_widen)
  moreover have "map narrow (nch_country ?ch) = country @ replicate (2 - length country) (CHR 0x00)"
    by (simp add: o_def)
  moreover have "result_message (R_new_championship ?ch)
      = push_data enc_new_championship ?ch (message_new\<lparr>msg_id := Ev_new_championship\<rparr>)"
    by (simp add: result_message_def)
  ultimately show ?thesis
    unfolding res using True ok football_action_new_championship [OF ok, of api]
    by (simp del: result_new_championship_def) (rule exI [of _ ?ch], simp)
next
  case False
  then show ?thesis
    by (auto simp: result_new_championship_def copy_into_def)
qed

end
